(* ===== verification/Prelude.thy ===== *)
theory Prelude
  imports Main "HOL-Library.Char_ord" "HOL-Library.List_Lexorder"
begin

text \<open>
  The vocabulary the component theories share: the result type of fallible code, Go's
  \<open>int64\<close> arithmetic, Go's \<open>time.Time\<close> as nanoseconds, and SQL tables as lists of rows
  with the statements the store uses (SELECT, UPDATE, DELETE, INSERT, upsert).  The lemmas
  on tables are collected in \<open>table_simps\<close>, those on results in \<open>result_simps\<close>.
\<close>

named_theorems table_simps \<open>rewriting of SQL statements on tables\<close>
named_theorems result_simps \<open>rewriting of fallible computations\<close>

section \<open>Fallible computations\<close>

text \<open>The sentinel errors of the store package; every other error is \<open>ErrOther\<close>.\<close>

datatype store_error =
    ErrNotFound | ErrConflict | ErrExpired | ErrPending | ErrUnauthorized
  | ErrVersionConflict | ErrUnsupported | ErrReadOnly | ErrQuotaUnsupported
  | ErrKickUnsupported | ErrNodeEnabled | ErrOther string

definition rbind :: "'e + 'a \<Rightarrow> ('a \<Rightarrow> 'e + 'b) \<Rightarrow> 'e + 'b" where
  "rbind m f = (case m of Inl e \<Rightarrow> Inl e | Inr x \<Rightarrow> f x)"

lemma rbind_simps [simp, result_simps]:
  "rbind (Inl e) f = Inl e"
  "rbind (Inr x) f = f x"
  by (simp_all add: rbind_def)

lemma rbind_Inr_conv [result_simps]:
  "rbind m f = Inr y \<longleftrightarrow> (\<exists>x. m = Inr x \<and> f x = Inr y)"
  by (cases m) simp_all

lemma rbind_Inl_conv [result_simps]:
  "rbind m f = Inl e \<longleftrightarrow> m = Inl e \<or> (\<exists>x. m = Inr x \<and> f x = Inl e)"
  by (cases m) auto

lemma rbind_cong: "m = m' \<Longrightarrow> (\<And>x. m' = Inr x \<Longrightarrow> f x = g x) \<Longrightarrow> rbind m f = rbind m' g"
  by (cases m') simp_all

lemma rbind_InrE:
  assumes "rbind m f = Inr y"
  obtains x where "m = Inr x" and "f x = Inr y"
  using assms by (auto simp: rbind_Inr_conv)

text \<open>A loop with an early error return.\<close>

fun rfold :: "('a \<Rightarrow> 's \<Rightarrow> 'e + 's) \<Rightarrow> 'a list \<Rightarrow> 's \<Rightarrow> 'e + 's" where
  "rfold f [] s = Inr s"
| "rfold f (x # xs) s = rbind (f x s) (rfold f xs)"

lemma rfold_append: "rfold f (xs @ ys) s = rbind (rfold f xs s) (rfold f ys)"
  by (induction xs arbitrary: s) (auto simp: rbind_def split: sum.splits)

lemma rfold_invariant:
  assumes "rfold f xs s = Inr s'"
    and "P s"
    and "\<And>x s s'. x \<in> set xs \<Longrightarrow> P s \<Longrightarrow> f x s = Inr s' \<Longrightarrow> P s'"
  shows "P s'"
  using assms
proof (induction xs arbitrary: s)
  case Nil
  then show ?case by simp
next
  case (Cons x xs)
  from Cons.prems(1) obtain s1 where s1: "f x s = Inr s1" "rfold f xs s1 = Inr s'"
    by (auto simp: rbind_Inr_conv)
  with Cons.prems have "P s1" by (meson list.set_intros(1))
  with s1(2) Cons.prems(3) show ?case by (intro Cons.IH) auto
qed

lemma rfold_relation:
  assumes "rfold f xs s = Inr s'"
    and refl: "\<And>s. R s s"
    and trans: "\<And>a b c. R a b \<Longrightarrow> R b c \<Longrightarrow> R a c"
    and step: "\<And>x s s'. x \<in> set xs \<Longrightarrow> f x s = Inr s' \<Longrightarrow> R s s'"
  shows "R s s'"
  using assms(1) step
proof (induction xs arbitrary: s)
  case Nil
  then show ?case by (simp add: refl)
next
  case (Cons x xs)
  from Cons.prems(1) obtain s1 where s1: "f x s = Inr s1" "rfold f xs s1 = Inr s'"
    by (auto simp: rbind_Inr_conv)
  with Cons.prems(2) have "R s s1" by (meson list.set_intros(1))
  moreover from s1(2) Cons.prems(2) have "R s1 s'" by (intro Cons.IH) auto
  ultimately show ?case by (rule trans)
qed

text \<open>
  A database transaction: the body computes on a working copy; an error (or an early
  return without commit) rolls back, so the old state stays.
\<close>

definition transact :: "('db \<Rightarrow> 'e + 'a \<times> 'db) \<Rightarrow> 'db \<Rightarrow> ('e + 'a) \<times> 'db" where
  "transact body d = (case body d of Inl e \<Rightarrow> (Inl e, d) | Inr (x, d') \<Rightarrow> (Inr x, d'))"

lemma transact_Inl: "body d = Inl e \<Longrightarrow> transact body d = (Inl e, d)"
  by (simp add: transact_def)

lemma transact_Inr: "body d = Inr (x, d') \<Longrightarrow> transact body d = (Inr x, d')"
  by (simp add: transact_def)

lemma transact_rollback: "transact body d = (Inl e, d') \<Longrightarrow> d' = d"
  by (auto simp: transact_def split: sum.splits prod.splits)

lemma transact_commit: "transact body d = (Inr x, d') \<longleftrightarrow> body d = Inr (x, d')"
  by (auto simp: transact_def split: sum.splits prod.splits)

lemma transact_preserves:
  assumes "\<And>x d'. body d = Inr (x, d') \<Longrightarrow> P d'" and "P d"
  shows "P (snd (transact body d))"
  using assms by (auto simp: transact_def split: sum.splits)

section \<open>Go integers\<close>

definition MaxInt64 :: int where "MaxInt64 = 9223372036854775807"
definition MinInt64 :: int where "MinInt64 = -9223372036854775808"

definition wrap64 :: "int \<Rightarrow> int" where
  "wrap64 x = (x + 9223372036854775808) mod 18446744073709551616 - 9223372036854775808"

definition add64 :: "int \<Rightarrow> int \<Rightarrow> int" where "add64 a b = wrap64 (a + b)"
definition sub64 :: "int \<Rightarrow> int \<Rightarrow> int" where "sub64 a b = wrap64 (a - b)"

definition int64_range :: "int \<Rightarrow> bool" where
  "int64_range x \<longleftrightarrow> MinInt64 \<le> x \<and> x \<le> MaxInt64"

lemma wrap64_id [simp]: "int64_range x \<Longrightarrow> wrap64 x = x"
  by (simp add: int64_range_def wrap64_def MaxInt64_def MinInt64_def)

lemma wrap64_range: "int64_range (wrap64 x)"
  unfolding int64_range_def wrap64_def MaxInt64_def MinInt64_def
  using pos_mod_bound [of 18446744073709551616 "x + 9223372036854775808"]
    pos_mod_sign [of 18446744073709551616 "x + 9223372036854775808"]
  by linarith

lemma sub64_MaxInt64 [simp]: "0 \<le> b \<Longrightarrow> b \<le> MaxInt64 \<Longrightarrow> sub64 MaxInt64 b = MaxInt64 - b"
  by (simp add: sub64_def int64_range_def MaxInt64_def MinInt64_def)

lemma add64_nonneg [simp]:
  "0 \<le> a \<Longrightarrow> 0 \<le> b \<Longrightarrow> a + b \<le> MaxInt64 \<Longrightarrow> add64 a b = a + b"
  by (simp add: add64_def int64_range_def MaxInt64_def MinInt64_def)

lemma sub64_nonneg [simp]:
  "0 \<le> a \<Longrightarrow> a \<le> MaxInt64 \<Longrightarrow> 0 \<le> b \<Longrightarrow> b \<le> MaxInt64 \<Longrightarrow> sub64 a b = a - b"
  by (simp add: sub64_def int64_range_def MaxInt64_def MinInt64_def)

lemma MaxInt64_nonneg [simp]: "0 \<le> MaxInt64"
  by (simp add: MaxInt64_def)

text \<open>The overflow guard of the store: for a counter in range it refuses exactly negative
  increments and increments that leave the range.\<close>

lemma overflow_guard:
  assumes "0 \<le> a" and "a \<le> MaxInt64" and "int64_range x"
  shows "sub64 MaxInt64 x < a \<longleftrightarrow> x < 0 \<or> MaxInt64 < a + x"
proof (cases "x < 0")
  case True
  have "sub64 MaxInt64 x = MinInt64 + (- x - 1)"
    using True assms(3) mod_pos_pos_trivial [of "- x - 1" 18446744073709551616]
      mod_add_self2 [of "- x - 1" 18446744073709551616]
    by (simp add: sub64_def wrap64_def int64_range_def MaxInt64_def MinInt64_def algebra_simps)
  also have "\<dots> < 0" using assms(3) by (simp add: int64_range_def MinInt64_def)
  finally show ?thesis using True assms(1) by simp
next
  case False
  with assms(3) have "sub64 MaxInt64 x = MaxInt64 - x" by (simp add: int64_range_def)
  with False show ?thesis by auto
qed

section \<open>Go time\<close>

text \<open>
  A \<open>time.Time\<close> is the number of nanoseconds since the Unix epoch (every time the code
  compares or stores is in UTC); a \<open>time.Duration\<close> is a number of nanoseconds.
\<close>

type_synonym gotime = int
type_synonym duration = int

definition unixMilli :: "gotime \<Rightarrow> int" where "unixMilli t = t div 1000000"
definition unixTime :: "int \<Rightarrow> gotime" where "unixTime ms = ms * 1000000"

definition second :: duration where "second = 1000000000"
definition minute :: duration where "minute = 60 * second"

definition zeroTime :: gotime where "zeroTime = - 62135596800 * 1000000000"

text \<open>\<open>Time.Sub\<close> saturates at the bounds of \<open>Duration\<close>.\<close>

definition time_sub :: "gotime \<Rightarrow> gotime \<Rightarrow> duration" where
  "time_sub a b = max MinInt64 (min MaxInt64 (a - b))"

lemma unixMilli_unixTime [simp]: "unixMilli (unixTime ms) = ms"
  by (simp add: unixMilli_def unixTime_def)

lemma unixTime_le: "unixTime (unixMilli t) \<le> t"
  unfolding unixTime_def unixMilli_def
  using mult_div_mod_eq [of 1000000 t] pos_mod_sign [of 1000000 t] by linarith

lemma unixMilli_mono: "s \<le> t \<Longrightarrow> unixMilli s \<le> unixMilli t"
  by (simp add: unixMilli_def zdiv_mono1)

lemma time_sub_ge_iff: "MinInt64 < w \<Longrightarrow> w \<le> MaxInt64 \<Longrightarrow> w \<le> time_sub a b \<longleftrightarrow> w \<le> a - b"
  by (auto simp: time_sub_def)

section \<open>Conditional sums\<close>

definition sum_by :: "('a \<Rightarrow> bool) \<Rightarrow> ('a \<Rightarrow> int) \<Rightarrow> 'a list \<Rightarrow> int" where
  "sum_by p f xs = sum_list (map f (filter p xs))"

lemma sum_by_simps [simp]:
  "sum_by p f [] = 0"
  "sum_by p f (x # xs) = (if p x then f x else 0) + sum_by p f xs"
  "sum_by p f (xs @ ys) = sum_by p f xs + sum_by p f ys"
  by (simp_all add: sum_by_def)

lemma sum_by_nonneg: "(\<And>x. x \<in> set xs \<Longrightarrow> 0 \<le> f x) \<Longrightarrow> 0 \<le> sum_by p f xs"
  by (induction xs) auto

lemma sum_by_none: "(\<And>x. x \<in> set xs \<Longrightarrow> \<not> p x) \<Longrightarrow> sum_by p f xs = 0"
  by (induction xs) auto

lemma sum_by_add: "sum_by p (\<lambda>x. f x + g x) xs = sum_by p f xs + sum_by p g xs"
  by (induction xs) auto

section \<open>SQL tables\<close>

text \<open>A table is the list of its rows; statements are the list functions they denote.\<close>

definition sql_update :: "('r \<Rightarrow> bool) \<Rightarrow> ('r \<Rightarrow> 'r) \<Rightarrow> 'r list \<Rightarrow> 'r list" where
  "sql_update p f t = map (\<lambda>r. if p r then f r else r) t"

definition sql_delete :: "('r \<Rightarrow> bool) \<Rightarrow> 'r list \<Rightarrow> 'r list" where
  "sql_delete p t = filter (\<lambda>r. \<not> p r) t"

definition sql_first :: "('r \<Rightarrow> bool) \<Rightarrow> 'r list \<Rightarrow> 'r option" where
  "sql_first p t = List.find p t"

definition sql_exists :: "('r \<Rightarrow> bool) \<Rightarrow> 'r list \<Rightarrow> bool" where
  "sql_exists p t = list_ex p t"

definition sql_count :: "('r \<Rightarrow> bool) \<Rightarrow> 'r list \<Rightarrow> int" where
  "sql_count p t = int (length (filter p t))"

text \<open>INSERT with a UNIQUE or PRIMARY KEY constraint on \<open>key\<close>: \<open>None\<close> is the violation.\<close>

definition sql_insert :: "('r \<Rightarrow> 'k) \<Rightarrow> 'r \<Rightarrow> 'r list \<Rightarrow> 'r list option" where
  "sql_insert key r t = (if sql_exists (\<lambda>x. key x = key r) t then None else Some (t @ [r]))"

text \<open>INSERT \dots ON CONFLICT(key) DO UPDATE.\<close>

definition sql_upsert :: "('r \<Rightarrow> 'k) \<Rightarrow> 'r \<Rightarrow> ('r \<Rightarrow> 'r) \<Rightarrow> 'r list \<Rightarrow> 'r list" where
  "sql_upsert key r f t =
     (if sql_exists (\<lambda>x. key x = key r) t
      then sql_update (\<lambda>x. key x = key r) f t else t @ [r])"

definition unique_by :: "('r \<Rightarrow> 'k) \<Rightarrow> 'r list \<Rightarrow> bool" where
  "unique_by key t = distinct (map key t)"

lemma sql_exists_iff [table_simps]: "sql_exists p t \<longleftrightarrow> (\<exists>r\<in>set t. p r)"
  by (simp add: sql_exists_def list_ex_iff)

lemma sql_first_None [table_simps]: "sql_first p t = None \<longleftrightarrow> (\<forall>r\<in>set t. \<not> p r)"
  by (auto simp: sql_first_def find_None_iff)

lemma sql_first_SomeD: "sql_first p t = Some r \<Longrightarrow> r \<in> set t \<and> p r"
  by (auto simp: sql_first_def find_Some_iff)

lemma sql_first_cong:
  "(\<And>r. r \<in> set t \<Longrightarrow> p r = q r) \<Longrightarrow> sql_first p t = sql_first q t"
  unfolding sql_first_def by (induction t) auto

lemma sql_first_Nil [simp]: "sql_first p [] = None"
  by (simp add: sql_first_def)

lemma sql_first_Cons [simp]:
  "sql_first p (r # t) = (if p r then Some r else sql_first p t)"
  by (simp add: sql_first_def)

lemma sql_first_append [table_simps]:
  "sql_first p (t @ u) = (case sql_first p t of None \<Rightarrow> sql_first p u | Some r \<Rightarrow> Some r)"
  by (induction t) auto

lemma sql_update_Nil [simp]: "sql_update p f [] = []"
  by (simp add: sql_update_def)

lemma sql_update_Cons [simp]:
  "sql_update p f (r # t) = (if p r then f r else r) # sql_update p f t"
  by (simp add: sql_update_def)

lemma set_sql_update [table_simps]:
  "set (sql_update p f t) = (\<lambda>r. if p r then f r else r) ` set t"
  by (simp add: sql_update_def)

lemma ball_sql_update:
  "(\<forall>r\<in>set (sql_update p f t). Q r) \<longleftrightarrow> (\<forall>r\<in>set t. Q (if p r then f r else r))"
  by (induction t) auto

lemma bex_sql_update:
  "(\<exists>r\<in>set (sql_update p f t). Q r) \<longleftrightarrow> (\<exists>r\<in>set t. Q (if p r then f r else r))"
  by (induction t) auto

lemma set_sql_delete [table_simps]: "set (sql_delete p t) = {r \<in> set t. \<not> p r}"
  by (simp add: sql_delete_def)

lemma length_sql_update [simp]: "length (sql_update p f t) = length t"
  by (simp add: sql_update_def)

lemma sql_update_append [table_simps]:
  "sql_update p f (t @ u) = sql_update p f t @ sql_update p f u"
  by (simp add: sql_update_def)

lemma sql_update_idle: "\<forall>r\<in>set t. \<not> p r \<Longrightarrow> sql_update p f t = t"
  by (simp add: sql_update_def map_idI)

lemma sql_insert_Some [table_simps]:
  "sql_insert key r t = Some t' \<longleftrightarrow> (\<forall>x\<in>set t. key x \<noteq> key r) \<and> t' = t @ [r]"
  by (auto simp: sql_insert_def table_simps)

lemma sql_insert_None [table_simps]:
  "sql_insert key r t = None \<longleftrightarrow> (\<exists>x\<in>set t. key x = key r)"
  by (auto simp: sql_insert_def table_simps)

lemma unique_by_append1 [table_simps]:
  "unique_by key (t @ [r]) \<longleftrightarrow> unique_by key t \<and> (\<forall>x\<in>set t. key x \<noteq> key r)"
  by (auto simp: unique_by_def image_iff)

lemma unique_by_insert:
  "unique_by key t \<Longrightarrow> sql_insert key r t = Some t' \<Longrightarrow> unique_by key t'"
  by (auto simp: table_simps)

lemma unique_by_delete: "unique_by key t \<Longrightarrow> unique_by key (sql_delete p t)"
  by (simp add: unique_by_def sql_delete_def distinct_map_filter)

lemma unique_byD:
  "unique_by key t \<Longrightarrow> r \<in> set t \<Longrightarrow> r' \<in> set t \<Longrightarrow> key r = key r' \<Longrightarrow> r = r'"
  by (auto simp: unique_by_def distinct_map dest: inj_onD)

lemma sql_first_unique:
  assumes "unique_by key t" and "r \<in> set t"
  shows "sql_first (\<lambda>x. key x = key r) t = Some r"
proof -
  have "sql_first (\<lambda>x. key x = key r) t \<noteq> None"
    using assms(2) by (auto simp: sql_first_None)
  then obtain r' where "sql_first (\<lambda>x. key x = key r) t = Some r'" by blast
  with assms unique_byD [OF assms(1)] show ?thesis by (auto dest!: sql_first_SomeD)
qed

lemma sql_first_update:
  "(\<And>r. q (f r) = q r) \<Longrightarrow>
     sql_first q (sql_update p f t) = map_option (\<lambda>r. if p r then f r else r) (sql_first q t)"
  by (induction t) auto

lemma lookup_replace: "sql_first (\<lambda>x. key x = key r) (sql_upsert key r (\<lambda>_. r) t) = Some r"
proof (cases "\<exists>x\<in>set t. key x = key r")
  case True
  then have "sql_first (\<lambda>x. key x = key r) (sql_update (\<lambda>x. key x = key r) (\<lambda>_. r) t) = Some r"
    by (induction t) auto
  with True show ?thesis by (simp add: sql_upsert_def sql_exists_iff)
next
  case False
  then have "sql_first (\<lambda>x. key x = key r) t = None" by (simp add: sql_first_None)
  with False show ?thesis by (simp add: sql_upsert_def sql_exists_iff sql_first_append)
qed

subsection \<open>Row updates that keep the key\<close>

text \<open>
  The contract of every UPDATE of the store: the SET clause does not touch the key columns.
  Clients get uniqueness of the key and the effect of later lookups from it.
\<close>

locale row_update =
  fixes key :: "'r \<Rightarrow> 'k" and f :: "'r \<Rightarrow> 'r"
  assumes key_kept: "key (f r) = key r"
begin

lemma map_key_update: "map key (sql_update p f t) = map key t"
  by (simp add: sql_update_def key_kept)

lemma all_keys_update: "(\<forall>r\<in>set (sql_update p f t). Q (key r)) \<longleftrightarrow> (\<forall>r\<in>set t. Q (key r))"
  by (induction t) (auto simp: key_kept)

lemma ex_key_update: "(\<exists>r\<in>set (sql_update p f t). Q (key r)) \<longleftrightarrow> (\<exists>r\<in>set t. Q (key r))"
  by (induction t) (auto simp: key_kept)

lemma unique_update: "unique_by key t \<Longrightarrow> unique_by key (sql_update p f t)"
  by (simp add: unique_by_def map_key_update)

lemma unique_upsert: "unique_by key t \<Longrightarrow> unique_by key (sql_upsert key r f t)"
  by (auto simp: sql_upsert_def unique_update table_simps)

lemma lookup_update:
  "sql_first (\<lambda>r. key r = k) (sql_update p f t) =
     map_option (\<lambda>r. if p r then f r else r) (sql_first (\<lambda>r. key r = k) t)"
  by (induction t) (auto simp: key_kept)

lemma lookup_upsert_same:
  "sql_first (\<lambda>x. key x = key r) (sql_upsert key r f t) =
     Some (case sql_first (\<lambda>x. key x = key r) t of None \<Rightarrow> r | Some x \<Rightarrow> f x)"
proof (cases "sql_first (\<lambda>x. key x = key r) t")
  case None
  then have "\<not> sql_exists (\<lambda>x. key x = key r) t" by (simp add: table_simps)
  with None show ?thesis by (simp add: sql_upsert_def sql_first_append)
next
  case (Some x)
  then have "\<exists>x\<in>set t. key x = key r" and "key x = key r"
    by (auto dest: sql_first_SomeD)
  with Some show ?thesis by (simp add: sql_upsert_def table_simps lookup_update)
qed

lemma lookup_upsert_other:
  assumes "k \<noteq> key r"
  shows "sql_first (\<lambda>x. key x = k) (sql_upsert key r f t) = sql_first (\<lambda>x. key x = k) t"
proof (cases "sql_exists (\<lambda>x. key x = key r) t")
  case True
  have "map_option (\<lambda>x. if key x = key r then f x else x) (sql_first (\<lambda>x. key x = k) t) =
      sql_first (\<lambda>x. key x = k) t"
    using assms by (cases "sql_first (\<lambda>x. key x = k) t") (auto dest: sql_first_SomeD)
  with True show ?thesis by (simp add: sql_upsert_def lookup_update)
next
  case False
  with assms show ?thesis by (simp add: sql_upsert_def sql_first_append split: option.split)
qed

end

end
