(* ===== verification/Calendar.thy ===== *)
theory Calendar
  imports Prelude
begin

text \<open>
  The part of Go's \<open>time\<close> package the traffic cycles use: \<open>time.Date\<close> with its
  normalisation of out-of-range months and days, \<open>Time.Date\<close> (year, month, day) and
  \<open>Time.AddDate\<close>, all in UTC on the proleptic Gregorian calendar.  The main results are
  that reading back a date gives the date it was made from, and the reverse.
\<close>

section \<open>Counting days\<close>

definition is_leap :: "int \<Rightarrow> bool" where
  "is_leap y \<longleftrightarrow> y mod 4 = 0 \<and> (y mod 100 \<noteq> 0 \<or> y mod 400 = 0)"

text \<open>Days from 1 January of year 1 to 1 January of year \<open>y\<close>.\<close>

definition days_before_year :: "int \<Rightarrow> int" where
  "days_before_year y = 365 * (y - 1) + (y - 1) div 4 - (y - 1) div 100 + (y - 1) div 400"

definition days_in_month :: "int \<Rightarrow> int \<Rightarrow> int" where
  "days_in_month y m =
     (if m = 2 then (if is_leap y then 29 else 28)
      else if m = 4 \<or> m = 6 \<or> m = 9 \<or> m = 11 then 30 else 31)"

definition days_before_month :: "int \<Rightarrow> int \<Rightarrow> int" where
  "days_before_month y m =
     (if m \<le> 1 then 0 else if m = 2 then 31
      else (if is_leap y then 1 else 0) +
        (if m = 3 then 59 else if m = 4 then 90 else if m = 5 then 120
         else if m = 6 then 151 else if m = 7 then 181 else if m = 8 then 212
         else if m = 9 then 243 else if m = 10 then 273 else if m = 11 then 304 else 334))"

text \<open>The day number \<open>time.Date\<close> computes: months outside 1..12 carry into the year,
  days outside the month carry into the day count.\<close>

definition date_days :: "int \<Rightarrow> int \<Rightarrow> int \<Rightarrow> int" where
  "date_days y m d =
     (let y' = y + (m - 1) div 12; m' = (m - 1) mod 12 + 1
      in days_before_year y' + days_before_month y' m' + (d - 1))"

definition day_ns :: int where "day_ns = 86400 * 1000000000"

text \<open>Day 719162 is 1 January 1970.\<close>

definition days_of :: "gotime \<Rightarrow> int" where "days_of t = t div day_ns + 719162"

definition time_Date :: "int \<Rightarrow> int \<Rightarrow> int \<Rightarrow> gotime" where
  "time_Date y m d = (date_days y m d - 719162) * day_ns"

section \<open>Reading a date\<close>

definition year_of_days :: "int \<Rightarrow> int" where
  "year_of_days n =
     (let y = (400 * n) div 146097 + 1
      in if n < days_before_year y then y - 1
         else if days_before_year (y + 1) \<le> n then y + 1 else y)"

definition month_of_days :: "int \<Rightarrow> int" where
  "month_of_days n =
     (let y = year_of_days n; yd = n - days_before_year y
      in int (length (filter (\<lambda>m. days_before_month y m \<le> yd) [1,2,3,4,5,6,7,8,9,10,11,12])))"

definition day_of_days :: "int \<Rightarrow> int" where
  "day_of_days n =
     n - days_before_year (year_of_days n)
       - days_before_month (year_of_days n) (month_of_days n) + 1"

definition time_Year :: "gotime \<Rightarrow> int" where "time_Year t = year_of_days (days_of t)"
definition time_Month :: "gotime \<Rightarrow> int" where "time_Month t = month_of_days (days_of t)"
definition time_Day :: "gotime \<Rightarrow> int" where "time_Day t = day_of_days (days_of t)"

text \<open>\<open>Time.AddDate\<close> keeps the clock reading.\<close>

definition time_AddDate :: "gotime \<Rightarrow> int \<Rightarrow> int \<Rightarrow> int \<Rightarrow> gotime" where
  "time_AddDate t ys ms ds =
     time_Date (time_Year t + ys) (time_Month t + ms) (time_Day t + ds) + t mod day_ns"

section \<open>Years\<close>

lemma div_pred:
  fixes y n :: int
  assumes "0 < n"
  shows "y div n = (y - 1) div n + (if y mod n = 0 then 1 else 0)"
proof -
  have y: "y = n * (y div n) + y mod n" by simp
  have r: "0 \<le> y mod n" "y mod n < n" using assms by simp_all
  show ?thesis
  proof (cases "y mod n = 0")
    case True
    then have "y - 1 = n * (y div n - 1) + (n - 1)" using y by (simp add: algebra_simps)
    then have "(y - 1) div n = y div n - 1"
      by (rule int_div_pos_eq) (use assms in simp_all)
    with True show ?thesis by simp
  next
    case False
    then have "y - 1 = n * (y div n) + (y mod n - 1)" using y by linarith
    then have "(y - 1) div n = y div n"
      by (rule int_div_pos_eq) (use r False in linarith)+
    with False show ?thesis by simp
  qed
qed

lemma days_before_year_Suc:
  "days_before_year (y + 1) = days_before_year y + (if is_leap y then 366 else 365)"
proof -
  define a b c where "a = (y - 1) div 4" and "b = (y - 1) div 100" and "c = (y - 1) div 400"
  define A B C where "A \<longleftrightarrow> y mod 4 = 0" and "B \<longleftrightarrow> y mod 100 = 0" and "C \<longleftrightarrow> y mod 400 = 0"
  have d: "C \<longrightarrow> B" "B \<longrightarrow> A"
    using dvd_trans [of 100 400 y] dvd_trans [of 4 100 y]
    unfolding A_def B_def C_def by (simp_all add: dvd_eq_mod_eq_0)
  define p q r :: int where "p = of_bool A" and "q = of_bool B" and "r = of_bool C"
  have "y div 4 = a + p" "y div 100 = b + q" "y div 400 = c + r"
    unfolding a_def b_def c_def p_def q_def r_def A_def B_def C_def of_bool_def
    by (rule div_pred; simp)+
  then have "days_before_year (y + 1) = 365 * y + (a + p) - (b + q) + (c + r)"
    by (simp add: days_before_year_def)
  moreover have "days_before_year y = 365 * (y - 1) + a - b + c"
    by (simp add: days_before_year_def a_def b_def c_def)
  ultimately have sum: "days_before_year (y + 1) = days_before_year y + 365 + (p - q + r)"
    by (simp add: algebra_simps)
  have "is_leap y \<longleftrightarrow> A \<and> (\<not> B \<or> C)"
    by (simp only: is_leap_def A_def B_def C_def)
  moreover have "p - q + r = (if A \<and> (\<not> B \<or> C) then 1 else 0)"
    using d unfolding p_def q_def r_def by (cases A; cases B; cases C) simp_all
  ultimately show ?thesis unfolding sum by simp
qed

lemma days_before_year_mono: "y \<le> z \<Longrightarrow> days_before_year y \<le> days_before_year z"
proof (induction z rule: int_ge_induct)
  case base
  then show ?case by simp
next
  case (step z)
  then show ?case by (auto simp: days_before_year_Suc)
qed

lemma div_bracket:
  fixes k n :: int
  assumes "0 < n"
  shows "n * (k div n) \<le> k" "k < n * (k div n) + n"
proof -
  have "n * (k div n) + k mod n = k" by simp
  moreover have "0 \<le> k mod n" "k mod n < n" using assms by simp_all
  ultimately show "n * (k div n) \<le> k" "k < n * (k div n) + n" by linarith+
qed

lemma days_before_year_bounds:
  "400 * days_before_year y \<le> 146097 * (y - 1) + 396"
  "146097 * (y - 1) - 699 \<le> 400 * days_before_year y"
proof -
  define k a b c where "k = y - 1" and "a = k div 4" and "b = k div 100" and "c = k div 400"
  have "4 * a \<le> k" "k < 4 * a + 4" "100 * b \<le> k" "k < 100 * b + 100" "400 * c \<le> k"
      "k < 400 * c + 400"
    unfolding a_def b_def c_def by (rule div_bracket; simp)+
  moreover have "days_before_year y = 365 * k + a - b + c"
    by (simp add: days_before_year_def k_def a_def b_def c_def)
  ultimately show "400 * days_before_year y \<le> 146097 * (y - 1) + 396"
    "146097 * (y - 1) - 699 \<le> 400 * days_before_year y"
    unfolding k_def [symmetric] by simp_all
qed

lemma year_of_days_bracket:
  "days_before_year (year_of_days n) \<le> n \<and> n < days_before_year (year_of_days n + 1)"
proof -
  define y where "y = (400 * n) div 146097 + 1"
  have y: "146097 * (y - 1) \<le> 400 * n" "400 * n < 146097 * y"
    using div_bracket [of 146097 "400 * n"] unfolding y_def by simp_all
  have lo: "days_before_year (y - 1) \<le> n"
    using days_before_year_bounds(1) [of "y - 1"] y by simp
  have hi: "n < days_before_year (y + 2)"
    using days_before_year_bounds(2) [of "y + 2"] y by simp
  have "y + 1 + 1 = y + 2" by simp
  then show ?thesis
    using lo hi unfolding year_of_days_def y_def [symmetric] Let_def by (auto simp: add.commute)
qed

lemma year_of_days_unique:
  assumes "days_before_year y \<le> n" and "n < days_before_year (y + 1)"
  shows "year_of_days n = y"
proof (rule ccontr)
  let ?z = "year_of_days n"
  assume "?z \<noteq> y"
  then consider "?z + 1 \<le> y" | "y + 1 \<le> ?z" by linarith
  then show False
  proof cases
    case 1
    from days_before_year_mono [OF 1] year_of_days_bracket [of n] assms show False by linarith
  next
    case 2
    from days_before_year_mono [OF 2] year_of_days_bracket [of n] assms show False by linarith
  qed
qed

section \<open>Months and days\<close>

lemma days_in_month_bounds: "28 \<le> days_in_month y m" "days_in_month y m \<le> 31"
  by (simp_all add: days_in_month_def)

lemma month_cases:
  assumes "1 \<le> m" and "m \<le> (12::int)"
  obtains "m = 1" | "m = 2" | "m = 3" | "m = 4" | "m = 5" | "m = 6" | "m = 7" | "m = 8"
    | "m = 9" | "m = 10" | "m = 11" | "m = 12"
proof -
  have "m \<in> {1..12}" using assms by simp
  also have "{1..12::int} = {1,2,3,4,5,6,7,8,9,10,11,12}" by (auto simp: simp_from_to)
  finally show ?thesis using that by blast
qed

lemma days_before_month_Suc:
  assumes "1 \<le> m" and "m \<le> 11"
  shows "days_before_month y (m + 1) = days_before_month y m + days_in_month y m"
  using assms by - (rule month_cases [of m]; simp add: days_before_month_def days_in_month_def)

lemma days_before_month_last:
  "days_before_month y 12 + days_in_month y 12 = (if is_leap y then 366 else 365)"
  by (simp add: days_before_month_def days_in_month_def)

text \<open>A valid date lies inside its year, and its month is the last one that starts by then.\<close>

definition valid_date :: "int \<Rightarrow> int \<Rightarrow> int \<Rightarrow> bool" where
  "valid_date y m d \<longleftrightarrow> 1 \<le> m \<and> m \<le> 12 \<and> 1 \<le> d \<and> d \<le> days_in_month y m"

lemma date_days_norm:
  "1 \<le> m \<Longrightarrow> m \<le> 12 \<Longrightarrow>
     date_days y m d = days_before_year y + days_before_month y m + (d - 1)"
  by (simp add: date_days_def Let_def)

lemma yearday_bounds:
  assumes "valid_date y m d"
  shows "0 \<le> days_before_month y m + (d - 1)"
    and "days_before_month y m + (d - 1) < (if is_leap y then 366 else 365)"
  using assms unfolding valid_date_def
  by - (elim conjE, rule month_cases [of m];
    simp add: days_before_month_def days_in_month_def split: if_splits)+

lemma year_of_date: "valid_date y m d \<Longrightarrow> year_of_days (date_days y m d) = y"
  using yearday_bounds [of y m d]
  by (intro year_of_days_unique)
    (auto simp: date_days_norm valid_date_def days_before_year_Suc)

lemma month_count:
  assumes "valid_date y m d"
  shows "int (length (filter (\<lambda>k. days_before_month y k \<le> days_before_month y m + (d - 1))
     [1,2,3,4,5,6,7,8,9,10,11,12])) = m"
  using assms unfolding valid_date_def
  by - (elim conjE, rule month_cases [of m];
    simp add: days_before_month_def days_in_month_def split: if_splits)

theorem civil_of_date:
  assumes "valid_date y m d"
  shows "year_of_days (date_days y m d) = y"
    and "month_of_days (date_days y m d) = m"
    and "day_of_days (date_days y m d) = d"
proof -
  show y: "year_of_days (date_days y m d) = y" by (rule year_of_date [OF assms])
  have yd: "date_days y m d - days_before_year y = days_before_month y m + (d - 1)"
    using assms by (simp add: date_days_norm valid_date_def)
  show m: "month_of_days (date_days y m d) = m"
    unfolding month_of_days_def Let_def y yd by (rule month_count [OF assms])
  show "day_of_days (date_days y m d) = d"
    unfolding day_of_days_def y m using yd by simp
qed

text \<open>Every day number is a valid date.\<close>

lemma find_month:
  assumes "0 \<le> yd" and "yd < (if is_leap y then 366 else 365)"
  shows "\<exists>m d. valid_date y m d \<and> days_before_month y m + (d - 1) = yd"
proof -
  have ex: "\<exists>m. 1 \<le> m \<and> m \<le> 12 \<and> days_before_month y m \<le> yd \<and>
      yd < days_before_month y m + days_in_month y m"
  proof (rule ccontr)
    assume no: "\<not> ?thesis"
    have up: "days_before_month y m \<le> yd" if "1 \<le> m" "m \<le> 12" for m
      using that
    proof (induction m rule: int_ge_induct)
      case base
      then show ?case using assms by (simp add: days_before_month_def)
    next
      case (step m)
      then show ?case using no days_before_month_Suc [of m y] by (smt (verit))
    qed
    from no up [of 12] days_before_month_last [of y] assms show False
      by (smt (verit))
  qed
  then obtain m where m: "1 \<le> m" "m \<le> 12" "days_before_month y m \<le> yd"
      "yd < days_before_month y m + days_in_month y m" by blast
  then have "valid_date y m (yd - days_before_month y m + 1)"
    by (simp add: valid_date_def)
  then show ?thesis by (intro exI [of _ m] exI [of _ "yd - days_before_month y m + 1"]) simp
qed

lemma valid_date_exists: "\<exists>y m d. valid_date y m d \<and> date_days y m d = n"
proof -
  let ?y = "year_of_days n"
  have "0 \<le> n - days_before_year ?y" "n - days_before_year ?y < (if is_leap ?y then 366 else 365)"
    using year_of_days_bracket [of n] by (auto simp: days_before_year_Suc)
  then obtain m d where "valid_date ?y m d" "days_before_month ?y m + (d - 1) = n - days_before_year ?y"
    using find_month by blast
  then show ?thesis by (intro exI [of _ ?y] exI [of _ m] exI [of _ d])
    (simp add: date_days_norm valid_date_def)
qed

theorem date_of_civil:
  shows "valid_date (year_of_days n) (month_of_days n) (day_of_days n)"
    and "date_days (year_of_days n) (month_of_days n) (day_of_days n) = n"
proof -
  obtain y m d where "valid_date y m d" "date_days y m d = n" using valid_date_exists by blast
  then show "valid_date (year_of_days n) (month_of_days n) (day_of_days n)"
    "date_days (year_of_days n) (month_of_days n) (day_of_days n) = n"
    using civil_of_date [of y m d] by auto
qed

section \<open>Instants\<close>

lemma day_ns_pos [simp]: "0 < day_ns" by (simp add: day_ns_def)

lemma days_of_Date [simp]: "days_of (time_Date y m d) = date_days y m d"
  by (simp add: days_of_def time_Date_def day_ns_def)

lemma days_of_Date_add:
  "0 \<le> c \<Longrightarrow> c < day_ns \<Longrightarrow> days_of (time_Date y m d + c) = date_days y m d"
  by (simp add: days_of_def time_Date_def day_ns_def)

lemma time_Date_le_iff: "time_Date y m d \<le> t \<longleftrightarrow> date_days y m d \<le> days_of t"
proof -
  have "(date_days y m d - 719162) * day_ns \<le> t \<longleftrightarrow> date_days y m d - 719162 \<le> t div day_ns"
    using zdiv_mono1 [of "(date_days y m d - 719162) * day_ns" t day_ns]
      mult_right_mono [of "date_days y m d - 719162" "t div day_ns" day_ns]
      div_mult_mod_eq [of t day_ns] pos_mod_sign [of day_ns t]
    by (smt (verit) day_ns_pos nonzero_mult_div_cancel_right)
  then show ?thesis by (auto simp: time_Date_def days_of_def)
qed

lemma valid_time:
  "valid_date (time_Year t) (time_Month t) (time_Day t)"
  "date_days (time_Year t) (time_Month t) (time_Day t) = days_of t"
  by (simp_all add: time_Year_def time_Month_def time_Day_def date_of_civil)

lemma time_of_Date:
  assumes "valid_date y m d"
  shows "time_Year (time_Date y m d) = y" "time_Month (time_Date y m d) = m"
    "time_Day (time_Date y m d) = d"
  using civil_of_date [OF assms] by (simp_all add: time_Year_def time_Month_def time_Day_def)

lemma civil_AddDate:
  assumes "valid_date y m d" and "date_days (time_Year t + ys) (time_Month t + ms) (time_Day t + ds) =
    date_days y m d"
  shows "time_Year (time_AddDate t ys ms ds) = y" "time_Month (time_AddDate t ys ms ds) = m"
proof -
  have "days_of (time_AddDate t ys ms ds) = date_days y m d"
    using assms(2) days_of_Date_add [of "t mod day_ns"] by (simp add: time_AddDate_def)
  then show "time_Year (time_AddDate t ys ms ds) = y" "time_Month (time_AddDate t ys ms ds) = m"
    using civil_of_date [OF assms(1)] by (simp_all add: time_Year_def time_Month_def)
qed

end
