(* ===== verification/Base64.thy ===== *)
theory Base64
  imports Prelude
begin

text \<open>
  The unpadded URL-safe base64 of Go's \<open>encoding/base64\<close> (\<open>RawURLEncoding\<close>), which the
  controller uses to send digests in snapshots and the Agent uses to read them.  Bytes are
  \<open>char\<close>s.  Decoding skips line breaks and rejects characters outside the alphabet and a
  single left-over character; encoding and then decoding gives the bytes back.
\<close>

section \<open>Alphabet\<close>

definition b64_alphabet :: string where
  "b64_alphabet = ''ABCDEFGHIJKLMNOPQRSTUVWXYZabcdefghijklmnopqrstuvwxyz0123456789-_''"

definition b64_char :: "nat \<Rightarrow> char" where
  "b64_char i = b64_alphabet ! i"

definition b64_index :: "char \<Rightarrow> nat option" where
  "b64_index c =
     (let i = length (takeWhile (\<lambda>x. x \<noteq> c) b64_alphabet) in if i < 64 then Some i else None)"

lemma b64_all: "list_all (\<lambda>i. b64_index (b64_char i) = Some i) [0..<64]"
  by code_simp

lemma b64_index_char [simp]: "i < 64 \<Longrightarrow> b64_index (b64_char i) = Some i"
  using b64_all by (simp add: list_all_iff)

lemma b64_all_plain:
  "list_all (\<lambda>i. b64_char i \<noteq> CHR 0x0A \<and> b64_char i \<noteq> CHR 0x0D) [0..<64]"
  by code_simp

lemma b64_char_plain [simp]:
  "i < 64 \<Longrightarrow> b64_char i \<noteq> CHR 0x0A" "i < 64 \<Longrightarrow> b64_char i \<noteq> CHR 0x0D"
  using b64_all_plain by (simp_all add: list_all_iff)

section \<open>Encoding and decoding\<close>

definition byte :: "char \<Rightarrow> nat" where "byte c = of_char c"
definition byte_char :: "nat \<Rightarrow> char" where "byte_char n = char_of n"

fun b64_encode :: "string \<Rightarrow> string" where
  "b64_encode [] = []"
| "b64_encode [a] = [b64_char (byte a div 4), b64_char (byte a mod 4 * 16)]"
| "b64_encode [a, b] =
     [b64_char (byte a div 4), b64_char (byte a mod 4 * 16 + byte b div 16),
      b64_char (byte b mod 16 * 4)]"
| "b64_encode (a # b # c # rest) =
     b64_char (byte a div 4) # b64_char (byte a mod 4 * 16 + byte b div 16)
     # b64_char (byte b mod 16 * 4 + byte c div 64) # b64_char (byte c mod 64)
     # b64_encode rest"

fun b64_decode_groups :: "nat list \<Rightarrow> string option" where
  "b64_decode_groups [] = Some []"
| "b64_decode_groups [w] = None"
| "b64_decode_groups [w, x] = Some [byte_char (w * 4 + x div 16)]"
| "b64_decode_groups [w, x, y] =
     Some [byte_char (w * 4 + x div 16), byte_char (x mod 16 * 16 + y div 4)]"
| "b64_decode_groups (w # x # y # z # rest) =
     map_option (\<lambda>bs. byte_char (w * 4 + x div 16) # byte_char (x mod 16 * 16 + y div 4)
       # byte_char (y mod 4 * 64 + z) # bs) (b64_decode_groups rest)"

fun b64_indices :: "string \<Rightarrow> nat list option" where
  "b64_indices [] = Some []"
| "b64_indices (c # cs) =
     (if c = CHR 0x0A \<or> c = CHR 0x0D then b64_indices cs
      else case b64_index c of None \<Rightarrow> None
        | Some i \<Rightarrow> map_option (\<lambda>is. i # is) (b64_indices cs))"

definition b64_decode :: "string \<Rightarrow> string option" where
  "b64_decode s = Option.bind (b64_indices s) b64_decode_groups"

section \<open>Round trip\<close>

lemma byte_bound [simp]: "byte c < 256"
  by (simp add: byte_def of_char_def)

lemma byte_char_byte [simp]: "byte_char (byte c) = c"
  by (simp add: byte_def byte_char_def)

lemma sextet_bounds [simp]:
  "byte a div 4 < 64" "byte a mod 4 * 16 < 64" "byte a mod 4 * 16 + byte b div 16 < 64"
  "byte b mod 16 * 4 < 64" "byte b mod 16 * 4 + byte c div 64 < 64" "byte c mod 64 < 64"
  using byte_bound [of a] byte_bound [of b] byte_bound [of c] by linarith+

lemma nibble_bounds [simp]:
  "byte b div 16 div 16 = 0" "byte b div 16 mod 16 = byte b div 16"
  "byte c div 64 div 4 = 0" "byte c div 64 mod 4 = byte c div 64"
proof -
  have "byte b div 16 < 16" "byte c div 64 < 4"
    using byte_bound [of b] byte_bound [of c] by linarith+
  then show "byte b div 16 div 16 = 0" "byte b div 16 mod 16 = byte b div 16"
    "byte c div 64 div 4 = 0" "byte c div 64 mod 4 = byte c div 64"
    by simp_all
qed

lemma b64_indices_char [simp]:
  "i < 64 \<Longrightarrow> b64_indices (b64_char i # cs) = map_option (\<lambda>is. i # is) (b64_indices cs)"
  by simp

theorem b64_roundtrip: "b64_decode (b64_encode bs) = Some bs"
proof (induction bs rule: b64_encode.induct)
  case (4 a b c rest)
  then show ?case
    by (auto simp: b64_decode_def bind_eq_Some_conv simp del: b64_indices.simps)
qed (simp_all add: b64_decode_def del: b64_indices.simps(2))

lemma b64_encode_inj: "b64_encode bs = b64_encode bs' \<longleftrightarrow> bs = bs'"
  by (metis b64_roundtrip option.inject)

end
