(* ===== verification/Go_Strings.thy ===== *)
theory Go_Strings
  imports Prelude "HOL-Library.Sublist"
begin

text \<open>
  The functions of Go's standard library on strings that the components use: trimming,
  splitting, lexical cleaning of slash-separated paths (path.Clean) and textual IP addresses
  (net.ParseIP, net.IP.String).  A string is the list of its bytes.
\<close>

section \<open>strings\<close>

definition HasPrefix :: "string \<Rightarrow> string \<Rightarrow> bool" where
  "HasPrefix s p = (take (length p) s = p)"

text \<open>The encodings of the code points with the Unicode property White_Space.\<close>

definition byte_of :: "nat \<Rightarrow> char" where "byte_of n = char_of n"

definition space_encodings :: "string list" where
  "space_encodings = map (map byte_of)
     ([[9], [10], [11], [12], [13], [32], [0xC2, 0x85], [0xC2, 0xA0], [0xE1, 0x9A, 0x80]] @
      map (\<lambda>b. [0xE2, 0x80, b]) ([0x80..<0x8B] @ [0xA8, 0xA9, 0xAF]) @ [[0xE2, 0x81, 0x9F], [0xE3, 0x80, 0x80]])"

text \<open>The same list with its characters computed, for evaluation.\<close>

lemma space_encodings_code [code]:
  "space_encodings =
    [[CHR 0x09], [CHR 0x0A], [CHR 0x0B], [CHR 0x0C], [CHR 0x0D],
     [CHR 0x20], [CHR 0xC2, CHR 0x85], [CHR 0xC2, CHR 0xA0], [CHR 0xE1, CHR 0x9A, CHR 0x80], [CHR 0xE2, CHR 0x80, CHR 0x80],
     [CHR 0xE2, CHR 0x80, CHR 0x81], [CHR 0xE2, CHR 0x80, CHR 0x82], [CHR 0xE2, CHR 0x80, CHR 0x83], [CHR 0xE2, CHR 0x80, CHR 0x84], [CHR 0xE2, CHR 0x80, CHR 0x85],
     [CHR 0xE2, CHR 0x80, CHR 0x86], [CHR 0xE2, CHR 0x80, CHR 0x87], [CHR 0xE2, CHR 0x80, CHR 0x88], [CHR 0xE2, CHR 0x80, CHR 0x89], [CHR 0xE2, CHR 0x80, CHR 0x8A],
     [CHR 0xE2, CHR 0x80, CHR 0xA8], [CHR 0xE2, CHR 0x80, CHR 0xA9], [CHR 0xE2, CHR 0x80, CHR 0xAF], [CHR 0xE2, CHR 0x81, CHR 0x9F], [CHR 0xE3, CHR 0x80, CHR 0x80]]"
  by code_simp

function TrimLeft :: "string \<Rightarrow> string" where
  "TrimLeft s = (case List.find (\<lambda>w. w \<noteq> [] \<and> HasPrefix s w) space_encodings of
     None \<Rightarrow> s | Some w \<Rightarrow> if length w < length s then TrimLeft (drop (length w) s) else [])"
  by pat_completeness auto
termination
  by (relation "measure length") (auto simp: find_Some_iff intro!: diff_less)

definition TrimRight_step :: "string \<Rightarrow> string option" where
  "TrimRight_step s = (case List.find (\<lambda>w. w \<noteq> [] \<and> HasPrefix (rev s) (rev w)) space_encodings of
     None \<Rightarrow> None | Some w \<Rightarrow> Some (take (length s - length w) s))"

function TrimRight :: "string \<Rightarrow> string" where
  "TrimRight s = (case TrimRight_step s of None \<Rightarrow> s
     | Some s' \<Rightarrow> if length s' < length s then TrimRight s' else s)"
  by pat_completeness auto
termination
  by (relation "measure length") auto

definition TrimSpace :: "string \<Rightarrow> string" where
  "TrimSpace s = TrimRight (TrimLeft s)"

declare TrimLeft.simps [simp del] TrimRight.simps [simp del]

fun split_on :: "char \<Rightarrow> string \<Rightarrow> string list" where
  "split_on c [] = [[]]"
| "split_on c (x # xs) =
     (if x = c then [] # split_on c xs
      else case split_on c xs of [] \<Rightarrow> [[x]] | w # ws \<Rightarrow> (x # w) # ws)"

fun join_with :: "char \<Rightarrow> string list \<Rightarrow> string" where
  "join_with c [] = []"
| "join_with c [w] = w"
| "join_with c (w # ws) = w @ [c] @ join_with c ws"

lemma split_on_nonempty [simp]: "split_on c s \<noteq> []"
  by (induction s) (auto split: list.splits)

lemma join_split: "join_with c (split_on c s) = s"
proof (induction s)
  case (Cons x s)
  obtain w ws where "split_on c s = w # ws" using split_on_nonempty [of c s] by (cases "split_on c s") auto
  with Cons show ?case by (cases ws) auto
qed simp

lemma split_on_no_sep: "w \<in> set (split_on c s) \<Longrightarrow> c \<notin> set w"
  by (induction s arbitrary: w) (auto split: if_splits list.splits)

lemma split_no_sep: "c \<notin> set w \<Longrightarrow> split_on c w = [w]"
  by (induction w) auto

lemma split_append_sep: "c \<notin> set w \<Longrightarrow> split_on c (w @ c # s) = w # split_on c s"
  by (induction w) auto

lemma split_join: "ws \<noteq> [] \<Longrightarrow> \<forall>w\<in>set ws. c \<notin> set w \<Longrightarrow> split_on c (join_with c ws) = ws"
  by (induction ws rule: join_with.induct) (auto simp: split_no_sep split_append_sep)

section \<open>path.Clean\<close>

text \<open>One path element against the elements kept so far (a stack, innermost first).\<close>

fun clean_step :: "bool \<Rightarrow> string \<Rightarrow> string list \<Rightarrow> string list" where
  "clean_step rooted w st =
     (if w = '''' \<or> w = ''.'' then st
      else if w = ''..'' then
        (case st of
           [] \<Rightarrow> (if rooted then [] else [w])
         | v # vs \<Rightarrow> if v = ''..'' then w # st else vs)
      else w # st)"

definition clean_elements :: "bool \<Rightarrow> string list \<Rightarrow> string list" where
  "clean_elements rooted ws = rev (fold (clean_step rooted) ws [])"

definition path_Clean :: "string \<Rightarrow> string" where
  "path_Clean p =
     (let rooted = HasPrefix p ''/'';
          body = join_with (CHR ''/'') (clean_elements rooted (split_on (CHR ''/'') p))
      in if p = '''' then ''.'' else if rooted then CHR ''/'' # body else if body = '''' then ''.'' else body)"

lemma clean_step_rooted:
  "''..'' \<notin> set st \<Longrightarrow> '''' \<notin> set st \<Longrightarrow> ''.'' \<notin> set st \<Longrightarrow>
     ''..'' \<notin> set (clean_step True w st) \<and> '''' \<notin> set (clean_step True w st) \<and> ''.'' \<notin> set (clean_step True w st)"
  by (cases st) auto

lemma clean_elements_rooted:
  "''..'' \<notin> set (clean_elements True ws) \<and> '''' \<notin> set (clean_elements True ws) \<and> ''.'' \<notin> set (clean_elements True ws)"
proof -
  have "''..'' \<notin> set st \<Longrightarrow> '''' \<notin> set st \<Longrightarrow> ''.'' \<notin> set st \<Longrightarrow>
      ''..'' \<notin> set (fold (clean_step True) ws st) \<and> '''' \<notin> set (fold (clean_step True) ws st) \<and>
      ''.'' \<notin> set (fold (clean_step True) ws st)" for st
  proof (induction ws arbitrary: st)
    case (Cons w ws)
    note c = clean_step_rooted [OF Cons.prems, of w]
    from Cons.IH [of "clean_step True w st"] c show ?case by (simp del: clean_step.simps)
  qed simp
  then show ?thesis by (simp add: clean_elements_def)
qed

lemma clean_elements_no_sep:
  "\<forall>w\<in>set ws. c \<notin> set w \<Longrightarrow> c \<notin> set ''..'' \<Longrightarrow> \<forall>w\<in>set (clean_elements rooted ws). c \<notin> set w"
proof -
  assume a: "\<forall>w\<in>set ws. c \<notin> set w" "c \<notin> set ''..''"
  have "\<forall>w\<in>set st. c \<notin> set w \<Longrightarrow> \<forall>w\<in>set (fold (clean_step rooted) ws st). c \<notin> set w" for st
    using a(1)
  proof (induction ws arbitrary: st)
    case (Cons w ws)
    have "\<forall>x\<in>set (clean_step rooted w st). c \<notin> set x"
      using Cons.prems a(2) by (cases st) auto
    with Cons show ?case by simp
  qed simp
  from this [of "[]"] show ?thesis by (simp add: clean_elements_def)
qed

text \<open>A rooted path that path.Clean leaves alone has no empty, dot or dot-dot element.\<close>

lemma path_Clean_fixed:
  assumes "path_Clean p = p" and "HasPrefix p ''/''" and "w \<in> set (tl (split_on (CHR ''/'') p))"
    and "p \<noteq> ''/''"
  shows "w \<noteq> ''..'' \<and> w \<noteq> ''.'' \<and> w \<noteq> ''''"
proof -
  let ?es = "clean_elements True (split_on (CHR ''/'') p)"
  have p: "p = CHR ''/'' # join_with (CHR ''/'') ?es"
  proof -
    have "p \<noteq> []" using assms(2) by (auto simp: HasPrefix_def)
    then show ?thesis using assms(1) by (simp add: path_Clean_def Let_def assms(2))
  qed
  have ne: "?es \<noteq> []" using p assms(4) by auto
  have ns: "\<forall>w\<in>set ?es. CHR ''/'' \<notin> set w"
    by (rule clean_elements_no_sep) (auto dest: split_on_no_sep)
  have "split_on (CHR ''/'') p = [] # split_on (CHR ''/'') (join_with (CHR ''/'') ?es)"
    by (subst p) simp
  also have "\<dots> = [] # ?es" using split_join [OF ne ns] by simp
  finally have "tl (split_on (CHR ''/'') p) = ?es" by (metis list.sel(3))
  with assms(3) clean_elements_rooted [of "split_on (CHR ''/'') p"] show ?thesis by auto
qed


section \<open>net.ParseIP and net.IP.String\<close>

definition is_digit :: "char \<Rightarrow> bool" where
  "is_digit c \<longleftrightarrow> of_char (CHR ''0'') \<le> (of_char c :: nat) \<and> (of_char c :: nat) \<le> of_char (CHR ''9'')"

definition hex_value :: "char \<Rightarrow> nat option" where
  "hex_value c =
     (if is_digit c then Some (of_char c - of_char (CHR ''0''))
      else if of_char (CHR ''a'') \<le> (of_char c :: nat) \<and> (of_char c :: nat) \<le> of_char (CHR ''f'')
      then Some (of_char c - of_char (CHR ''a'') + 10)
      else if of_char (CHR ''A'') \<le> (of_char c :: nat) \<and> (of_char c :: nat) \<le> of_char (CHR ''F'')
      then Some (of_char c - of_char (CHR ''A'') + 10) else None)"

text \<open>A decimal octet: one to three digits, no leading zero, at most 255.\<close>

definition parse_octet :: "string \<Rightarrow> nat option" where
  "parse_octet w =
     (if w = '''' \<or> \<not> list_all is_digit w \<or> (length w > 1 \<and> hd w = CHR ''0'') then None
      else let v = foldl (\<lambda>acc c. acc * 10 + (of_char c - of_char (CHR ''0''))) 0 w
           in if v > 255 then None else Some v)"

fun parse_octets :: "string list \<Rightarrow> nat list option" where
  "parse_octets [] = Some []"
| "parse_octets (w # ws) = (case (parse_octet w, parse_octets ws) of
     (Some v, Some vs) \<Rightarrow> Some (v # vs) | _ \<Rightarrow> None)"

definition parseIPv4 :: "string \<Rightarrow> nat list option" where
  "parseIPv4 s = (let ws = split_on (CHR ''.'') s in if length ws \<noteq> 4 then None else parse_octets ws)"

text \<open>The leading hexadecimal digits of a group.\<close>

definition hex_prefix :: "string \<Rightarrow> string" where
  "hex_prefix s = takeWhile (\<lambda>c. hex_value c \<noteq> None) s"

definition hex_number :: "string \<Rightarrow> nat" where
  "hex_number w = foldl (\<lambda>acc c. acc * 16 + the (hex_value c)) 0 w"

text \<open>The loop of parseIPv6: the bytes so far, the position of the ellipsis, the rest.\<close>

fun parseIPv6_loop :: "nat \<Rightarrow> nat list \<Rightarrow> nat option \<Rightarrow> string \<Rightarrow> (nat list \<times> nat option) option" where
  "parseIPv6_loop 0 ip ellipsis s = (if s = '''' then Some (ip, ellipsis) else None)"
| "parseIPv6_loop (Suc k) ip ellipsis s =
     (let w = hex_prefix s; rest = drop (length w) s in
      if length w = 0 \<or> length w > 4 then None
      else if HasPrefix rest ''.'' then
        (if (ellipsis = None \<and> length ip \<noteq> 12) \<or> length ip + 4 > 16 then None
         else case parseIPv4 s of None \<Rightarrow> None | Some v4 \<Rightarrow> Some (ip @ v4, ellipsis))
      else
        let ip = ip @ [hex_number w div 256, hex_number w mod 256] in
        if rest = '''' then Some (ip, ellipsis)
        else if hd rest \<noteq> CHR '':'' \<or> length rest = 1 then None
        else
          let s = tl rest in
          if hd s = CHR '':'' then
            (if ellipsis \<noteq> None then None
             else if tl s = '''' then Some (ip, Some (length ip))
             else parseIPv6_loop k ip (Some (length ip)) (tl s))
          else parseIPv6_loop k ip ellipsis s)"

definition expand_ellipsis :: "nat list \<times> nat option \<Rightarrow> nat list option" where
  "expand_ellipsis = (\<lambda>(ip, ellipsis).
     if length ip < 16 then
       (case ellipsis of None \<Rightarrow> None
        | Some i \<Rightarrow> Some (take i ip @ replicate (16 - length ip) 0 @ drop i ip))
     else if ellipsis \<noteq> None then None else Some ip)"

definition parseIPv6 :: "string \<Rightarrow> nat list option" where
  "parseIPv6 s =
     (if CHR ''%'' \<in> set s then None
      else if HasPrefix s ''::'' then
        (if length s = 2 then Some (replicate 16 0)
         else case parseIPv6_loop 8 [] (Some 0) (drop 2 s) of None \<Rightarrow> None | Some r \<Rightarrow> expand_ellipsis r)
      else case parseIPv6_loop 8 [] None s of None \<Rightarrow> None | Some r \<Rightarrow> expand_ellipsis r)"

definition v4_prefix :: "nat list" where "v4_prefix = replicate 10 0 @ [255, 255]"

definition ParseIP :: "string \<Rightarrow> nat list option" where
  "ParseIP s =
     (case List.find (\<lambda>c. c = CHR ''.'' \<or> c = CHR '':'' \<or> c = CHR ''%'') s of
        None \<Rightarrow> None
      | Some c \<Rightarrow>
          if c = CHR ''.'' then map_option (\<lambda>v4. v4_prefix @ v4) (parseIPv4 s)
          else if c = CHR '':'' then parseIPv6 s
          else None)"

definition digit_char :: "nat \<Rightarrow> char" where
  "digit_char v = ''0123456789abcdef'' ! v"

fun digits_of :: "nat \<Rightarrow> nat \<Rightarrow> nat \<Rightarrow> string" where
  "digits_of base 0 v = ''''"
| "digits_of base (Suc k) v =
     (if v < base then [digit_char v] else digits_of base k (v div base) @ [digit_char (v mod base)])"

text \<open>\<open>%d\<close> of a 64-bit integer, which has at most 19 digits.\<close>

definition itoa :: "int \<Rightarrow> string" where
  "itoa v = (if v < 0 then ''-'' else '''') @ digits_of 10 19 (nat (abs v))"

definition ip_groups :: "nat list \<Rightarrow> nat list" where
  "ip_groups ip = map (\<lambda>i. ip ! (2 * i) * 256 + ip ! (2 * i + 1)) [0..<8]"

definition zero_run :: "nat list \<Rightarrow> nat \<Rightarrow> nat" where
  "zero_run gs i = length (takeWhile (\<lambda>g. g = 0) (drop i gs))"

text \<open>The first longest run of at least two zero groups.\<close>

definition longest_run :: "nat list \<Rightarrow> (nat \<times> nat) option" where
  "longest_run gs = fold (\<lambda>i best. let l = zero_run gs i in
     case best of None \<Rightarrow> (if l \<ge> 2 then Some (i, l) else None)
     | Some (j, m) \<Rightarrow> if l > m then Some (i, l) else best) [0..<8] None"

definition IP_String :: "nat list \<Rightarrow> string" where
  "IP_String ip =
     (if take 12 ip = v4_prefix then join_with (CHR ''.'') (map (digits_of 10 3) (drop 12 ip))
      else
        let gs = ip_groups ip; hex = (\<lambda>xs. join_with (CHR '':'') (map (digits_of 16 4) xs)) in
        case longest_run gs of
          None \<Rightarrow> hex gs
        | Some (i, l) \<Rightarrow> hex (take i gs) @ ''::'' @ hex (drop (i + l) gs))"

lemma digit_chars:
  assumes "v < 10"
  shows "is_digit (digit_char v) \<and> of_char (digit_char v) = v + 48 \<and> digit_char v \<noteq> CHR ''.'' \<and>
    digit_char v \<noteq> CHR '':'' \<and> digit_char v \<noteq> CHR ''%'' \<and> CHR ''.'' \<noteq> digit_char v \<and>
    CHR '':'' \<noteq> digit_char v \<and> CHR ''%'' \<noteq> digit_char v \<and> (digit_char v = CHR ''0'' \<longleftrightarrow> v = 0)"
proof -
  have "v \<in> {0, 1, 2, 3, 4, 5, 6, 7, 8, 9}" using assms by auto
  then show ?thesis by (elim insertE emptyE) (simp_all add: digit_char_def is_digit_def)
qed

lemma digits_of_octet:
  assumes "v < 1000"
  shows "digits_of 10 3 v = (if v < 10 then [digit_char v]
    else if v < 100 then [digit_char (v div 10), digit_char (v mod 10)]
    else [digit_char (v div 100), digit_char (v div 10 mod 10), digit_char (v mod 10)])"
  using assms by (auto simp: numeral_3_eq_3 div_mult2_eq [symmetric])

lemma digit_octets:
  assumes "v < 256"
  shows "parse_octet (digits_of 10 3 v) = Some v \<and> CHR ''.'' \<notin> set (digits_of 10 3 v) \<and>
    CHR '':'' \<notin> set (digits_of 10 3 v) \<and> CHR ''%'' \<notin> set (digits_of 10 3 v) \<and> digits_of 10 3 v \<noteq> ''''"
proof -
  consider "v < 10" | "10 \<le> v" "v < 100" | "100 \<le> v" by linarith
  then show ?thesis
  proof cases
    case 1
    with digit_chars [of v] show ?thesis by (simp add: digits_of_octet parse_octet_def)
  next
    case 2
    have d: "v div 10 < 10" "v mod 10 < 10" "v div 10 \<noteq> 0" "v div 10 * 10 + v mod 10 = v" using 2 by auto
    have e: "digits_of 10 3 v = [digit_char (v div 10), digit_char (v mod 10)]" using 2 by (simp add: digits_of_octet)
    show ?thesis unfolding e using assms digit_chars [OF d(1)] digit_chars [OF d(2)] d(3,4)
      by (simp add: parse_octet_def)
  next
    case 3
    have d: "v div 100 < 10" "v div 10 mod 10 < 10" "v mod 10 < 10" "v div 100 \<noteq> 0"
      "(v div 100 * 10 + v div 10 mod 10) * 10 + v mod 10 = v"
    proof -
      have "v div 100 = v div 10 div 10" by (simp add: div_mult2_eq [symmetric])
      then show "(v div 100 * 10 + v div 10 mod 10) * 10 + v mod 10 = v" by simp
      show "v div 100 < 10" using assms by (simp add: less_mult_imp_div_less)
      show "v div 100 \<noteq> 0" using 3 by simp
    qed simp_all
    have e: "digits_of 10 3 v = [digit_char (v div 100), digit_char (v div 10 mod 10), digit_char (v mod 10)]"
      using 3 assms by (simp add: digits_of_octet)
    show ?thesis unfolding e using assms digit_chars [OF d(1)] digit_chars [OF d(2)] digit_chars [OF d(3)] d(4,5)
      by (simp add: parse_octet_def)
  qed
qed

text \<open>The textual form of an IPv4 address parses back to the address.\<close>

lemma ParseIP_String_v4:
  assumes "a < 256" "b < 256" "c < 256" "d < 256"
  shows "ParseIP (IP_String (v4_prefix @ [a, b, c, d])) = Some (v4_prefix @ [a, b, c, d])"
proof -
  let ?w = "digits_of 10 3"
  have s: "IP_String (v4_prefix @ [a, b, c, d]) = join_with (CHR ''.'') [?w a, ?w b, ?w c, ?w d]"
    by (simp add: IP_String_def v4_prefix_def)
  note o = digit_octets [OF assms(1)] digit_octets [OF assms(2)] digit_octets [OF assms(3)] digit_octets [OF assms(4)]
  have "split_on (CHR ''.'') (join_with (CHR ''.'') [?w a, ?w b, ?w c, ?w d]) = [?w a, ?w b, ?w c, ?w d]"
    using o by (intro split_join) auto
  then have p: "parseIPv4 (join_with (CHR ''.'') [?w a, ?w b, ?w c, ?w d]) = Some [a, b, c, d]"
    using o by (simp add: parseIPv4_def Let_def del: join_with.simps)
  have find: "List.find P (xs @ x # ys) = Some x" if "\<forall>y\<in>set xs. \<not> P y" "P x"
    for P and xs :: string and x ys using that by (induction xs) auto
  have "List.find (\<lambda>c. c = CHR ''.'' \<or> c = CHR '':'' \<or> c = CHR ''%'')
      (?w a @ CHR ''.'' # join_with (CHR ''.'') [?w b, ?w c, ?w d]) = Some (CHR ''.'')"
    using o(1) by (intro find) auto
  with p show ?thesis unfolding s by (simp add: ParseIP_def)
qed

end
