(* ===== verification/Traffic_Cycle.thy ===== *)
theory Traffic_Cycle
  imports Calendar
begin

text \<open>
  The monthly traffic cycle of a node (internal/store/traffic_budget.go): the instant a
  cycle starts, given the configured reset day, and the instant the next one starts.  The
  cycle brackets the instant it is computed for when the reset day is at most 28; for later
  reset days the theory states exactly when the start lies in the future and when the next
  start skips a month.
\<close>

section \<open>Definitions\<close>

definition trafficCycleBoundary :: "int \<Rightarrow> int \<Rightarrow> int \<Rightarrow> gotime" where
  "trafficCycleBoundary year month resetDay =
     (let days = time_Day (time_Date year (month + 1) 0);
          day = (if resetDay > days then days else resetDay)
      in time_Date year month day)"

definition trafficCycleStart :: "gotime \<Rightarrow> int \<Rightarrow> gotime" where
  "trafficCycleStart at resetDay =
     (let resetDay = (if resetDay < 1 then 1 else if resetDay > 31 then 31 else resetDay);
          start = trafficCycleBoundary (time_Year at) (time_Month at) resetDay
      in if at < start
         then let previous = time_AddDate at 0 (-1) 0
              in trafficCycleBoundary (time_Year previous) (time_Month previous) resetDay
         else start)"

definition trafficCycleNextStart :: "gotime \<Rightarrow> int \<Rightarrow> gotime" where
  "trafficCycleNextStart start resetDay =
     (let next = time_AddDate start 0 1 0
      in trafficCycleBoundary (time_Year next) (time_Month next) resetDay)"

section \<open>Neighbouring months\<close>

definition month_succ :: "int \<Rightarrow> int \<Rightarrow> int \<times> int" where
  "month_succ y m = (if m = 12 then (y + 1, 1) else (y, m + 1))"

definition month_pred :: "int \<Rightarrow> int \<Rightarrow> int \<times> int" where
  "month_pred y m = (if m = 1 then (y - 1, 12) else (y, m - 1))"

lemma date_days_month_succ:
  assumes "1 \<le> m" "m \<le> 12" "month_succ y m = (y', m')"
  shows "date_days y (m + 1) d = date_days y' m' d" "1 \<le> m'" "m' \<le> 12"
  using assms by (auto simp: month_succ_def date_days_def Let_def split: if_splits)

lemma date_days_month_pred:
  assumes "1 \<le> m" "m \<le> 12" "month_pred y m = (y', m')"
  shows "date_days y (m - 1) d = date_days y' m' d" "1 \<le> m'" "m' \<le> 12"
  using assms by (auto simp: month_pred_def date_days_def Let_def split: if_splits)

lemma date_days_succ_first:
  assumes "1 \<le> m" "m \<le> 12" "month_succ y m = (y', m')"
  shows "date_days y' m' d = date_days y m (days_in_month y m + d)"
proof (cases "m = 12")
  case True
  with assms show ?thesis
    using days_before_month_last [of y]
    by (auto simp: month_succ_def date_days_norm days_before_year_Suc days_before_month_def
        days_in_month_def)
next
  case False
  with assms show ?thesis
    using days_before_month_Suc [of m y] by (auto simp: month_succ_def date_days_norm)
qed

lemma month_pred_succ: "1 \<le> m \<Longrightarrow> m \<le> 12 \<Longrightarrow> month_pred y m = (y', m') \<Longrightarrow> month_succ y' m' = (y, m)"
  by (auto simp: month_succ_def month_pred_def split: if_splits)

lemma last_day_of_month:
  assumes "1 \<le> m" "m \<le> 12"
  shows "time_Day (time_Date y (m + 1) 0) = days_in_month y m"
proof -
  obtain y' m' where s: "month_succ y m = (y', m')" by fastforce
  have "date_days y (m + 1) 0 = date_days y m (days_in_month y m)"
    using date_days_month_succ [OF assms s] date_days_succ_first [OF assms s] by simp
  moreover have "valid_date y m (days_in_month y m)"
    using assms days_in_month_bounds(1) [of y m] by (simp add: valid_date_def)
  ultimately show ?thesis using civil_of_date(3) by (simp add: time_Day_def)
qed

lemma trafficCycleBoundary_eq:
  assumes "1 \<le> m" "m \<le> 12"
  shows "trafficCycleBoundary y m r = time_Date y m (min r (days_in_month y m))"
  using last_day_of_month [OF assms] by (simp add: trafficCycleBoundary_def min_def)

lemma boundary_valid:
  "1 \<le> m \<Longrightarrow> m \<le> 12 \<Longrightarrow> 1 \<le> r \<Longrightarrow> valid_date y m (min r (days_in_month y m))"
  using days_in_month_bounds(1) [of y m] by (simp add: valid_date_def min_def)

lemma boundary_le_iff:
  assumes "1 \<le> m" "m \<le> 12" "m = time_Month t" "y = time_Year t"
  shows "trafficCycleBoundary y m r \<le> t \<longleftrightarrow> min r (days_in_month y m) \<le> time_Day t"
proof -
  have "days_of t = date_days y m (time_Day t)" using valid_time(2) [of t] assms by simp
  then show ?thesis
    using assms by (auto simp: trafficCycleBoundary_eq time_Date_le_iff date_days_norm)
qed

lemma before_boundary:
  "time_Day t < min r (days_in_month (time_Year t) (time_Month t)) \<Longrightarrow>
     t < trafficCycleBoundary (time_Year t) (time_Month t) r"
  using boundary_le_iff [of "time_Month t" t "time_Year t" r] valid_time(1) [of t]
  by (auto simp: valid_date_def not_le [symmetric])

section \<open>Where a cycle starts\<close>

lemma start_this_month:
  assumes "1 \<le> r" "r \<le> 31" "min r (days_in_month (time_Year t) (time_Month t)) \<le> time_Day t"
  shows "trafficCycleStart t r = trafficCycleBoundary (time_Year t) (time_Month t) r"
proof -
  have "trafficCycleBoundary (time_Year t) (time_Month t) r \<le> t"
    using assms boundary_le_iff [of "time_Month t" t] valid_time(1) [of t]
    by (simp add: valid_date_def)
  with assms show ?thesis by (simp add: trafficCycleStart_def Let_def)
qed

lemma month_before_AddDate:
  assumes "month_pred (time_Year t) (time_Month t) = (y', m')"
    and "time_Day t \<le> days_in_month y' m'"
  shows "time_Year (time_AddDate t 0 (-1) 0) = y'" "time_Month (time_AddDate t 0 (-1) 0) = m'"
proof -
  have v: "1 \<le> time_Month t" "time_Month t \<le> 12" "1 \<le> time_Day t"
    using valid_time(1) [of t] by (simp_all add: valid_date_def)
  note p = date_days_month_pred [OF v(1,2) assms(1)]
  have valid: "valid_date y' m' (time_Day t)" using p assms v by (simp add: valid_date_def)
  have "date_days (time_Year t + 0) (time_Month t + - 1) (time_Day t + 0) =
      date_days y' m' (time_Day t)"
    using p(1) [of "time_Day t"] by simp
  from civil_AddDate [OF valid this] show "time_Year (time_AddDate t 0 (-1) 0) = y'"
    "time_Month (time_AddDate t 0 (-1) 0) = m'" .
qed

lemma start_previous_month:
  assumes "1 \<le> r" "r \<le> 31" "time_Day t < min r (days_in_month (time_Year t) (time_Month t))"
    and "month_pred (time_Year t) (time_Month t) = (y', m')"
    and "time_Day t \<le> days_in_month y' m'"
  shows "trafficCycleStart t r = trafficCycleBoundary y' m' r"
proof -
  have "t < trafficCycleBoundary (time_Year t) (time_Month t) r"
    by (rule before_boundary [OF assms(3)])
  with assms(1,2) month_before_AddDate [OF assms(4,5)] show ?thesis
    by (simp add: trafficCycleStart_def Let_def)
qed

text \<open>On a day that the previous month does not have, going back a month stays in the month.\<close>

lemma start_overflow:
  assumes "1 \<le> r" "r \<le> 31" "time_Day t < min r (days_in_month (time_Year t) (time_Month t))"
    and "month_pred (time_Year t) (time_Month t) = (y', m')"
    and "days_in_month y' m' < time_Day t"
  shows "trafficCycleStart t r = trafficCycleBoundary (time_Year t) (time_Month t) r"
proof -
  let ?y = "time_Year t" and ?m = "time_Month t" and ?d = "time_Day t"
  have v: "1 \<le> ?m" "?m \<le> 12" using valid_time(1) [of t] by (simp_all add: valid_date_def)
  have succ: "month_succ y' m' = (?y, ?m)" using v assms(4) by (rule month_pred_succ)
  note p = date_days_month_pred [OF v assms(4)]
  define e where "e = ?d - days_in_month y' m'"
  have "valid_date ?y ?m e"
    using v assms(3,5) days_in_month_bounds(1) [of y' m'] by (simp add: valid_date_def e_def)
  moreover have "date_days (?y + 0) (?m + - 1) (?d + 0) = date_days ?y ?m e"
    using p(1) [of ?d] date_days_succ_first [OF p(2,3) succ, of e] by (simp add: e_def)
  ultimately have "time_Year (time_AddDate t 0 (-1) 0) = ?y" "time_Month (time_AddDate t 0 (-1) 0) = ?m"
    by (rule civil_AddDate)+
  moreover have "t < trafficCycleBoundary ?y ?m r"
    by (rule before_boundary [OF assms(3)])
  ultimately show ?thesis using assms(1,2) by (simp add: trafficCycleStart_def Let_def)
qed

lemma date_before_month:
  assumes "1 \<le> m" "m \<le> 12" "month_pred y m = (y', m')" "d \<le> days_in_month y' m'" "1 \<le> e"
  shows "date_days y' m' d < date_days y m e"
proof -
  note p = date_days_month_pred [OF assms(1-3)]
  show ?thesis
    using date_days_succ_first [OF p(2,3) month_pred_succ [OF assms(1-3)], of e] assms p
    by (simp add: date_days_norm)
qed

lemma month_pred_short:
  assumes "1 \<le> m" "m \<le> 12" "month_pred y m = (y', m')"
    and "days_in_month y' m' < d" "d < days_in_month y m"
  shows "m = 3" "days_in_month y' m' = days_in_month y 2"
  using assms by (auto simp: month_pred_def days_in_month_def split: if_splits)

section \<open>Where the next cycle starts\<close>

lemma next_start_month:
  assumes "1 \<le> m" "m \<le> 12" "1 \<le> r" "month_succ y m = (y', m')"
    and "min r (days_in_month y m) \<le> days_in_month y' m'"
  shows "trafficCycleNextStart (trafficCycleBoundary y m r) r = trafficCycleBoundary y' m' r"
proof -
  let ?s = "trafficCycleBoundary y m r" and ?d = "min r (days_in_month y m)"
  have s: "?s = time_Date y m ?d" by (simp add: trafficCycleBoundary_eq assms(1,2))
  note civil = time_of_Date [OF boundary_valid [OF assms(1-3), of y]]
  note p = date_days_month_succ [OF assms(1,2,4)]
  have "valid_date y' m' ?d"
    using assms p days_in_month_bounds(1) [of y m] by (simp add: valid_date_def min_def)
  moreover have "date_days (time_Year ?s + 0) (time_Month ?s + 1) (time_Day ?s + 0) = date_days y' m' ?d"
    using p(1) by (simp add: s civil)
  ultimately have "time_Year (time_AddDate ?s 0 1 0) = y'" "time_Month (time_AddDate ?s 0 1 0) = m'"
    by (rule civil_AddDate)+
  then show ?thesis by (simp add: trafficCycleNextStart_def Let_def)
qed

lemma next_start_skips:
  assumes "1 \<le> m" "m \<le> 12" "1 \<le> r" "month_succ y m = (y', m')" "month_succ y' m' = (y2, m2)"
    and "days_in_month y' m' < min r (days_in_month y m)"
  shows "trafficCycleNextStart (trafficCycleBoundary y m r) r = trafficCycleBoundary y2 m2 r"
proof -
  let ?s = "trafficCycleBoundary y m r" and ?d = "min r (days_in_month y m)"
  have s: "?s = time_Date y m ?d" by (simp add: trafficCycleBoundary_eq assms(1,2))
  note civil = time_of_Date [OF boundary_valid [OF assms(1-3), of y]]
  note p = date_days_month_succ [OF assms(1,2,4)]
  note q = date_days_month_succ [OF p(2,3) assms(5)]
  define e where "e = ?d - days_in_month y' m'"
  have "valid_date y2 m2 e"
    using q assms(6) days_in_month_bounds [of y m] days_in_month_bounds [of y' m']
      days_in_month_bounds(1) [of y2 m2] by (auto simp: valid_date_def e_def)
  moreover have "date_days (time_Year ?s + 0) (time_Month ?s + 1) (time_Day ?s + 0) = date_days y2 m2 e"
    using p(1) date_days_succ_first [OF p(2,3) assms(5), of e] by (simp add: s civil e_def)
  ultimately have "time_Year (time_AddDate ?s 0 1 0) = y2" "time_Month (time_AddDate ?s 0 1 0) = m2"
    by (rule civil_AddDate)+
  then show ?thesis by (simp add: trafficCycleNextStart_def Let_def)
qed

section \<open>Properties\<close>

lemma cycle_brackets:
  assumes "1 \<le> r" "r \<le> 28"
  shows "trafficCycleStart t r \<le> t \<and> t < trafficCycleNextStart (trafficCycleStart t r) r"
proof -
  let ?y = "time_Year t" and ?m = "time_Month t" and ?d = "time_Day t"
  have v: "1 \<le> ?m" "?m \<le> 12" "1 \<le> ?d" "?d \<le> days_in_month ?y ?m"
    using valid_time(1) [of t] by (simp_all add: valid_date_def)
  have r: "r \<le> days_in_month y m" for y m using assms(2) days_in_month_bounds(1) [of y m] by simp
  have t: "days_of t = date_days ?y ?m ?d" using valid_time(2) [of t] by simp
  show ?thesis
  proof (cases "r \<le> ?d")
    case True
    obtain y' m' where s: "month_succ ?y ?m = (y', m')" by fastforce
    have start: "trafficCycleStart t r = trafficCycleBoundary ?y ?m r"
      using assms True by (intro start_this_month) (simp_all add: min_def)
    have next_b: "trafficCycleNextStart (trafficCycleBoundary ?y ?m r) r = trafficCycleBoundary y' m' r"
      using v assms s r by (intro next_start_month) (simp_all add: min_def)
    have "t < trafficCycleBoundary y' m' r"
      using date_days_month_succ(2,3) [OF v(1,2) s] date_days_succ_first [OF v(1,2) s, of r] v assms r [of y' m']
      by (simp add: trafficCycleBoundary_eq not_le [symmetric] time_Date_le_iff t date_days_norm min_def)
    then show ?thesis
      using True v boundary_le_iff [of ?m t ?y r] by (simp add: start next_b min_le_iff_disj)
  next
    case False
    obtain y' m' where p: "month_pred ?y ?m = (y', m')" by fastforce
    note pp = date_days_month_pred [OF v(1,2) p]
    have start: "trafficCycleStart t r = trafficCycleBoundary y' m' r"
      using assms False p r [of ?y ?m] r [of y' m'] by (intro start_previous_month) simp_all
    have next_b: "trafficCycleNextStart (trafficCycleBoundary y' m' r) r = trafficCycleBoundary ?y ?m r"
      using pp v assms month_pred_succ [OF v(1,2) p] r by (intro next_start_month) (simp_all add: min_def)
    have "trafficCycleBoundary y' m' r \<le> t"
      using pp date_before_month [OF v(1,2) p, of r ?d] v r [of y' m']
      by (simp add: trafficCycleBoundary_eq time_Date_le_iff t min_def)
    then show ?thesis
      using False v boundary_le_iff [of ?m t ?y r] r [of ?y ?m] by (simp add: start next_b min_def not_le)
  qed
qed

lemma cycle_start_not_after_iff:
  assumes "1 \<le> r" "r \<le> 31"
  shows "trafficCycleStart t r \<le> t \<longleftrightarrow>
    \<not> (time_Month t = 3 \<and> time_Day t < r \<and> time_Day t < 31 \<and> days_in_month (time_Year t) 2 < time_Day t)"
proof -
  let ?y = "time_Year t" and ?m = "time_Month t" and ?d = "time_Day t"
  have v: "1 \<le> ?m" "?m \<le> 12" "1 \<le> ?d"
    using valid_time(1) [of t] by (simp_all add: valid_date_def)
  have t: "days_of t = date_days ?y ?m ?d" using valid_time(2) [of t] by simp
  obtain y' m' where p: "month_pred ?y ?m = (y', m')" by fastforce
  note pp = date_days_month_pred [OF v(1,2) p]
  note bound = boundary_le_iff [of ?m t ?y r]
  consider (cur) "min r (days_in_month ?y ?m) \<le> ?d"
    | (prev) "?d < min r (days_in_month ?y ?m)" "?d \<le> days_in_month y' m'"
    | (over) "?d < min r (days_in_month ?y ?m)" "days_in_month y' m' < ?d" by linarith
  then show ?thesis
  proof cases
    case cur
    then show ?thesis
      using start_this_month [OF assms cur] v bound by (auto simp: days_in_month_def min_def split: if_splits)
  next
    case prev
    have start: "trafficCycleStart t r = trafficCycleBoundary y' m' r"
      using assms prev(1) p prev(2) by (rule start_previous_month)
    have "trafficCycleBoundary y' m' r \<le> t"
      using pp date_before_month [OF v(1,2) p, of "min r (days_in_month y' m')" ?d] v
      by (simp add: trafficCycleBoundary_eq time_Date_le_iff t)
    moreover have "\<not> days_in_month ?y 2 < ?d" if "?m = 3"
      using that p prev(2) by (auto simp: month_pred_def)
    ultimately show ?thesis using start by auto
  next
    case over
    have "trafficCycleStart t r = trafficCycleBoundary ?y ?m r"
      using assms over(1) p over(2) by (rule start_overflow)
    moreover have "?m = 3" "days_in_month y' m' = days_in_month ?y 2"
      using month_pred_short [OF v(1,2) p over(2)] over(1) by simp_all
    ultimately show ?thesis using over v bound by (auto simp: days_in_month_def)
  qed
qed


section \<open>Properties\<close>

text \<open>C26: For reset days up to 28 (those every month has), every instant lies in its own traffic
  cycle: the cycle starts at or before it and the next cycle starts after it.\<close>

theorem traffic_cycle_brackets:
  assumes "1 \<le> r" and "r \<le> 28"
  shows "trafficCycleStart t r \<le> t \<and> t < trafficCycleNextStart (trafficCycleStart t r) r"
  by (rule cycle_brackets [OF assms])

lemma traffic_cycle_brackets_witness:
  "trafficCycleStart 1700000000000000000 15 \<le> 1700000000000000000 \<and>
   1700000000000000000 < trafficCycleNextStart (trafficCycleStart 1700000000000000000 15) 15"
  by (rule traffic_cycle_brackets) simp_all

text \<open>C27: Exactly when the computed cycle start lies in the future: for a reset day above 28, on the
  days of March that February does not have (29 and 30 March in a common year, 30 March in a
  leap year) when the reset day is still to come.  On every other day the start is not after
  the given time.\<close>

theorem traffic_cycle_start_in_future:
  assumes "1 \<le> r" and "r \<le> 31"
  shows "t < trafficCycleStart t r \<longleftrightarrow>
    time_Month t = 3 \<and> time_Day t < r \<and> time_Day t < 31 \<and> days_in_month (time_Year t) 2 < time_Day t"
  using cycle_start_not_after_iff [OF assms, of t] by linarith

lemma traffic_cycle_start_in_future_witness:
  "time_Date 2026 3 30 < trafficCycleStart (time_Date 2026 3 30) 31"
proof -
  have "time_Month (time_Date 2026 3 30) = 3 \<and> time_Day (time_Date 2026 3 30) = 30 \<and>
      days_in_month (time_Year (time_Date 2026 3 30)) 2 = 28" by code_simp
  then show ?thesis using traffic_cycle_start_in_future [of 31 "time_Date 2026 3 30"] by simp
qed

text \<open>C28: When the next month is shorter than the day the cycle started on, the next cycle is computed
  one month too late: from a start on 31 January with reset day 31 the next start is 31 March,
  so February has no cycle of its own.\<close>

theorem traffic_cycle_skips_short_month:
  assumes "1 \<le> m" "m \<le> 12" "1 \<le> r" "month_succ y m = (y', m')" "month_succ y' m' = (y2, m2)"
    and "days_in_month y' m' < min r (days_in_month y m)"
  shows "trafficCycleNextStart (trafficCycleBoundary y m r) r = trafficCycleBoundary y2 m2 r"
  by (rule next_start_skips [OF assms])

lemma traffic_cycle_skips_short_month_witness:
  "trafficCycleNextStart (trafficCycleBoundary 2026 1 31) 31 = trafficCycleBoundary 2026 3 31"
  by (rule traffic_cycle_skips_short_month [where y' = 2026 and m' = 2])
    (simp_all add: month_succ_def days_in_month_def)

end
