(* ===== verification/Database.thy ===== *)
theory Database
  imports Prelude
begin

text \<open>
  The controller's SQLite database (internal/store): one record per table row, the database
  as a record of tables, and the messages of internal/protocol that the store keeps or
  answers with.  Timestamps in rows are Unix milliseconds, nullable columns are options,
  0/1 columns are booleans, and a floating-point metric is its bit pattern (the store only
  copies it).  The wide \<open>nodes\<close> row is split into the groups of columns that one
  operation writes together.
\<close>

type_synonym float64 = int

section \<open>Protocol messages\<close>

record desired_credential =
  dc_ref :: string
  dc_fingerprint :: string
  dc_protocol :: string
  dc_verifier :: string

record desired_user =
  du_id :: string
  du_username :: string
  du_credential :: desired_credential
  du_enabled :: bool
  du_expires_at :: "gotime option"
  du_quota_state :: string
  du_management_mode :: string
  du_remote_client_id :: int

record desired_kick =
  dk_user_id :: string
  dk_generation :: int

record desired_reality =
  dr_listen_port :: int
  dr_server_name :: string
  dr_handshake_server :: string
  dr_handshake_server_port :: int
  dr_flow :: string
  dr_network :: string
  dr_key_generation :: int

record desired_snapshot =
  ds_schema_version :: int
  ds_node_id :: string
  ds_version :: int
  ds_adapter :: string
  ds_users :: "desired_user list"
  ds_kicks :: "desired_kick list"
  ds_sui :: "int list option"
  ds_reality :: "desired_reality option"
  ds_generated_at :: gotime

record traffic_delta =
  td_user_id :: string
  td_upload :: int
  td_download :: int

record traffic_batch =
  tb_id :: string
  tb_installation_id :: string
  tb_source_epoch :: string
  tb_sequence :: int
  tb_sampled_at :: gotime
  tb_items :: "traffic_delta list"

record online_user =
  ou_user_id :: string
  ou_connections :: int

record online_snapshot =
  os_snapshot_id :: string
  os_installation_id :: string
  os_sampled_at :: gotime
  os_users :: "online_user list"

record host_metrics =
  hm_hostname :: string
  hm_kernel_version :: string
  hm_uptime_seconds :: int
  hm_cpu_cores :: int
  hm_cpu_percent :: float64
  hm_memory_used :: int
  hm_memory_total :: int
  hm_swap_used :: int
  hm_swap_total :: int
  hm_disk_used :: int
  hm_disk_total :: int
  hm_disk_read_bps :: int
  hm_disk_write_bps :: int
  hm_network_rx_bps :: int
  hm_network_tx_bps :: int
  hm_network_rx_total :: int
  hm_network_tx_total :: int
  hm_load_1 :: float64
  hm_load_5 :: float64
  hm_load_15 :: float64

record enroll_response =
  er_node_id :: string
  er_node_credential :: string
  er_protocol :: int
  er_heartbeat_seconds :: int
  er_desired_seconds :: int
  er_server_time :: gotime

section \<open>Rows\<close>

record node_agent =
  na_installation_id :: "string option"
  na_credential_hash :: "string option"
  na_version :: string
  na_protocol_version :: int
  na_os_name :: string
  na_os_version :: string
  na_architecture :: string
  na_core_name :: string
  na_core_version :: string
  na_core_running :: bool
  na_adapter_status :: string
  na_adapter_version :: string
  na_adapter_error_code :: string
  na_adapter_last_probed_at :: "int option"
  na_adapter_last_discovered_at :: "int option"
  na_last_seen_at :: "int option"
  na_last_applied_at :: "int option"

record node_usage =
  nu_enabled :: bool
  nu_available :: bool
  nu_outbox_batches :: int
  nu_error_code :: string
  nu_sampled_at :: "int option"

record node_traffic =
  nt_upload :: int
  nt_download :: int
  nt_unattributed :: int
  nt_last_report_at :: "int option"
  nt_limit :: int
  nt_reset_day :: int
  nt_cycle_started_at :: "int option"
  nt_cycle_upload :: int
  nt_cycle_download :: int
  nt_calibration :: "int option"
  nt_calibration_proxy :: "int option"
  nt_calibrated_at :: "int option"

record node_online =
  no_users :: int
  no_connections :: int
  no_unknown_users :: int
  no_sampled_at :: "int option"
  no_last_report_at :: "int option"

record node_row =
  n_id :: string
  n_name :: string
  n_provider :: string
  n_region :: string
  n_adapter_type :: string
  n_public_host :: string
  n_public_port :: int
  n_sni :: string
  n_tls_insecure :: bool
  n_tls_cert_fingerprint :: string
  n_tls_public_key_sha256 :: string
  n_sui_targets :: "int list"
  n_enabled :: bool
  n_status :: string
  n_status_reason :: string
  n_desired_version :: int
  n_applied_version :: int
  n_exit_proxy_id :: "string option"
  n_agent :: node_agent
  n_usage :: node_usage
  n_host :: "host_metrics option"
  n_traffic :: node_traffic
  n_online :: node_online
  n_created_at :: int
  n_updated_at :: int
  n_archived_at :: "int option"

record user_row =
  u_id :: string
  u_username :: string
  u_display_name :: string
  u_notes :: string
  u_enabled :: bool
  u_expires_at :: "int option"
  u_traffic_limit :: int
  u_upload :: int
  u_download :: int
  u_used :: int
  u_quota_state :: string
  u_last_traffic_at :: "int option"
  u_expiry_enforced_at :: "int option"
  u_created_at :: int
  u_updated_at :: int
  u_archived_at :: "int option"

record assignment_row =
  a_id :: string
  a_node_id :: string
  a_user_id :: string
  a_desired_credential_id :: string
  a_applied_credential_id :: "string option"
  a_enabled :: bool
  a_desired_version :: int
  a_applied_version :: int
  a_state :: string
  a_management_mode :: string
  a_remote_client_id :: "int option"
  a_traffic_limit :: int
  a_upload :: int
  a_download :: int
  a_used :: int
  a_quota_state :: string
  a_last_traffic_at :: "int option"
  a_last_error_code :: string
  a_last_error_message :: string
  a_last_attempt_at :: "int option"
  a_applied_at :: "int option"
  a_created_at :: int
  a_updated_at :: int

record credential_row =
  c_id :: string
  c_user_id :: string
  c_node_id :: string
  c_protocol :: string
  c_ciphertext :: string
  c_verifier :: string
  c_fingerprint :: string
  c_key_version :: int
  c_state :: string
  c_created_at :: int
  c_applied_at :: "int option"
  c_retired_at :: "int option"
  c_revoked_at :: "int option"

record snapshot_row =
  s_node_id :: string
  s_version :: int
  s_snapshot :: desired_snapshot
  s_sha256 :: string
  s_created_at :: int
  s_superseded_at :: "int option"

record kick_row =
  k_node_id :: string
  k_user_id :: string
  k_generation :: int
  k_reason :: string
  k_requested_at :: int

record batch_row =
  b_id :: string
  b_node_id :: string
  b_installation_id :: string
  b_source_epoch :: string
  b_sequence :: int
  b_sampled_at :: int
  b_received_at :: int
  b_item_count :: int
  b_upload :: int
  b_download :: int
  b_payload_sha256 :: string

record batch_item_row =
  bi_batch_id :: string
  bi_node_id :: string
  bi_user_id :: string
  bi_upload :: int
  bi_download :: int
  bi_disposition :: string

record total_row =
  t_node_id :: string
  t_user_id :: string
  t_upload :: int
  t_download :: int
  t_last_batch_id :: string
  t_updated_at :: int

record online_user_row =
  o_node_id :: string
  o_user_id :: string
  o_connections :: int
  o_known_assignment :: bool
  o_sampled_at :: int

record online_snapshot_row =
  os_node_id :: string
  os_agent_installation_id :: string
  os_row_snapshot_id :: string
  os_row_sampled_at :: int
  os_received_at :: int
  os_total_connections :: int
  os_known_users :: int
  os_unknown_users :: int

record operation_row =
  op_id :: string
  op_node_id :: string
  op_sequence :: int
  op_type :: string
  op_status :: string
  op_retry_of :: "string option"
  op_attempt :: int
  op_max_lines :: int
  op_target :: string
  op_output :: string
  op_error_code :: string
  op_error_message :: string
  op_rolled_back :: bool
  op_requested_by :: string
  op_expires_at :: int
  op_started_at :: "int option"
  op_completed_at :: "int option"
  op_created_at :: int
  op_updated_at :: int

record backup_row =
  cb_id :: string
  cb_node_id :: string
  cb_operation_id :: string
  cb_local_path :: string
  cb_sha256 :: string
  cb_size_bytes :: int
  cb_created_at :: int

record alert_row =
  al_id :: string
  al_node_id :: string
  al_type :: string
  al_severity :: string
  al_status :: string
  al_message :: string
  al_occurrence_count :: int
  al_first_seen_at :: int
  al_last_seen_at :: int
  al_acknowledged_by :: "string option"
  al_acknowledged_at :: "int option"
  al_resolved_at :: "int option"
  al_created_at :: int
  al_updated_at :: int

record token_row =
  et_id :: string
  et_node_id :: string
  et_token_hash :: string
  et_expires_at :: int
  et_consumed_at :: "int option"
  et_bound_installation_id :: "string option"
  et_bound_request_id :: "string option"
  et_response_ciphertext :: "string option"
  et_response_expires_at :: "int option"
  et_created_by :: string
  et_created_at :: int

record capability_row =
  cap_node_id :: string
  cap_capability :: string
  cap_reported_at :: int

record reality_row =
  r_node_id :: string
  r_handshake_server :: string
  r_handshake_server_port :: int
  r_desired_key_generation :: int
  r_applied_key_generation :: int
  r_public_key :: string
  r_short_id :: string
  r_material_applied_version :: int
  r_material_reported_at :: "int option"
  r_created_at :: int
  r_updated_at :: int

record metric_row =
  m_node_id :: string
  m_bucket_at :: int
  m_host :: host_metrics
  m_sampled_at :: int

record exit_proxy_row =
  x_id :: string
  x_name :: string
  x_kind :: string
  x_protocol :: string
  x_host :: string
  x_port :: int
  x_username :: string
  x_password_ciphertext :: string
  x_tls :: bool
  x_skip_cert_verify :: bool
  x_udp :: bool
  x_notes :: string
  x_created_at :: int
  x_updated_at :: int
  x_server_side :: bool

record notifier_row =
  nf_id :: string
  nf_name :: string
  nf_kind :: string
  nf_enabled :: bool
  nf_config_ciphertext :: string
  nf_target_hint :: string
  nf_events :: "string list"
  nf_created_at :: int
  nf_updated_at :: int

record alert_notification =
  an_event :: string
  an_alert_id :: string
  an_node_id :: string
  an_node_name :: string
  an_type :: string
  an_severity :: string
  an_status :: string
  an_message :: string
  an_occurred_at :: gotime

record delivery_row =
  nd_id :: string
  nd_notifier_id :: string
  nd_alert_id :: string
  nd_event_type :: string
  nd_payload :: alert_notification
  nd_status :: string
  nd_attempt_count :: int
  nd_next_attempt_at :: int
  nd_last_error :: string
  nd_response_code :: int
  nd_delivered_at :: "int option"
  nd_created_at :: int
  nd_updated_at :: int

section \<open>The database\<close>

text \<open>
  \<open>db_next_id\<close> counts the identifiers handed out so far; the identifiers themselves come
  from the environment (random UUIDs in the program).
\<close>

record db =
  db_nodes :: "node_row list"
  db_users :: "user_row list"
  db_assignments :: "assignment_row list"
  db_credentials :: "credential_row list"
  db_snapshots :: "snapshot_row list"
  db_kicks :: "kick_row list"
  db_batches :: "batch_row list"
  db_batch_items :: "batch_item_row list"
  db_totals :: "total_row list"
  db_online_users :: "online_user_row list"
  db_online_snapshots :: "online_snapshot_row list"
  db_operations :: "operation_row list"
  db_backups :: "backup_row list"
  db_alerts :: "alert_row list"
  db_tokens :: "token_row list"
  db_capabilities :: "capability_row list"
  db_reality :: "reality_row list"
  db_metrics :: "metric_row list"
  db_notifiers :: "notifier_row list"
  db_deliveries :: "delivery_row list"
  db_exit_proxies :: "exit_proxy_row list"
  db_next_id :: nat

text \<open>
  The code outside the repository that the store calls, as functions: the digests of
  encoded messages, fresh identifiers, random bytes (their number, then the number of the
  draw), random UUIDs and their parser, SHA-256, and the two directions of XChaCha20-Poly1305 (key, nonce,
  text, associated data), and the JSON form of the enrollment response.
\<close>

record env =
  env_new_id :: "nat \<Rightarrow> string"
  env_batch_sha256 :: "traffic_batch \<Rightarrow> string"
  env_snapshot_sha256 :: "desired_snapshot \<Rightarrow> string"
  env_random :: "nat \<Rightarrow> nat \<Rightarrow> string"
  env_uuid :: "nat \<Rightarrow> string"
  env_uuid_valid :: "string \<Rightarrow> bool"
  env_sha256 :: "string \<Rightarrow> string"
  env_aead_seal :: "string \<Rightarrow> string \<Rightarrow> string \<Rightarrow> string \<Rightarrow> string"
  env_aead_open :: "string \<Rightarrow> string \<Rightarrow> string \<Rightarrow> string \<Rightarrow> string option"
  env_enroll_encode :: "enroll_response \<Rightarrow> string"
  env_enroll_decode :: "string \<Rightarrow> enroll_response option"

definition NewID :: "env \<Rightarrow> db \<Rightarrow> string \<times> db" where
  "NewID e d = (env_new_id e (db_next_id d), d\<lparr>db_next_id := Suc (db_next_id d)\<rparr>)"

text \<open>The key of SQLite's \<open>NOCASE\<close> collation, which folds ASCII letters only.\<close>

definition nocase :: "string \<Rightarrow> string" where
  "nocase = map (\<lambda>c. case map_of (zip ''ABCDEFGHIJKLMNOPQRSTUVWXYZ'' ''abcdefghijklmnopqrstuvwxyz'') c of
     None \<Rightarrow> c | Some l \<Rightarrow> l)"

text \<open>The rows the statements address by primary key.\<close>

definition find_node :: "string \<Rightarrow> db \<Rightarrow> node_row option" where
  "find_node i d = sql_first (\<lambda>n. n_id n = i) (db_nodes d)"

definition find_active_node :: "string \<Rightarrow> db \<Rightarrow> node_row option" where
  "find_active_node i d = sql_first (\<lambda>n. n_id n = i \<and> n_archived_at n = None) (db_nodes d)"

definition find_user :: "string \<Rightarrow> db \<Rightarrow> user_row option" where
  "find_user i d = sql_first (\<lambda>u. u_id u = i) (db_users d)"

definition find_active_user :: "string \<Rightarrow> db \<Rightarrow> user_row option" where
  "find_active_user i d = sql_first (\<lambda>u. u_id u = i \<and> u_archived_at u = None) (db_users d)"

definition akey :: "assignment_row \<Rightarrow> string \<times> string" where
  "akey a = (a_node_id a, a_user_id a)"

definition find_assignment :: "string \<Rightarrow> string \<Rightarrow> db \<Rightarrow> assignment_row option" where
  "find_assignment nid uid d = sql_first (\<lambda>a. akey a = (nid, uid)) (db_assignments d)"

definition update_nodes :: "(node_row \<Rightarrow> bool) \<Rightarrow> (node_row \<Rightarrow> node_row) \<Rightarrow> db \<Rightarrow> db" where
  "update_nodes p f d = d\<lparr>db_nodes := sql_update p f (db_nodes d)\<rparr>"

definition update_users :: "(user_row \<Rightarrow> bool) \<Rightarrow> (user_row \<Rightarrow> user_row) \<Rightarrow> db \<Rightarrow> db" where
  "update_users p f d = d\<lparr>db_users := sql_update p f (db_users d)\<rparr>"

definition update_assignments ::
  "(assignment_row \<Rightarrow> bool) \<Rightarrow> (assignment_row \<Rightarrow> assignment_row) \<Rightarrow> db \<Rightarrow> db" where
  "update_assignments p f d = d\<lparr>db_assignments := sql_update p f (db_assignments d)\<rparr>"

definition update_credentials ::
  "(credential_row \<Rightarrow> bool) \<Rightarrow> (credential_row \<Rightarrow> credential_row) \<Rightarrow> db \<Rightarrow> db" where
  "update_credentials p f d = d\<lparr>db_credentials := sql_update p f (db_credentials d)\<rparr>"

end
