(* ===== verification/Sample.thy ===== *)
theory Sample
  imports Database
begin

text \<open>
  A small concrete fleet for the examples of the component theories: one Hysteria 2 node
  \<open>n1\<close>, one user \<open>alice\<close> with a quota of 1000 bytes assigned to it, and the
  environment functions instantiated by simple ones.
\<close>

text \<open>An injective text form of the enrollment response: every field is preceded by its length
  in unary, numbers are in binary.\<close>

function bits_of :: "nat \<Rightarrow> string" where
  "bits_of n = (if n = 0 then '''' else (if even n then CHR ''0'' else CHR ''1'') # bits_of (n div 2))"
  by pat_completeness auto
termination by (relation "measure id") auto

declare bits_of.simps [simp del]

fun nat_of_bits :: "string \<Rightarrow> nat" where
  "nat_of_bits [] = 0"
| "nat_of_bits (c # s) = (if c = CHR ''1'' then 1 else 0) + 2 * nat_of_bits s"

definition int_text :: "int \<Rightarrow> string" where
  "int_text v = (if v < 0 then CHR ''-'' else CHR ''+'') # bits_of (nat (abs v))"

definition text_int :: "string \<Rightarrow> int" where
  "text_int s = (if hd s = CHR ''-'' then - int (nat_of_bits (tl s)) else int (nat_of_bits (tl s)))"

definition field_text :: "string \<Rightarrow> string" where
  "field_text s = replicate (length s) CHR ''i'' @ CHR ''.'' # s"

fun fields_of :: "nat \<Rightarrow> string \<Rightarrow> string list" where
  "fields_of 0 s = []"
| "fields_of (Suc k) s =
     (let n = length (takeWhile (\<lambda>c. c = CHR ''i'') s); r = drop (Suc n) s in take n r # fields_of k (drop n r))"

definition sample_encode :: "enroll_response \<Rightarrow> string" where
  "sample_encode r = concat (map field_text [er_node_id r, er_node_credential r, int_text (er_protocol r),
     int_text (er_heartbeat_seconds r), int_text (er_desired_seconds r), int_text (er_server_time r)])"

definition sample_decode :: "string \<Rightarrow> enroll_response option" where
  "sample_decode s = (let f = fields_of 6 s in Some \<lparr> er_node_id = f ! 0, er_node_credential = f ! 1,
     er_protocol = text_int (f ! 2), er_heartbeat_seconds = text_int (f ! 3),
     er_desired_seconds = text_int (f ! 4), er_server_time = text_int (f ! 5) \<rparr>)"

lemma nat_of_bits_of [simp]: "nat_of_bits (bits_of n) = n"
proof (induction n rule: bits_of.induct)
  case (1 n)
  then show ?case by (cases "n = 0") (simp_all add: bits_of.simps [of n] bits_of.simps [of 0])
qed

lemma text_int_text [simp]: "text_int (int_text v) = v"
  by (simp add: text_int_def int_text_def)

lemma fields_of_field [simp]: "fields_of (Suc k) (field_text s @ rest) = s # fields_of k rest"
proof -
  have "takeWhile (\<lambda>c. c = CHR ''i'') (field_text s @ rest) = replicate (length s) CHR ''i''"
    by (simp add: field_text_def takeWhile_append)
  then show ?thesis by (simp add: Let_def field_text_def)
qed

lemma sample_decode_encode: "sample_decode (sample_encode r) = Some r"
proof -
  have "fields_of (length ss) (concat (map field_text ss)) = ss" for ss
    by (induction ss) (simp_all del: fields_of.simps(2))
  note all = this
  let ?ss = "[er_node_id r, er_node_credential r, int_text (er_protocol r),
     int_text (er_heartbeat_seconds r), int_text (er_desired_seconds r), int_text (er_server_time r)]"
  have six: "6 = length ?ss" by simp
  have "fields_of 6 (sample_encode r) = ?ss" unfolding sample_encode_def six by (rule all)
  then show ?thesis by (simp add: sample_decode_def)
qed

definition sample_env :: env where
  "sample_env = \<lparr> env_new_id = (\<lambda>n. ''id'' @ replicate n CHR ''x''),
     env_batch_sha256 = (\<lambda>b. tb_id b @ concat (map td_user_id (tb_items b))),
     env_snapshot_sha256 = ds_node_id,
     env_random = (\<lambda>len n. replicate len CHR ''r''),
     env_uuid = (\<lambda>n. replicate 36 CHR ''u''), env_uuid_valid = (\<lambda>s. s \<noteq> ''''),
     env_sha256 = (\<lambda>x. take 32 (x @ replicate 32 CHR ''s'')),
     env_aead_seal = (\<lambda>key nonce plaintext aad. plaintext @ replicate 16 CHR ''m''),
     env_aead_open = (\<lambda>key nonce payload aad. Some (take (length payload - 16) payload)),
     env_enroll_encode = sample_encode, env_enroll_decode = sample_decode \<rparr>"

definition sample_agent :: node_agent where
  "sample_agent = \<lparr> na_installation_id = Some ''inst1'', na_credential_hash = Some ''hash1'', na_version = '''',
     na_protocol_version = 1, na_os_name = '''', na_os_version = '''', na_architecture = '''',
     na_core_name = '''', na_core_version = '''', na_core_running = False, na_adapter_status = ''unknown'',
     na_adapter_version = '''', na_adapter_error_code = '''', na_adapter_last_probed_at = None,
     na_adapter_last_discovered_at = None, na_last_seen_at = None, na_last_applied_at = None \<rparr>"

definition sample_usage :: node_usage where
  "sample_usage = \<lparr> nu_enabled = False, nu_available = False, nu_outbox_batches = 0, nu_error_code = '''',
     nu_sampled_at = None \<rparr>"

definition sample_traffic :: node_traffic where
  "sample_traffic = \<lparr> nt_upload = 0, nt_download = 0, nt_unattributed = 0, nt_last_report_at = None,
     nt_limit = 0, nt_reset_day = 1, nt_cycle_started_at = None, nt_cycle_upload = 0, nt_cycle_download = 0,
     nt_calibration = None, nt_calibration_proxy = None, nt_calibrated_at = None \<rparr>"

definition sample_online :: node_online where
  "sample_online = \<lparr> no_users = 0, no_connections = 0, no_unknown_users = 0, no_sampled_at = None,
     no_last_report_at = None \<rparr>"

definition sample_node :: node_row where
  "sample_node = \<lparr> n_id = ''n1'', n_name = ''tokyo'', n_provider = '''', n_region = '''',
     n_adapter_type = ''native_hysteria2'', n_public_host = ''h'', n_public_port = 443, n_sni = '''',
     n_tls_insecure = False, n_tls_cert_fingerprint = '''', n_tls_public_key_sha256 = '''',
     n_sui_targets = [], n_enabled = True, n_status = ''online'', n_status_reason = '''',
     n_desired_version = 1, n_applied_version = 1, n_exit_proxy_id = None, n_agent = sample_agent,
     n_usage = sample_usage, n_host = None, n_traffic = sample_traffic, n_online = sample_online,
     n_created_at = 0, n_updated_at = 0, n_archived_at = None \<rparr>"

definition sample_user :: user_row where
  "sample_user = \<lparr> u_id = ''u1'', u_username = ''alice'', u_display_name = '''', u_notes = '''',
     u_enabled = True, u_expires_at = Some 1000, u_traffic_limit = 1000, u_upload = 0, u_download = 0,
     u_used = 0, u_quota_state = ''active'', u_last_traffic_at = None, u_expiry_enforced_at = None,
     u_created_at = 0, u_updated_at = 0, u_archived_at = None \<rparr>"

definition sample_assignment :: assignment_row where
  "sample_assignment = \<lparr> a_id = ''a1'', a_node_id = ''n1'', a_user_id = ''u1'', a_desired_credential_id = ''c1'',
     a_applied_credential_id = Some ''c1'', a_enabled = True, a_desired_version = 1, a_applied_version = 1,
     a_state = ''applied'', a_management_mode = ''managed'', a_remote_client_id = None, a_traffic_limit = 0,
     a_upload = 0, a_download = 0, a_used = 0, a_quota_state = ''unlimited'', a_last_traffic_at = None,
     a_last_error_code = '''', a_last_error_message = '''', a_last_attempt_at = None, a_applied_at = None,
     a_created_at = 0, a_updated_at = 0 \<rparr>"

definition sample_credential :: credential_row where
  "sample_credential = \<lparr> c_id = ''c1'', c_user_id = ''u1'', c_node_id = ''n1'', c_protocol = ''hysteria2'',
     c_ciphertext = ''secret'', c_verifier = replicate 32 CHR ''v'', c_fingerprint = ''fp'', c_key_version = 1,
     c_state = ''applied'', c_created_at = 0, c_applied_at = Some 0, c_retired_at = None, c_revoked_at = None \<rparr>"

definition sample_snapshot :: desired_snapshot where
  "sample_snapshot = \<lparr> ds_schema_version = 1, ds_node_id = ''n1'', ds_version = 1, ds_adapter = ''native_hysteria2'',
     ds_users = [], ds_kicks = [], ds_sui = None, ds_reality = None, ds_generated_at = 0 \<rparr>"

definition sample_db :: db where
  "sample_db = \<lparr> db_nodes = [sample_node], db_users = [sample_user], db_assignments = [sample_assignment],
     db_credentials = [sample_credential],
     db_snapshots = [\<lparr> s_node_id = ''n1'', s_version = 1, s_snapshot = sample_snapshot, s_sha256 = ''n1'',
       s_created_at = 0, s_superseded_at = None \<rparr>],
     db_kicks = [], db_batches = [], db_batch_items = [], db_totals = [], db_online_users = [],
     db_online_snapshots = [], db_operations = [], db_backups = [], db_alerts = [], db_tokens = [],
     db_capabilities = [], db_reality = [], db_metrics = [], db_notifiers = [], db_deliveries = [], db_exit_proxies = [],
     db_next_id = 0 \<rparr>"

definition sample_batch :: traffic_batch where
  "sample_batch = \<lparr> tb_id = ''b1'', tb_installation_id = ''inst1'', tb_source_epoch = ''e'', tb_sequence = 1,
     tb_sampled_at = 1700000000000000000,
     tb_items = [\<lparr> td_user_id = ''u1'', td_upload = 300, td_download = 800 \<rparr>,
                 \<lparr> td_user_id = ''ghost'', td_upload = 5, td_download = 7 \<rparr>] \<rparr>"

definition sample_now :: gotime where "sample_now = 1700000100000000000"

lemmas sample_defs = sample_env_def sample_agent_def sample_usage_def sample_traffic_def sample_online_def
  sample_node_def sample_user_def sample_assignment_def sample_credential_def sample_snapshot_def
  sample_db_def sample_batch_def sample_now_def

end
