(* ===== verification/Secrets.thy ===== *)
theory Secrets
  imports Base64 Go_Strings Sample
begin

text \<open>
  Random tokens, token digests and encryption at rest (internal/cryptoutil/token.go and
  secretbox.go, and the associated data of internal/store/user.go and agent.go).  The
  random generator, SHA-256 and XChaCha20-Poly1305 are parameters of the environment;
  \<open>crypto_ok\<close> is what their documentation promises.
\<close>

section \<open>Operations\<close>

definition rand_Read :: "env \<Rightarrow> nat \<Rightarrow> db \<Rightarrow> string \<times> db" where
  "rand_Read e len d = (env_random e len (db_next_id d), d\<lparr>db_next_id := Suc (db_next_id d)\<rparr>)"

definition RandomToken :: "env \<Rightarrow> nat \<Rightarrow> db \<Rightarrow> string \<times> db" where
  "RandomToken e len d = (let (value, d1) = rand_Read e len d in (b64_encode value, d1))"

definition TokenHash :: "env \<Rightarrow> string \<Rightarrow> string" where
  "TokenHash e token = env_sha256 e token"

text \<open>\<open>chacha20poly1305.KeySize\<close>, and the nonce size and overhead of the X variant.\<close>

definition KeySize :: nat where "KeySize = 32"
definition NonceSize :: nat where "NonceSize = 24"
definition Overhead :: nat where "Overhead = 16"

definition Seal :: "env \<Rightarrow> string \<Rightarrow> string \<Rightarrow> string \<Rightarrow> db \<Rightarrow> store_error + string \<times> db" where
  "Seal e key plaintext associatedData d =
     (if length key \<noteq> KeySize then Inl (ErrOther ''master key must be 32 bytes'')
      else
        let (nonce, d1) = rand_Read e NonceSize d
        in Inr (nonce @ env_aead_seal e key nonce plaintext associatedData, d1))"

definition Open :: "env \<Rightarrow> string \<Rightarrow> string \<Rightarrow> string \<Rightarrow> store_error + string" where
  "Open e key ciphertext associatedData =
     (if length key \<noteq> KeySize then Inl (ErrOther ''master key must be 32 bytes'')
      else if length ciphertext < NonceSize + Overhead then Inl (ErrOther ''encrypted value is truncated'')
      else
        let nonce = take NonceSize ciphertext; payload = drop NonceSize ciphertext in
        case env_aead_open e key nonce payload associatedData of
          None \<Rightarrow> Inl (ErrOther ''encrypted value authentication failed'')
        | Some plaintext \<Rightarrow> Inr plaintext)"

definition credentialAAD :: "string \<Rightarrow> string \<Rightarrow> string \<Rightarrow> string \<Rightarrow> int \<Rightarrow> string" where
  "credentialAAD credentialID userID nodeID protocol keyVersion =
     join_with (CHR 0x00) [credentialID, userID, nodeID, protocol, ''v'' @ itoa keyVersion]"

definition enrollmentAAD :: "string \<Rightarrow> string \<Rightarrow> string \<Rightarrow> string \<Rightarrow> string" where
  "enrollmentAAD enrollmentID nodeID installationID requestID =
     join_with (CHR 0x00) [enrollmentID, nodeID, installationID, requestID]"

section \<open>What the parameters promise\<close>

definition crypto_ok :: "env \<Rightarrow> bool" where
  "crypto_ok e \<longleftrightarrow>
     (\<forall>len n. length (env_random e len n) = len) \<and>
     (\<forall>x. length (env_sha256 e x) = 32) \<and>
     (\<forall>key nonce text aad. length key = KeySize \<longrightarrow> length nonce = NonceSize \<longrightarrow>
        length (env_aead_seal e key nonce text aad) = length text + Overhead \<and>
        env_aead_open e key nonce (env_aead_seal e key nonce text aad) aad = Some text)"

lemma sample_crypto_ok: "crypto_ok sample_env"
  by (auto simp: crypto_ok_def sample_env_def Overhead_def min_def)

lemma Seal_Inr:
  "Seal e key text aad d = Inr (c, d') \<longleftrightarrow>
     length key = KeySize \<and> d' = d\<lparr>db_next_id := Suc (db_next_id d)\<rparr> \<and>
     c = env_random e NonceSize (db_next_id d) @ env_aead_seal e key (env_random e NonceSize (db_next_id d)) text aad"
  by (auto simp: Seal_def rand_Read_def)

lemma Open_Seal:
  assumes "crypto_ok e" and "Seal e key text aad d = Inr (c, d')"
  shows "Open e key c aad = Inr text"
proof -
  let ?n = "env_random e NonceSize (db_next_id d)"
  have n: "length ?n = NonceSize" and k: "length key = KeySize" and c: "c = ?n @ env_aead_seal e key ?n text aad"
    using assms by (auto simp: crypto_ok_def Seal_Inr)
  with assms(1) show ?thesis
    by (simp add: Open_def Let_def crypto_ok_def)
qed

text \<open>The associated data determines every part that contains no NUL byte, so a ciphertext is
  bound to one credential, user, node, protocol and key version.\<close>

lemma join_with_inj:
  assumes "join_with c ws = join_with c ws'" and "ws \<noteq> []" "ws' \<noteq> []"
    and "\<forall>w\<in>set ws. c \<notin> set w" "\<forall>w\<in>set ws'. c \<notin> set w"
  shows "ws = ws'"
  using assms split_join by metis

lemma digit_char_NUL: "v < 10 \<Longrightarrow> digit_char v \<noteq> CHR 0x00"
  using digit_chars [of v] by auto

lemma digits_no_NUL: "CHR 0x00 \<notin> set (digits_of 10 k v)"
proof (induction k arbitrary: v)
  case (Suc k)
  have "digit_char (v mod 10) \<noteq> CHR 0x00" and "v < 10 \<Longrightarrow> digit_char v \<noteq> CHR 0x00"
    by (simp_all add: digit_char_NUL)
  with Suc show ?case by (metis (no_types, lifting) Un_iff digits_of.simps(2) empty_iff empty_set list.set_intros(1) set_ConsD set_append)
qed simp

lemma itoa_no_NUL: "CHR 0x00 \<notin> set (itoa v)"
  by (simp add: itoa_def digits_no_NUL)

lemma credentialAAD_inj:
  assumes "\<forall>w\<in>set [c, u, n, p, c', u', n', p']. CHR 0x00 \<notin> set w"
    and "credentialAAD c u n p k = credentialAAD c' u' n' p' k'"
  shows "[c, u, n, p, itoa k] = [c', u', n', p', itoa k']"
  using join_with_inj [OF assms(2) [unfolded credentialAAD_def]] assms(1) by (simp add: itoa_no_NUL)

end
