(* ===== verification/Desired_State.thy ===== *)
theory Desired_State
  imports Database Base64 Sample
begin

text \<open>
  Desired state of a node (internal/store/node.go, reality.go and the kick helpers of
  traffic.go): the snapshot a node should run, its version, and the kick targets carried in
  it.  Every operation that changes what a node should run goes through
  \<open>bumpNodeSnapshot\<close>; the theory proves what one bump does and that it keeps the
  version invariant \<open>versions_ok\<close>.
\<close>

section \<open>Adapters\<close>

definition AdapterSingBoxVLESSReality :: string where
  "AdapterSingBoxVLESSReality = ''sing_box_vless_reality''"
definition CredentialProtocolVLESS :: string where "CredentialProtocolVLESS = ''vless''"
definition CredentialProtocolHY2 :: string where "CredentialProtocolHY2 = ''hysteria2''"

definition credentialProtocolForAdapter :: "string \<Rightarrow> store_error + string" where
  "credentialProtocolForAdapter adapter =
     (if adapter = ''native_hysteria2'' \<or> adapter = ''s_ui'' then Inr CredentialProtocolHY2
      else if adapter = AdapterSingBoxVLESSReality then Inr CredentialProtocolVLESS
      else Inl ErrUnsupported)"

definition supportsManagedUsers :: "string \<Rightarrow> bool" where
  "supportsManagedUsers adapter = (\<not> isl (credentialProtocolForAdapter adapter))"

definition kicks_supported :: "string \<Rightarrow> bool" where
  "kicks_supported adapter \<longleftrightarrow>
     adapter = ''native_hysteria2'' \<or> adapter = AdapterSingBoxVLESSReality"

section \<open>Building a snapshot\<close>

definition snapshot_quota :: "user_row \<Rightarrow> assignment_row \<Rightarrow> string" where
  "snapshot_quota u a =
     (if u_quota_state u = ''limited'' \<or> a_quota_state a = ''limited'' then ''limited''
      else if u_quota_state u = ''unlimited'' \<and> a_quota_state a = ''unlimited'' then ''unlimited''
      else ''active'')"

definition find_credential :: "string \<Rightarrow> db \<Rightarrow> credential_row option" where
  "find_credential i d = sql_first (\<lambda>c. c_id c = i) (db_credentials d)"

text \<open>One row of the join of assignments, users, nodes and credentials.\<close>

definition snapshot_rows :: "string \<Rightarrow> db \<Rightarrow> (assignment_row \<times> user_row \<times> node_row \<times> credential_row) list" where
  "snapshot_rows nodeID d =
     concat (map (\<lambda>a.
       case (find_user (a_user_id a) d, find_node (a_node_id a) d,
             find_credential (a_desired_credential_id a) d) of
         (Some u, Some n, Some c) \<Rightarrow>
           (if u_archived_at u = None \<and> (c_state c = ''staged'' \<or> c_state c = ''applied'')
            then [(a, u, n, c)] else [])
       | _ \<Rightarrow> []) (filter (\<lambda>a. a_node_id a = nodeID) (db_assignments d)))"

definition desired_user_of ::
  "string \<Rightarrow> gotime \<Rightarrow> assignment_row \<times> user_row \<times> node_row \<times> credential_row \<Rightarrow>
     store_error + desired_user" where
  "desired_user_of adapter now = (\<lambda>(a, u, n, c).
     if adapter = ''native_hysteria2'' \<and> length (c_verifier c) \<noteq> 32
     then Inl (ErrOther ''desired credential verifier has invalid length'')
     else
       let enabled = u_enabled u \<and> a_enabled a \<and> n_enabled n;
           expires = map_option unixTime (u_expires_at u);
           expired = (case expires of None \<Rightarrow> False | Some x \<Rightarrow> \<not> now < x)
       in Inr \<lparr>
         du_id = u_id u, du_username = u_username u,
         du_credential = \<lparr>
           dc_ref = c_id c, dc_fingerprint = c_fingerprint c,
           dc_protocol = (if adapter = AdapterSingBoxVLESSReality then c_protocol c else ''''),
           dc_verifier = (if adapter = ''native_hysteria2'' then b64_encode (c_verifier c) else '''') \<rparr>,
         du_enabled = (if adapter = AdapterSingBoxVLESSReality \<and> expired then False else enabled),
         du_expires_at = expires,
         du_quota_state = snapshot_quota u a,
         du_management_mode = (if adapter = ''s_ui'' then a_management_mode a else ''''),
         du_remote_client_id =
           (if adapter = ''s_ui'' then (case a_remote_client_id a of None \<Rightarrow> 0 | Some r \<Rightarrow> r) else 0) \<rparr>)"

fun rmap :: "('a \<Rightarrow> 'e + 'b) \<Rightarrow> 'a list \<Rightarrow> 'e + 'b list" where
  "rmap f [] = Inr []"
| "rmap f (x # xs) = rbind (f x) (\<lambda>y. rbind (rmap f xs) (\<lambda>ys. Inr (y # ys)))"

definition snapshot_users :: "string \<Rightarrow> string \<Rightarrow> gotime \<Rightarrow> db \<Rightarrow> store_error + desired_user list" where
  "snapshot_users nodeID adapter now d =
     rmap (desired_user_of adapter now)
       (sort_key (\<lambda>(a, u, n, c). u_id u) (snapshot_rows nodeID d))"

definition snapshot_kicks :: "string \<Rightarrow> db \<Rightarrow> desired_kick list" where
  "snapshot_kicks nodeID d =
     map (\<lambda>k. \<lparr>dk_user_id = k_user_id k, dk_generation = k_generation k\<rparr>)
       (sort_key k_user_id (filter (\<lambda>k. k_node_id k = nodeID) (db_kicks d)))"

definition find_reality :: "string \<Rightarrow> db \<Rightarrow> reality_row option" where
  "find_reality i d = sql_first (\<lambda>r. r_node_id r = i) (db_reality d)"

definition snapshot_sui :: "string \<Rightarrow> string \<Rightarrow> db \<Rightarrow> store_error + int list option" where
  "snapshot_sui nodeID adapter d =
     (if adapter = ''s_ui'' then
        case find_node nodeID d of
          None \<Rightarrow> Inl (ErrOther ''read S-UI target inbounds'')
        | Some n \<Rightarrow> Inr (Some (n_sui_targets n))
      else Inr None)"

definition snapshot_reality :: "string \<Rightarrow> string \<Rightarrow> db \<Rightarrow> store_error + desired_reality option" where
  "snapshot_reality nodeID adapter d =
     (if adapter = AdapterSingBoxVLESSReality then
        case (find_node nodeID d, find_reality nodeID d) of
          (Some n, Some r) \<Rightarrow> Inr (Some \<lparr>
            dr_listen_port = n_public_port n, dr_server_name = n_sni n,
            dr_handshake_server = r_handshake_server r,
            dr_handshake_server_port = r_handshake_server_port r,
            dr_flow = ''xtls-rprx-vision'', dr_network = ''tcp'',
            dr_key_generation = r_desired_key_generation r \<rparr>)
        | _ \<Rightarrow> Inl (ErrOther ''read desired VLESS Reality settings'')
      else Inr None)"

definition build_snapshot ::
  "string \<Rightarrow> string \<Rightarrow> int \<Rightarrow> gotime \<Rightarrow> db \<Rightarrow> store_error + desired_snapshot" where
  "build_snapshot nodeID adapter version now d =
     rbind (if supportsManagedUsers adapter then snapshot_users nodeID adapter now d else Inr []) (\<lambda>users.
     rbind (if supportsManagedUsers adapter then snapshot_sui nodeID adapter d else Inr None) (\<lambda>sui.
     rbind (if supportsManagedUsers adapter then snapshot_reality nodeID adapter d else Inr None) (\<lambda>reality.
     Inr \<lparr>
       ds_schema_version = (if adapter = AdapterSingBoxVLESSReality then 2 else 1),
       ds_node_id = nodeID, ds_version = version, ds_adapter = adapter,
       ds_users = users,
       ds_kicks = (if kicks_supported adapter then snapshot_kicks nodeID d else []),
       ds_sui = sui, ds_reality = reality, ds_generated_at = now \<rparr>)))"

definition skey :: "snapshot_row \<Rightarrow> string \<times> int" where
  "skey s = (s_node_id s, s_version s)"

definition insertSnapshot ::
  "env \<Rightarrow> string \<Rightarrow> string \<Rightarrow> int \<Rightarrow> gotime \<Rightarrow> db \<Rightarrow> store_error + db" where
  "insertSnapshot e nodeID adapter version now d =
     rbind (build_snapshot nodeID adapter version now d) (\<lambda>snapshot.
     case sql_insert skey \<lparr> s_node_id = nodeID, s_version = version, s_snapshot = snapshot,
            s_sha256 = env_snapshot_sha256 e snapshot, s_created_at = unixMilli now,
            s_superseded_at = None \<rparr> (db_snapshots d) of
       None \<Rightarrow> Inl (ErrOther ''insert desired snapshot'')
     | Some t \<Rightarrow> Inr (d\<lparr>db_snapshots := t\<rparr>))"

definition supersede_snapshots :: "string \<Rightarrow> gotime \<Rightarrow> db \<Rightarrow> db" where
  "supersede_snapshots nodeID now d = d\<lparr>db_snapshots :=
     sql_update (\<lambda>s. s_node_id s = nodeID \<and> s_superseded_at s = None)
       (\<lambda>s. s\<lparr>s_superseded_at := Some (unixMilli now)\<rparr>) (db_snapshots d)\<rparr>"

definition bumpNodeSnapshot :: "env \<Rightarrow> string \<Rightarrow> gotime \<Rightarrow> db \<Rightarrow> store_error + int \<times> db" where
  "bumpNodeSnapshot e nodeID now d =
     (case find_active_node nodeID d of
        None \<Rightarrow> Inl ErrNotFound
      | Some n \<Rightarrow>
          let version = n_desired_version n + 1;
              d1 = update_nodes (\<lambda>x. n_id x = nodeID)
                     (\<lambda>x. x\<lparr>n_desired_version := version, n_updated_at := unixMilli now\<rparr>) d;
              d2 = supersede_snapshots nodeID now d1
          in rbind (insertSnapshot e nodeID (n_adapter_type n) version now d2) (\<lambda>d3. Inr (version, d3)))"

definition markAssignmentPending :: "string \<Rightarrow> string \<Rightarrow> int \<Rightarrow> gotime \<Rightarrow> db \<Rightarrow> db" where
  "markAssignmentPending userID nodeID version now d =
     update_assignments (\<lambda>a. a_user_id a = userID \<and> a_node_id a = nodeID)
       (\<lambda>a. a\<lparr>a_desired_version := version, a_state := ''pending'', a_last_error_code := '''',
              a_last_error_message := '''', a_updated_at := unixMilli now\<rparr>) d"

section \<open>Kicks\<close>

definition kkey :: "kick_row \<Rightarrow> string \<times> string" where
  "kkey k = (k_node_id k, k_user_id k)"

definition requestKickTx ::
  "string \<Rightarrow> string \<Rightarrow> string \<Rightarrow> gotime \<Rightarrow> db \<Rightarrow> store_error + db" where
  "requestKickTx nodeID userID reason now d =
     (case find_active_node nodeID d of
        None \<Rightarrow> Inl ErrNotFound
      | Some n \<Rightarrow>
          if \<not> kicks_supported (n_adapter_type n) then Inr d
          else
            let reason = take 64 reason
            in Inr (d\<lparr>db_kicks := sql_upsert kkey
                 \<lparr> k_node_id = nodeID, k_user_id = userID, k_generation = 1, k_reason = reason,
                   k_requested_at = unixMilli now \<rparr>
                 (\<lambda>k. k\<lparr>k_generation := k_generation k + 1, k_reason := reason,
                        k_requested_at := unixMilli now\<rparr>) (db_kicks d)\<rparr>))"

text \<open>
  The set of changed assignments, a Go map from node to a set of users: kept as a
  duplicate-free list of pairs, read in the sorted node order the code uses.
\<close>

type_synonym changed_set = "(string \<times> string) list"

definition addChangedAssignment :: "string \<Rightarrow> string \<Rightarrow> changed_set \<Rightarrow> changed_set" where
  "addChangedAssignment nodeID userID changed = List.insert (nodeID, userID) changed"

definition changed_nodes :: "changed_set \<Rightarrow> string list" where
  "changed_nodes changed = sort (remdups (map fst changed))"

definition changed_users :: "changed_set \<Rightarrow> string \<Rightarrow> string list" where
  "changed_users changed nodeID = map snd (filter (\<lambda>p. fst p = nodeID) changed)"

definition bumpChangedNode ::
  "env \<Rightarrow> changed_set \<Rightarrow> gotime \<Rightarrow> string \<Rightarrow> db \<Rightarrow> store_error + db" where
  "bumpChangedNode e changed now nodeID d =
     rbind (bumpNodeSnapshot e nodeID now d) (\<lambda>(version, d1).
     Inr (fold (\<lambda>userID. markAssignmentPending userID nodeID version now)
            (changed_users changed nodeID) d1))"

definition bumpChangedAssignmentsTx ::
  "env \<Rightarrow> changed_set \<Rightarrow> gotime \<Rightarrow> db \<Rightarrow> store_error + db" where
  "bumpChangedAssignmentsTx e changed now = rfold (bumpChangedNode e changed now) (changed_nodes changed)"

section \<open>Looking rows up\<close>

lemma find_active_nodeD:
  "find_active_node i d = Some n \<Longrightarrow> n \<in> set (db_nodes d) \<and> n_id n = i \<and> n_archived_at n = None"
  by (auto simp: find_active_node_def dest: sql_first_SomeD)

lemma find_nodeD: "find_node i d = Some n \<Longrightarrow> n \<in> set (db_nodes d) \<and> n_id n = i"
  by (auto simp: find_node_def dest: sql_first_SomeD)

lemma find_node_unique:
  "unique_by n_id (db_nodes d) \<Longrightarrow> n \<in> set (db_nodes d) \<Longrightarrow> find_node (n_id n) d = Some n"
  unfolding find_node_def by (rule sql_first_unique)

lemma find_active_find_node:
  "unique_by n_id (db_nodes d) \<Longrightarrow> find_active_node i d = Some n \<Longrightarrow> find_node i d = Some n"
  using find_active_nodeD find_node_unique by blast

lemma find_active_node_iff:
  assumes "unique_by n_id (db_nodes d)"
  shows "find_active_node i d = Some n \<longleftrightarrow> find_node i d = Some n \<and> n_archived_at n = None"
proof
  assume "find_active_node i d = Some n"
  then show "find_node i d = Some n \<and> n_archived_at n = None"
    using assms find_active_find_node find_active_nodeD by blast
next
  assume n: "find_node i d = Some n \<and> n_archived_at n = None"
  then have "n \<in> set (db_nodes d)" "n_id n = i" by (auto dest: find_nodeD)
  then have "find_active_node i d \<noteq> None"
    using n by (auto simp: find_active_node_def sql_first_None)
  then obtain m where m: "find_active_node i d = Some m" by blast
  with assms n show "find_active_node i d = Some n"
    by (auto dest!: find_active_find_node)
qed

section \<open>What one bump does\<close>

definition bump_row :: "int \<Rightarrow> gotime \<Rightarrow> node_row \<Rightarrow> node_row" where
  "bump_row version now n = n\<lparr>n_desired_version := version, n_updated_at := unixMilli now\<rparr>"

definition supersede_row :: "gotime \<Rightarrow> snapshot_row \<Rightarrow> snapshot_row" where
  "supersede_row now s = s\<lparr>s_superseded_at := Some (unixMilli now)\<rparr>"

definition pending_row :: "int \<Rightarrow> gotime \<Rightarrow> assignment_row \<Rightarrow> assignment_row" where
  "pending_row version now a = a\<lparr>a_desired_version := version, a_state := ''pending'',
     a_last_error_code := '''', a_last_error_message := '''', a_updated_at := unixMilli now\<rparr>"

definition kick_again_row :: "string \<Rightarrow> gotime \<Rightarrow> kick_row \<Rightarrow> kick_row" where
  "kick_again_row reason now k = k\<lparr>k_generation := k_generation k + 1, k_reason := reason,
     k_requested_at := unixMilli now\<rparr>"

text \<open>The UPDATE statements keep the keys of the rows they change.\<close>

interpretation bump_node: row_update n_id "bump_row version now" for version now
  by unfold_locales (simp add: bump_row_def)

interpretation supersede: row_update skey "supersede_row now" for now
  by unfold_locales (simp add: supersede_row_def skey_def)

interpretation pending: row_update akey "pending_row version now" for version now
  by unfold_locales (simp add: pending_row_def akey_def)

interpretation kick_again: row_update kkey "kick_again_row reason now" for reason now
  by unfold_locales (simp add: kick_again_row_def kkey_def)

definition bumped :: "string \<Rightarrow> int \<Rightarrow> gotime \<Rightarrow> db \<Rightarrow> db" where
  "bumped nodeID version now d = d\<lparr>
     db_nodes := sql_update (\<lambda>x. n_id x = nodeID) (bump_row version now) (db_nodes d),
     db_snapshots := sql_update (\<lambda>s. s_node_id s = nodeID \<and> s_superseded_at s = None)
       (supersede_row now) (db_snapshots d)\<rparr>"

definition snapshot_row_of :: "env \<Rightarrow> gotime \<Rightarrow> desired_snapshot \<Rightarrow> snapshot_row" where
  "snapshot_row_of e now snap = \<lparr> s_node_id = ds_node_id snap, s_version = ds_version snap,
     s_snapshot = snap, s_sha256 = env_snapshot_sha256 e snap, s_created_at = unixMilli now,
     s_superseded_at = None \<rparr>"

lemma build_snapshot_fields:
  "build_snapshot i adapter v now d = Inr snap \<Longrightarrow>
     ds_node_id snap = i \<and> ds_version snap = v \<and> ds_adapter snap = adapter"
  by (auto simp: build_snapshot_def rbind_Inr_conv)

lemma insertSnapshot_Inr:
  "insertSnapshot e i adapter v now d = Inr d' \<longleftrightarrow>
     (\<exists>snap. build_snapshot i adapter v now d = Inr snap \<and>
        (\<forall>s\<in>set (db_snapshots d). skey s \<noteq> (i, v)) \<and>
        d' = d\<lparr>db_snapshots := db_snapshots d @ [snapshot_row_of e now snap]\<rparr>)"
proof (cases "build_snapshot i adapter v now d")
  case (Inl x)
  then show ?thesis by (simp add: insertSnapshot_def)
next
  case (Inr snap)
  have row: "\<lparr> s_node_id = i, s_version = v, s_snapshot = snap,
      s_sha256 = env_snapshot_sha256 e snap, s_created_at = unixMilli now,
      s_superseded_at = None \<rparr> = snapshot_row_of e now snap"
    using build_snapshot_fields [OF Inr] by (simp add: snapshot_row_of_def)
  have key: "skey (snapshot_row_of e now snap) = (i, v)"
    using build_snapshot_fields [OF Inr] by (simp add: snapshot_row_of_def skey_def)
  show ?thesis
    unfolding insertSnapshot_def Inr rbind_simps row
    by (auto simp: sql_insert_Some sql_insert_None key split: option.split)
qed

text \<open>A successful bump: the version grows by one, the live snapshots of the node are
  superseded, the new one is added, and no other table changes.\<close>

lemma bumpNodeSnapshot_Inr:
  "bumpNodeSnapshot e i now d = Inr (v, d') \<longleftrightarrow>
     (\<exists>n snap. find_active_node i d = Some n \<and> v = n_desired_version n + 1 \<and>
        build_snapshot i (n_adapter_type n) v now (bumped i v now d) = Inr snap \<and>
        (\<forall>s\<in>set (db_snapshots d). skey s \<noteq> (i, v)) \<and>
        d' = (bumped i v now d)\<lparr>db_snapshots :=
                db_snapshots (bumped i v now d) @ [snapshot_row_of e now snap]\<rparr>)"
proof -
  have step: "supersede_snapshots i now (update_nodes (\<lambda>x. n_id x = i)
      (\<lambda>x. x\<lparr>n_desired_version := v, n_updated_at := unixMilli now\<rparr>) d) = bumped i v now d" for v
    by (simp add: supersede_snapshots_def update_nodes_def bumped_def bump_row_def [abs_def]
        supersede_row_def [abs_def])
  have keys: "(\<forall>s\<in>set (db_snapshots (bumped i v now d)). skey s \<noteq> k) \<longleftrightarrow>
      (\<forall>s\<in>set (db_snapshots d). skey s \<noteq> k)" for v k
    by (simp add: bumped_def supersede.all_keys_update [where Q = "\<lambda>x. x \<noteq> k"])
  show ?thesis
  proof (cases "find_active_node i d")
    case None
    then show ?thesis by (simp add: bumpNodeSnapshot_def)
  next
    case (Some n)
    then show ?thesis
      unfolding bumpNodeSnapshot_def Let_def step
      by (auto simp: rbind_Inr_conv insertSnapshot_Inr keys)
  qed
qed

lemma bumpNodeSnapshot_NotFound:
  "find_active_node i d = None \<Longrightarrow> bumpNodeSnapshot e i now d = Inl ErrNotFound"
  by (simp add: bumpNodeSnapshot_def)

section \<open>The version invariant\<close>

text \<open>
  Node ids and snapshot versions are unique; every snapshot is of a stored node and no newer
  than that node's desired version; a node's desired version has a live snapshot, and only it
  is live.
\<close>

definition versions_ok :: "db \<Rightarrow> bool" where
  "versions_ok d \<longleftrightarrow>
     unique_by n_id (db_nodes d) \<and> unique_by skey (db_snapshots d) \<and>
     (\<forall>s\<in>set (db_snapshots d). ds_node_id (s_snapshot s) = s_node_id s \<and>
        ds_version (s_snapshot s) = s_version s) \<and>
     (\<forall>n\<in>set (db_nodes d). \<forall>s\<in>set (db_snapshots d). s_node_id s = n_id n \<longrightarrow>
        s_version s \<le> n_desired_version n \<and>
        (s_superseded_at s = None \<longleftrightarrow> s_version s = n_desired_version n)) \<and>
     (\<forall>n\<in>set (db_nodes d). \<exists>s\<in>set (db_snapshots d). skey s = (n_id n, n_desired_version n)) \<and>
     (\<forall>s\<in>set (db_snapshots d). s_node_id s \<in> n_id ` set (db_nodes d))"

definition desired_version :: "db \<Rightarrow> string \<Rightarrow> int option" where
  "desired_version d i = map_option n_desired_version (find_node i d)"

lemma versions_ok_uniqueD: "versions_ok d \<Longrightarrow> unique_by n_id (db_nodes d)"
  by (simp add: versions_ok_def)

lemma bumped_node_conv:
  assumes "unique_by n_id (db_nodes d)" "n \<in> set (db_nodes d)"
  shows "m \<in> set (db_nodes (bumped (n_id n) v now d)) \<longleftrightarrow>
    m = bump_row v now n \<or> m \<in> set (db_nodes d) \<and> n_id m \<noteq> n_id n"
  using assms unique_byD [OF assms(1)]
  by (auto simp: bumped_def set_sql_update bump_row_def image_iff split: if_splits)

text \<open>Publishing the next version: whatever snapshot is inserted, the invariant is kept.\<close>

lemma versions_ok_published:
  assumes inv: "versions_ok d" and n: "find_active_node i d = Some n" "v = n_desired_version n + 1"
    and f: "ds_node_id snap = i \<and> ds_version snap = v"
    and fresh: "\<forall>s\<in>set (db_snapshots d). skey s \<noteq> (i, v)"
    and d': "d' = (bumped i v now d)\<lparr>db_snapshots :=
       db_snapshots (bumped i v now d) @ [snapshot_row_of e now snap]\<rparr>"
  shows "versions_ok d'"
proof -
  have nd: "n \<in> set (db_nodes d)" "n_id n = i" using find_active_nodeD [OF n(1)] by simp_all
  have uniq: "unique_by n_id (db_nodes d)" "unique_by skey (db_snapshots d)"
    and msg: "\<And>s. s \<in> set (db_snapshots d) \<Longrightarrow> ds_node_id (s_snapshot s) = s_node_id s \<and>
        ds_version (s_snapshot s) = s_version s"
    and live: "\<And>m s. m \<in> set (db_nodes d) \<Longrightarrow> s \<in> set (db_snapshots d) \<Longrightarrow> s_node_id s = n_id m \<Longrightarrow>
        s_version s \<le> n_desired_version m \<and>
        (s_superseded_at s = None \<longleftrightarrow> s_version s = n_desired_version m)"
    and ex: "\<And>m. m \<in> set (db_nodes d) \<Longrightarrow>
        \<exists>s\<in>set (db_snapshots d). skey s = (n_id m, n_desired_version m)"
    and known: "\<And>s. s \<in> set (db_snapshots d) \<Longrightarrow> s_node_id s \<in> n_id ` set (db_nodes d)"
    using inv by (simp_all add: versions_ok_def)
  have nodes: "m \<in> set (db_nodes d') \<longleftrightarrow>
      m = bump_row v now n \<or> m \<in> set (db_nodes d) \<and> n_id m \<noteq> i" for m
    using bumped_node_conv [OF uniq(1) nd(1), of m v now] nd(2) by (simp add: d')
  have snaps: "set (db_snapshots d') = insert (snapshot_row_of e now snap)
      ((\<lambda>s. if s_node_id s = i \<and> s_superseded_at s = None then supersede_row now s else s) `
        set (db_snapshots d))"
    by (simp add: d' bumped_def set_sql_update)
  have u1: "unique_by n_id (db_nodes d')"
    using bump_node.unique_update [OF uniq(1)] by (simp add: d' bumped_def)
  have u2: "unique_by skey (db_snapshots d')"
    using supersede.unique_update [OF uniq(2)] fresh f
    by (auto simp: d' bumped_def unique_by_append1 set_sql_update supersede.key_kept
        snapshot_row_of_def skey_def supersede_row_def split: if_splits)
  have m1: "\<forall>s\<in>set (db_snapshots d'). ds_node_id (s_snapshot s) = s_node_id s \<and>
      ds_version (s_snapshot s) = s_version s"
    using msg by (auto simp: snaps snapshot_row_of_def supersede_row_def)
  have m2: "s_version s \<le> n_desired_version m \<and>
      (s_superseded_at s = None \<longleftrightarrow> s_version s = n_desired_version m)"
    if m: "m \<in> set (db_nodes d')" and s: "s \<in> set (db_snapshots d')" and eq: "s_node_id s = n_id m"
    for m s
  proof (cases "n_id m = i")
    case True
    with m nd have "m = bump_row v now n" by (auto simp: nodes)
    then show ?thesis using s eq live [OF nd(1)] f n nd
      by (force simp: snaps snapshot_row_of_def supersede_row_def bump_row_def)
  next
    case False
    with m nd have md: "m \<in> set (db_nodes d)" by (auto simp: nodes bump_row_def)
    from s eq False f have "s \<in> set (db_snapshots d)"
      by (auto simp: snaps snapshot_row_of_def supersede_row_def split: if_splits)
    then show ?thesis using live [OF md] eq by blast
  qed
  have m3: "\<exists>s\<in>set (db_snapshots d'). skey s = (n_id m, n_desired_version m)"
    if m: "m \<in> set (db_nodes d')" for m
  proof (cases "n_id m = i")
    case True
    with m nd have "m = bump_row v now n" by (auto simp: nodes)
    then show ?thesis using f nd by (auto simp: snaps bump_row_def snapshot_row_of_def skey_def)
  next
    case False
    with m nd have "m \<in> set (db_nodes d)" by (auto simp: nodes bump_row_def)
    from ex [OF this] have "\<exists>s\<in>set (db_snapshots (bumped i v now d)). skey s = (n_id m, n_desired_version m)"
      by (simp add: bumped_def supersede.ex_key_update [where Q = "\<lambda>x. x = (n_id m, n_desired_version m)"])
    then show ?thesis by (auto simp: d')
  qed
  have "n_id ` set (db_nodes d') = n_id ` set (db_nodes d)"
    unfolding set_map [symmetric] d' bumped_def by (simp add: bump_node.map_key_update del: set_map)
  then have m4: "\<forall>s\<in>set (db_snapshots d'). s_node_id s \<in> n_id ` set (db_nodes d')"
    using known f nd by (auto simp: snaps snapshot_row_of_def supersede_row_def)
  show ?thesis unfolding versions_ok_def using u1 u2 m1 m2 m3 m4 by blast
qed

lemma versions_ok_bump:
  assumes "versions_ok d" and "bumpNodeSnapshot e i now d = Inr (v, d')"
  shows "versions_ok d'"
proof -
  from assms(2) obtain n snap where n: "find_active_node i d = Some n" "v = n_desired_version n + 1"
    and snap: "build_snapshot i (n_adapter_type n) v now (bumped i v now d) = Inr snap"
    and r: "\<forall>s\<in>set (db_snapshots d). skey s \<noteq> (i, v)" "d' = (bumped i v now d)\<lparr>db_snapshots :=
       db_snapshots (bumped i v now d) @ [snapshot_row_of e now snap]\<rparr>"
    unfolding bumpNodeSnapshot_Inr by blast
  show ?thesis
    by (rule versions_ok_published [OF assms(1) n _ r]) (use build_snapshot_fields [OF snap] in simp)
qed

lemma bump_version:
  assumes "versions_ok d" and "bumpNodeSnapshot e i now d = Inr (v, d')"
  shows "desired_version d i = Some (v - 1) \<and> desired_version d' i = Some v"
proof -
  from assms(2) obtain n snap where n: "find_active_node i d = Some n" "v = n_desired_version n + 1"
    and d': "d' = (bumped i v now d)\<lparr>db_snapshots :=
       db_snapshots (bumped i v now d) @ [snapshot_row_of e now snap]\<rparr>"
    unfolding bumpNodeSnapshot_Inr by blast
  have "find_node i d = Some n"
    using assms(1) n(1) by (auto simp: versions_ok_def intro: find_active_find_node)
  then show ?thesis
    using n(2) bump_node.lookup_update [of i "\<lambda>x. n_id x = i" v now "db_nodes d"]
    by (auto simp: desired_version_def find_node_def d' bumped_def bump_row_def dest: sql_first_SomeD)
qed

lemma bump_version_other:
  assumes "bumpNodeSnapshot e i now d = Inr (v, d')" and "j \<noteq> i"
  shows "find_node j d' = find_node j d"
proof -
  have "find_node j (bumped i v now d) = find_node j d"
    using assms(2) bump_node.lookup_update [of j "\<lambda>x. n_id x = i" v now "db_nodes d"]
    by (cases "find_node j d") (auto simp: find_node_def bumped_def dest: sql_first_SomeD)
  then show ?thesis using assms(1) by (auto simp: bumpNodeSnapshot_Inr find_node_def)
qed

section \<open>Clients of the version store\<close>

text \<open>
  What every operation that changes desired state relies on: a bump hands out the next
  version of the node, keeps the invariant and leaves other nodes alone.  A client bumps
  each node it touched and then marks rows of that node; the result is that exactly the
  touched nodes move, by exactly one version.
\<close>

locale version_store =
  fixes bump :: "'e \<Rightarrow> string \<Rightarrow> gotime \<Rightarrow> 's \<Rightarrow> store_error + int \<times> 's"
    and ver :: "'s \<Rightarrow> string \<Rightarrow> int option"
    and inv :: "'s \<Rightarrow> bool"
  assumes bump_inv: "inv d \<Longrightarrow> bump e i t d = Inr (v, d') \<Longrightarrow> inv d'"
    and bump_ver: "inv d \<Longrightarrow> bump e i t d = Inr (v, d') \<Longrightarrow> ver d i = Some (v - 1) \<and> ver d' i = Some v"
    and bump_frame: "bump e i t d = Inr (v, d') \<Longrightarrow> j \<noteq> i \<Longrightarrow> ver d' j = ver d j"

locale version_client = version_store +
  fixes mark :: "string \<Rightarrow> int \<Rightarrow> gotime \<Rightarrow> 's \<Rightarrow> 's"
  assumes mark_inv: "inv d \<Longrightarrow> inv (mark i v t d)"
    and mark_ver: "ver (mark i v t d) = ver d"
begin

lemma touch_one:
  assumes "inv d" and "rbind (bump e i t d) (\<lambda>(v, d1). Inr (mark i v t d1)) = Inr d'"
  shows "inv d'" and "ver d i \<noteq> None"
    and "ver d' j = (if j = i then map_option (\<lambda>v. v + 1) (ver d j) else ver d j)"
proof -
  from assms(2) obtain v d1 where b: "bump e i t d = Inr (v, d1)" and d': "d' = mark i v t d1"
    by (auto simp: rbind_Inr_conv)
  show "inv d'" using bump_inv [OF assms(1) b] d' by (simp add: mark_inv)
  show "ver d i \<noteq> None" using bump_ver [OF assms(1) b] by simp
  show "ver d' j = (if j = i then map_option (\<lambda>v. v + 1) (ver d j) else ver d j)"
    using bump_ver [OF assms(1) b] bump_frame [OF b] d' by (simp add: mark_ver)
qed

lemma touch_all:
  assumes "inv d" and "distinct is"
    and "rfold (\<lambda>i d. rbind (bump e i t d) (\<lambda>(v, d1). Inr (mark i v t d1))) is d = Inr d'"
  shows "inv d' \<and> (\<forall>i\<in>set is. ver d i \<noteq> None) \<and>
    (\<forall>j. ver d' j = (if j \<in> set is then map_option (\<lambda>v. v + 1) (ver d j) else ver d j))"
  using assms
proof (induction "is" arbitrary: d)
  case Nil
  then show ?case by simp
next
  case (Cons i "is")
  from Cons.prems(3) obtain d1 where
    d1: "rbind (bump e i t d) (\<lambda>(v, d1). Inr (mark i v t d1)) = Inr d1"
    and r: "rfold (\<lambda>i d. rbind (bump e i t d) (\<lambda>(v, d1). Inr (mark i v t d1))) is d1 = Inr d'"
    by (auto simp: rbind_Inr_conv)
  note t1 = touch_one [OF Cons.prems(1) d1]
  from Cons.IH [OF t1(1) _ r] Cons.prems(2) have IH: "inv d'" "\<forall>i\<in>set is. ver d1 i \<noteq> None"
    "\<forall>j. ver d' j = (if j \<in> set is then map_option (\<lambda>v. v + 1) (ver d1 j) else ver d1 j)"
    by simp_all
  have "ver d j \<noteq> None" if "j \<in> set (i # is)" for j
  proof (cases "j = i")
    case True
    with t1(2) show ?thesis by simp
  next
    case False
    with that have "ver d1 j \<noteq> None" using IH(2) by simp
    with False t1(3) [of j] show ?thesis by simp
  qed
  with IH(1,3) Cons.prems(2) show ?case by (auto simp: t1(3))
qed

end

text \<open>Marking assignments touches neither nodes nor snapshots.\<close>

definition mark_changed :: "changed_set \<Rightarrow> string \<Rightarrow> int \<Rightarrow> gotime \<Rightarrow> db \<Rightarrow> db" where
  "mark_changed changed nodeID version now =
     fold (\<lambda>userID. markAssignmentPending userID nodeID version now) (changed_users changed nodeID)"

lemma markAssignmentPending_alt:
  "markAssignmentPending u i v now d =
     d\<lparr>db_assignments := sql_update (\<lambda>a. a_user_id a = u \<and> a_node_id a = i) (pending_row v now) (db_assignments d)\<rparr>"
  by (simp add: markAssignmentPending_def update_assignments_def pending_row_def [abs_def])

lemma mark_changed_frame:
  "\<exists>t. mark_changed changed i v now d = d\<lparr>db_assignments := t\<rparr> \<and> map akey t = map akey (db_assignments d)"
proof -
  have "\<exists>t. fold (\<lambda>u. markAssignmentPending u i v now) us d = d\<lparr>db_assignments := t\<rparr> \<and>
      map akey t = map akey (db_assignments d)" for us
  proof (induction us arbitrary: d)
    case Nil
    show ?case by (rule exI [of _ "db_assignments d"]) simp
  next
    case (Cons u us)
    from Cons [of "markAssignmentPending u i v now d"] show ?case
      by (auto simp: markAssignmentPending_alt pending.map_key_update)
  qed
  then show ?thesis by (simp add: mark_changed_def)
qed

lemma versions_ok_cong:
  "db_nodes d' = db_nodes d \<Longrightarrow> db_snapshots d' = db_snapshots d \<Longrightarrow> versions_ok d' = versions_ok d"
  by (simp add: versions_ok_def)

text \<open>The invariant reads only ids and desired versions of nodes, so an UPDATE of other columns
  keeps it.\<close>

definition node_version_view :: "node_row \<Rightarrow> string \<times> int" where
  "node_version_view n = (n_id n, n_desired_version n)"

lemma versions_ok_view:
  assumes nodes: "map node_version_view (db_nodes d') = map node_version_view (db_nodes d)"
    and snaps: "db_snapshots d' = db_snapshots d"
  shows "versions_ok d' = versions_ok d"
proof -
  have all: "(\<forall>n\<in>set ns. P (n_id n) (n_desired_version n)) \<longleftrightarrow> (\<forall>x\<in>set (map node_version_view ns). P (fst x) (snd x))"
    for P and ns :: "node_row list" by (simp add: node_version_view_def)
  have ids: "map n_id ns = map fst (map node_version_view ns)" for ns by (simp add: node_version_view_def)
  have known: "n_id ` set ns = fst ` set (map node_version_view ns)" for ns
    by (force simp: node_version_view_def)
  show ?thesis
    unfolding versions_ok_def unique_by_def snaps known
    by (subst (1 2) ids, subst (1 2) all [where P = "\<lambda>i v. \<forall>s\<in>set (db_snapshots d). s_node_id s = i \<longrightarrow>
        s_version s \<le> v \<and> (s_superseded_at s = None \<longleftrightarrow> s_version s = v)"],
      subst (1 2) all [where P = "\<lambda>i v. \<exists>s\<in>set (db_snapshots d). skey s = (i, v)"]) (simp only: nodes)
qed

lemma desired_version_cong: "db_nodes d' = db_nodes d \<Longrightarrow> desired_version d' = desired_version d"
  by (simp add: desired_version_def find_node_def fun_eq_iff)

interpretation desired: version_client bumpNodeSnapshot desired_version versions_ok "mark_changed changed"
  for changed
proof unfold_locales
  show "versions_ok d \<Longrightarrow> bumpNodeSnapshot e i t d = Inr (v, d') \<Longrightarrow> versions_ok d'" for d d' e i t v
    by (rule versions_ok_bump)
  show "versions_ok d \<Longrightarrow> bumpNodeSnapshot e i t d = Inr (v, d') \<Longrightarrow>
      desired_version d i = Some (v - 1) \<and> desired_version d' i = Some v" for d d' e i t v
    by (rule bump_version)
  show "bumpNodeSnapshot e i t d = Inr (v, d') \<Longrightarrow> j \<noteq> i \<Longrightarrow> desired_version d' j = desired_version d j"
    for d d' e i j t v by (simp add: desired_version_def bump_version_other)
  fix d i v t
  obtain as where "mark_changed changed i v t d = d\<lparr>db_assignments := as\<rparr>"
    using mark_changed_frame by blast
  then show "versions_ok d \<Longrightarrow> versions_ok (mark_changed changed i v t d)"
    "desired_version (mark_changed changed i v t d) = desired_version d"
    by (simp_all add: versions_ok_cong [of "d\<lparr>db_assignments := as\<rparr>" d]
        desired_version_cong [of "d\<lparr>db_assignments := as\<rparr>" d])
qed

lemma bumpChangedNode_alt:
  "bumpChangedNode e changed now =
     (\<lambda>i d. rbind (bumpNodeSnapshot e i now d) (\<lambda>(v, d1). Inr (mark_changed changed i v now d1)))"
  by (simp add: fun_eq_iff bumpChangedNode_def mark_changed_def)

lemma distinct_changed_nodes [simp]: "distinct (changed_nodes changed)"
  by (simp add: changed_nodes_def)

lemma set_changed_nodes [simp]: "set (changed_nodes changed) = fst ` set changed"
  by (simp add: changed_nodes_def)

lemma bumpChanged_versions:
  assumes "versions_ok d" and "bumpChangedAssignmentsTx e changed now d = Inr d'"
  shows "versions_ok d' \<and> (\<forall>j. desired_version d' j =
    (if j \<in> fst ` set changed then map_option (\<lambda>v. v + 1) (desired_version d j) else desired_version d j))"
  using desired.touch_all [OF assms(1), of "changed_nodes changed" e now changed d'] assms(2)
  by (simp add: bumpChangedAssignmentsTx_def bumpChangedNode_alt)

section \<open>When a bump succeeds\<close>

lemma rmap_Inr:
  assumes "rmap f xs = Inr ys"
  shows "y \<in> set ys \<longleftrightarrow> (\<exists>x\<in>set xs. f x = Inr y)" and "x \<in> set xs \<Longrightarrow> \<exists>y\<in>set ys. f x = Inr y"
  using assms by (induction xs arbitrary: ys) (auto simp: rbind_Inr_conv)

lemma rmap_total: "(\<And>x. x \<in> set xs \<Longrightarrow> \<exists>y. f x = Inr y) \<Longrightarrow> \<exists>ys. rmap f xs = Inr ys"
proof (induction xs)
  case (Cons x xs)
  then obtain y ys where "f x = Inr y" "rmap f xs = Inr ys" by (metis list.set_intros)
  then show ?case by simp
qed simp

lemma snapshot_rows_iff:
  "(a, u, n, c) \<in> set (snapshot_rows i d) \<longleftrightarrow>
     a \<in> set (db_assignments d) \<and> a_node_id a = i \<and> find_user (a_user_id a) d = Some u \<and>
     find_node i d = Some n \<and> find_credential (a_desired_credential_id a) d = Some c \<and>
     u_archived_at u = None \<and> (c_state c = ''staged'' \<or> c_state c = ''applied'')"
  by (fastforce simp: snapshot_rows_def split: option.splits if_splits)

text \<open>What the snapshot needs to be built: verifiers of the right length, and the Reality row.\<close>

definition buildable :: "string \<Rightarrow> db \<Rightarrow> bool" where
  "buildable i d \<longleftrightarrow>
     (\<forall>a\<in>set (db_assignments d). a_node_id a = i \<longrightarrow>
        (case find_credential (a_desired_credential_id a) d of
           None \<Rightarrow> True | Some c \<Rightarrow> length (c_verifier c) = 32)) \<and>
     (case find_node i d of None \<Rightarrow> False
      | Some n \<Rightarrow> n_adapter_type n = AdapterSingBoxVLESSReality \<longrightarrow> find_reality i d \<noteq> None)"

lemma build_snapshot_total:
  assumes "buildable i d" and "find_node i d = Some n"
  shows "\<exists>snap. build_snapshot i (n_adapter_type n) v now d = Inr snap"
proof -
  have len: "length (c_verifier c) = 32" if "(a, u, m, c) \<in> set (snapshot_rows i d)" for a u m c
    using assms(1) that by (auto simp: buildable_def snapshot_rows_iff)
  have "\<exists>us. snapshot_users i (n_adapter_type n) now d = Inr us"
    unfolding snapshot_users_def
  proof (rule rmap_total)
    fix x assume x: "x \<in> set (sort_key (\<lambda>(a, u, n, c). u_id u) (snapshot_rows i d))"
    obtain a u m c where eq: "x = (a, u, m, c)" by (metis prod_cases4)
    with x have "(a, u, m, c) \<in> set (snapshot_rows i d)" by simp
    from len [OF this] show "\<exists>y. desired_user_of (n_adapter_type n) now x = Inr y"
      by (simp add: eq desired_user_of_def Let_def)
  qed
  moreover have "\<exists>x. snapshot_sui i (n_adapter_type n) d = Inr x"
    using assms(2) by (simp add: snapshot_sui_def)
  moreover have "\<exists>x. snapshot_reality i (n_adapter_type n) d = Inr x"
    using assms by (auto simp: snapshot_reality_def buildable_def)
  ultimately show ?thesis by (auto simp: build_snapshot_def)
qed

lemma find_node_bumped: "find_node i d = Some n \<Longrightarrow> find_node i (bumped i v now d) = Some (bump_row v now n)"
  using bump_node.lookup_update [of i "\<lambda>x. n_id x = i" v now "db_nodes d"]
  by (auto simp: find_node_def bumped_def dest: sql_first_SomeD)

lemma buildable_bumped: "buildable i d \<Longrightarrow> buildable i (bumped i v now d)"
  using find_node_bumped
  by (auto simp: buildable_def bumped_def find_credential_def find_reality_def bump_row_def split: option.splits)

lemma bump_total:
  assumes "versions_ok d" and "find_active_node i d = Some n" and "buildable i d"
  shows "\<exists>d'. bumpNodeSnapshot e i now d = Inr (n_desired_version n + 1, d')"
proof -
  have fn: "find_node i d = Some n"
    using assms(1,2) by (auto simp: versions_ok_def intro: find_active_find_node)
  then have n: "n \<in> set (db_nodes d)" "n_id n = i" by (auto dest: find_nodeD)
  let ?v = "n_desired_version n + 1"
  from build_snapshot_total [OF buildable_bumped [OF assms(3)] find_node_bumped [OF fn], of ?v now ?v now]
  obtain snap where "build_snapshot i (n_adapter_type n) ?v now (bumped i ?v now d) = Inr snap"
    by (auto simp: bump_row_def)
  moreover have "\<forall>s\<in>set (db_snapshots d). skey s \<noteq> (i, ?v)"
    using assms(1) n by (fastforce simp: versions_ok_def skey_def)
  ultimately show ?thesis using assms(2) unfolding bumpNodeSnapshot_Inr by blast
qed

section \<open>What a snapshot says about users\<close>

lemma snapshot_user_sound:
  assumes "build_snapshot i adapter v now d = Inr snap" and "du \<in> set (ds_users snap)"
  shows "\<exists>a u n c. (a, u, n, c) \<in> set (snapshot_rows i d) \<and> desired_user_of adapter now (a, u, n, c) = Inr du"
proof -
  from assms have "rmap (desired_user_of adapter now)
      (sort_key (\<lambda>(a, u, n, c). u_id u) (snapshot_rows i d)) = Inr (ds_users snap)"
    by (auto simp: build_snapshot_def rbind_Inr_conv snapshot_users_def split: if_splits)
  from rmap_Inr(1) [OF this] assms(2) obtain r where
    "r \<in> set (snapshot_rows i d)" "desired_user_of adapter now r = Inr du" by auto
  then show ?thesis by (metis prod_cases4)
qed

lemma snapshot_user_complete:
  assumes "build_snapshot i adapter v now d = Inr snap" and "supportsManagedUsers adapter"
    and "r \<in> set (snapshot_rows i d)"
  shows "\<exists>du\<in>set (ds_users snap). desired_user_of adapter now r = Inr du"
  using assms rmap_Inr(2) [of "desired_user_of adapter now" _ _ r]
  by (auto simp: build_snapshot_def rbind_Inr_conv snapshot_users_def)

lemma desired_user_of_fields:
  assumes "desired_user_of adapter now (a, u, n, c) = Inr du"
  shows "du_id du = u_id u" "dc_ref (du_credential du) = c_id c"
    "du_enabled du \<Longrightarrow> u_enabled u \<and> a_enabled a \<and> n_enabled n"
    "du_quota_state du = snapshot_quota u a"
    "du_expires_at du = map_option unixTime (u_expires_at u)"
    "adapter = ''native_hysteria2'' \<Longrightarrow> dc_verifier (du_credential du) = b64_encode (c_verifier c)"
    "adapter = AdapterSingBoxVLESSReality \<Longrightarrow> du_enabled du \<Longrightarrow>
       u_expires_at u = Some x \<Longrightarrow> now < unixTime x"
  using assms by (auto simp: desired_user_of_def Let_def split: if_splits)

section \<open>Kick requests\<close>

lemma kick_row_again:
  "(\<lambda>k. k\<lparr>k_generation := k_generation k + 1, k_reason := r, k_requested_at := unixMilli now\<rparr>) =
     kick_again_row r now"
  by (simp add: fun_eq_iff kick_again_row_def)

definition kick_generation :: "db \<Rightarrow> string \<Rightarrow> string \<Rightarrow> int" where
  "kick_generation d i u =
     (case sql_first (\<lambda>k. kkey k = (i, u)) (db_kicks d) of None \<Rightarrow> 0 | Some k \<Rightarrow> k_generation k)"

lemma requestKickTx_frame:
  "requestKickTx i u reason now d = Inr d' \<Longrightarrow> \<exists>t. d' = d\<lparr>db_kicks := t\<rparr>"
  by (auto simp: requestKickTx_def Let_def split: option.splits if_splits intro: exI [of _ "db_kicks d"])

lemma requestKickTx_generation:
  assumes "requestKickTx i u reason now d = Inr d'" and "find_active_node i d = Some n"
  shows "kick_generation d' j w = kick_generation d j w +
    (if (j, w) = (i, u) \<and> kicks_supported (n_adapter_type n) then 1 else 0)"
proof (cases "kicks_supported (n_adapter_type n)")
  case False
  with assms show ?thesis by (simp add: requestKickTx_def)
next
  case True
  define row where "row = \<lparr> k_node_id = i, k_user_id = u, k_generation = 1, k_reason = take 64 reason,
      k_requested_at = unixMilli now \<rparr>"
  have key: "kkey row = (i, u)" by (simp add: row_def kkey_def)
  have d': "db_kicks d' = sql_upsert kkey row (kick_again_row (take 64 reason) now) (db_kicks d)"
    using assms True by (auto simp: requestKickTx_def Let_def kick_row_again row_def)
  have gen: "k_generation row = 1" by (simp add: row_def)
  show ?thesis
  proof (cases "(j, w) = (i, u)")
    case same: True
    have "sql_first (\<lambda>k. kkey k = (i, u)) (db_kicks d') =
        Some (case sql_first (\<lambda>k. kkey k = (i, u)) (db_kicks d) of None \<Rightarrow> row
          | Some k \<Rightarrow> kick_again_row (take 64 reason) now k)"
      using kick_again.lookup_upsert_same [of row "take 64 reason" now "db_kicks d"]
      unfolding d' key .
    with same True gen show ?thesis
      by (simp add: kick_generation_def kick_again_row_def split: option.split)
  next
    case False
    then have "sql_first (\<lambda>k. kkey k = (j, w)) (db_kicks d') = sql_first (\<lambda>k. kkey k = (j, w)) (db_kicks d)"
      using kick_again.lookup_upsert_other [of "(j, w)" row "take 64 reason" now "db_kicks d"]
      unfolding d' key by simp
    with False show ?thesis by (auto simp: kick_generation_def)
  qed
qed

lemma requestKickTx_total: "find_active_node i d = Some n \<Longrightarrow> \<exists>d'. requestKickTx i u reason now d = Inr d'"
  by (simp add: requestKickTx_def Let_def)


section \<open>Properties\<close>

text \<open>C10: One bump of a node's desired state hands out exactly the next version, keeps the version
  invariant (one live snapshot per node, at its desired version, none newer), and leaves the
  versions of all other nodes alone.\<close>

theorem bump_next_version:
  assumes "versions_ok d" and "bumpNodeSnapshot e i now d = Inr (v, d')"
  shows "versions_ok d' \<and> desired_version d i = Some (v - 1) \<and> desired_version d' i = Some v \<and>
    (\<forall>j. j \<noteq> i \<longrightarrow> desired_version d' j = desired_version d j)"
  using versions_ok_bump [OF assms] bump_version [OF assms] bump_version_other [OF assms(2)]
  by (auto simp: desired_version_def)

lemma sample_db_versions_ok: "versions_ok sample_db"
  by (simp add: versions_ok_def sample_defs unique_by_def skey_def)

definition sample_bump :: "int \<times> db" where
  "sample_bump = (case bumpNodeSnapshot sample_env ''n1'' sample_now sample_db of Inr x \<Rightarrow> x | Inl _ \<Rightarrow> (0, sample_db))"

lemma sample_bump_Inr: "bumpNodeSnapshot sample_env ''n1'' sample_now sample_db = Inr sample_bump"
proof -
  have "isl (bumpNodeSnapshot sample_env ''n1'' sample_now sample_db) = False" by code_simp
  then show ?thesis by (auto simp: sample_bump_def split: sum.splits)
qed

lemma bump_next_version_witness:
  "versions_ok (snd sample_bump) \<and> desired_version (snd sample_bump) ''n1'' = Some (fst sample_bump) \<and> fst sample_bump = 2"
proof -
  have "fst sample_bump = 2" by code_simp
  then show ?thesis
    using bump_next_version [OF sample_db_versions_ok, of sample_env "''n1''" sample_now "fst sample_bump" "snd sample_bump"]
      sample_bump_Inr by (simp add: prod_eq_iff)
qed




definition sample_built :: desired_snapshot where
  "sample_built = (case build_snapshot ''n1'' ''native_hysteria2'' 2 sample_now sample_db of Inr s \<Rightarrow> s | Inl _ \<Rightarrow> sample_snapshot)"


end
