(* ===== verification/Traffic.thy ===== *)
theory Traffic
  imports Desired_State Traffic_Cycle Sample "HOL-Library.AList"
begin

text \<open>
  Traffic accounting (internal/store/traffic.go and the node budget of traffic_budget.go):
  ingestion of the batches agents deliver, the cached totals of users, assignments and
  nodes, quota and expiry enforcement, manual kicks, online snapshots and calibration.
  The theory shows that ingestion is idempotent, that it is all or nothing, that the cached
  totals agree with the ledger of accepted batches (\<open>ledger_ok\<close>), and that a change of
  an effective quota reaches the node as a kick and a new snapshot.
\<close>

section \<open>Arithmetic and small helpers\<close>

definition checkedAdd :: "int \<Rightarrow> int \<Rightarrow> int option" where
  "checkedAdd left right =
     (if left < 0 \<or> right < 0 \<or> left > sub64 MaxInt64 right then None
      else Some (add64 left right))"

definition quotaState :: "int \<Rightarrow> int \<Rightarrow> string" where
  "quotaState limit used =
     (if limit = 0 then ''unlimited'' else if used \<ge> limit then ''limited'' else ''active'')"

definition expiryEnforcedValue :: "gotime option \<Rightarrow> gotime \<Rightarrow> int option" where
  "expiryEnforcedValue expiresAt now =
     (case expiresAt of None \<Rightarrow> None
      | Some x \<Rightarrow> if \<not> now < x then Some (unixMilli now) else None)"

definition quotaStateKey :: "string \<Rightarrow> string \<Rightarrow> string" where
  "quotaStateKey nodeID userID = nodeID @ [CHR 0x00] @ userID"

record agent_identity =
  ai_node_id :: string
  ai_installation_id :: string
  ai_adapter_type :: string
  ai_enabled :: bool

section \<open>Ingesting one batch\<close>

text \<open>
  The body of the ingestion transaction ends early in two ways: with an error, or with a
  result (duplicate, rejected) and no error.  Both leave the transaction to the deferred
  rollback.
\<close>

datatype ingest_stop = Failed store_error | Stopped string string

definition failing :: "store_error + 'a \<Rightarrow> ingest_stop + 'a" where
  "failing m = (case m of Inl e \<Rightarrow> Inl (Failed e) | Inr x \<Rightarrow> Inr x)"

definition classifyTrafficItemTx :: "string \<Rightarrow> string \<Rightarrow> db \<Rightarrow> string" where
  "classifyTrafficItemTx nodeID userID d =
     (case find_user userID d of
        None \<Rightarrow> ''unknown_user''
      | Some u \<Rightarrow>
          if u_archived_at u \<noteq> None then ''archived_user''
          else case find_assignment nodeID userID d of
                 None \<Rightarrow> ''unassigned''
               | Some a \<Rightarrow> ''accounted'')"

definition tkey :: "total_row \<Rightarrow> string \<times> string" where
  "tkey t = (t_node_id t, t_user_id t)"

definition user_traffic_row :: "int \<Rightarrow> int \<Rightarrow> int \<Rightarrow> string \<Rightarrow> int \<Rightarrow> user_row \<Rightarrow> user_row" where
  "user_traffic_row up down used quota now u = u\<lparr>u_upload := up, u_download := down, u_used := used,
     u_quota_state := quota, u_last_traffic_at := Some now, u_updated_at := now\<rparr>"

definition assignment_traffic_row ::
  "int \<Rightarrow> int \<Rightarrow> int \<Rightarrow> string \<Rightarrow> int \<Rightarrow> assignment_row \<Rightarrow> assignment_row" where
  "assignment_traffic_row up down used quota now a = a\<lparr>a_upload := up, a_download := down, a_used := used,
     a_quota_state := quota, a_last_traffic_at := Some now, a_updated_at := now\<rparr>"

definition total_again_row :: "total_row \<Rightarrow> total_row \<Rightarrow> total_row" where
  "total_again_row new t = t\<lparr>t_upload := t_upload new, t_download := t_download new,
     t_last_batch_id := t_last_batch_id new, t_updated_at := t_updated_at new\<rparr>"

definition addAccountedTrafficTx ::
  "string \<Rightarrow> string \<Rightarrow> traffic_delta \<Rightarrow> gotime \<Rightarrow> db \<Rightarrow> store_error + db" where
  "addAccountedTrafficTx nodeID batchID item now d =
     (case find_user (td_user_id item) d of
        None \<Rightarrow> Inl (ErrOther ''read user traffic cache'')
      | Some u \<Rightarrow>
     case find_assignment nodeID (td_user_id item) d of
        None \<Rightarrow> Inl (ErrOther ''read assignment traffic cache'')
      | Some a \<Rightarrow>
     case checkedAdd (td_upload item) (td_download item) of
        None \<Rightarrow> Inl (ErrOther ''traffic aggregate exceeds SQLite integer range'')
      | Some deltaUsed \<Rightarrow>
     if u_upload u > sub64 MaxInt64 (td_upload item) \<or>
        u_download u > sub64 MaxInt64 (td_download item) \<or>
        u_used u > sub64 MaxInt64 deltaUsed \<or>
        a_upload a > sub64 MaxInt64 (td_upload item) \<or>
        a_download a > sub64 MaxInt64 (td_download item) \<or>
        a_used a > sub64 MaxInt64 deltaUsed
     then Inl (ErrOther ''traffic aggregate exceeds SQLite integer range'')
     else
       let userUpload = add64 (u_upload u) (td_upload item);
           userDownload = add64 (u_download u) (td_download item);
           userUsed = add64 (u_used u) deltaUsed;
           assignmentUpload = add64 (a_upload a) (td_upload item);
           assignmentDownload = add64 (a_download a) (td_download item);
           assignmentUsed = add64 (a_used a) deltaUsed;
           total = \<lparr> t_node_id = nodeID, t_user_id = td_user_id item, t_upload = assignmentUpload,
                     t_download = assignmentDownload, t_last_batch_id = batchID,
                     t_updated_at = unixMilli now \<rparr>;
           d1 = d\<lparr>db_totals := sql_upsert tkey total (total_again_row total) (db_totals d)\<rparr>;
           d2 = update_users (\<lambda>x. u_id x = td_user_id item)
                  (user_traffic_row userUpload userDownload userUsed
                     (quotaState (u_traffic_limit u) userUsed) (unixMilli now)) d1;
           d3 = update_assignments (\<lambda>x. akey x = (nodeID, td_user_id item))
                  (assignment_traffic_row assignmentUpload assignmentDownload assignmentUsed
                     (quotaState (a_traffic_limit a) assignmentUsed) (unixMilli now)) d2
       in Inr d3)"

text \<open>\<open>SUM\<close> over an INTEGER column raises an error when it leaves the 64-bit range.\<close>

definition sum_int64 :: "int list \<Rightarrow> int option" where
  "sum_int64 xs = (if int64_range (sum_list xs) then Some (sum_list xs) else None)"

definition trafficCycleTotalsTx ::
  "string \<Rightarrow> gotime \<Rightarrow> gotime \<Rightarrow> db \<Rightarrow> store_error + int \<times> int" where
  "trafficCycleTotalsTx nodeID start endt d =
     (let rows = filter (\<lambda>b. b_node_id b = nodeID \<and> b_sampled_at b \<ge> unixMilli start \<and>
                             b_sampled_at b < unixMilli endt) (db_batches d)
      in case (sum_int64 (map b_upload rows), sum_int64 (map b_download rows)) of
           (Some upload, Some download) \<Rightarrow>
             if upload < 0 \<or> download < 0 then Inl (ErrOther ''node traffic cycle total is invalid'')
             else Inr (upload, download)
         | _ \<Rightarrow> Inl (ErrOther ''sum node traffic cycle''))"

definition clear_calibration :: "bool \<Rightarrow> node_traffic \<Rightarrow> node_traffic" where
  "clear_calibration clear t =
     (if clear then t\<lparr>nt_calibration := None, nt_calibration_proxy := None, nt_calibrated_at := None\<rparr> else t)"

definition addNodeTrafficTx ::
  "string \<Rightarrow> int \<Rightarrow> int \<Rightarrow> int \<Rightarrow> gotime \<Rightarrow> gotime \<Rightarrow> db \<Rightarrow> store_error + db" where
  "addNodeTrafficTx nodeID upload download unattributed sampledAt now d =
     (case find_node nodeID d of
        None \<Rightarrow> Inl (ErrOther ''read node traffic cache'')
      | Some n \<Rightarrow>
     let t = n_traffic n in
     if nt_upload t > sub64 MaxInt64 upload \<or> nt_download t > sub64 MaxInt64 download \<or>
        nt_unattributed t > sub64 MaxInt64 unattributed
     then Inl (ErrOther ''node traffic aggregate exceeds SQLite integer range'')
     else
     let cycleStart = trafficCycleStart now (nt_reset_day t);
         nextStart = trafficCycleNextStart cycleStart (nt_reset_day t);
         cycleChanged = (nt_cycle_started_at t \<noteq> Some (unixMilli cycleStart)) in
     rbind
       (if cycleChanged then trafficCycleTotalsTx nodeID cycleStart nextStart d
        else if \<not> sampledAt < cycleStart \<and> sampledAt < nextStart then
          (if nt_cycle_upload t > sub64 MaxInt64 upload \<or> nt_cycle_download t > sub64 MaxInt64 download
           then Inl (ErrOther ''node traffic cycle aggregate exceeds SQLite integer range'')
           else Inr (add64 (nt_cycle_upload t) upload, add64 (nt_cycle_download t) download))
        else Inr (nt_cycle_upload t, nt_cycle_download t))
       (\<lambda>(cycleUpload, cycleDownload).
     let clearCalibration = (cycleChanged \<and>
           (case nt_calibrated_at t of None \<Rightarrow> False | Some c \<Rightarrow> c < unixMilli cycleStart)) in
     Inr (update_nodes (\<lambda>x. n_id x = nodeID)
       (\<lambda>x. x\<lparr>n_traffic := clear_calibration clearCalibration ((n_traffic x)\<lparr>
                nt_upload := add64 (nt_upload t) upload,
                nt_download := add64 (nt_download t) download,
                nt_unattributed := add64 (nt_unattributed t) unattributed,
                nt_last_report_at := Some (unixMilli now),
                nt_cycle_started_at := Some (unixMilli cycleStart),
                nt_cycle_upload := cycleUpload, nt_cycle_download := cycleDownload\<rparr>),
              n_updated_at := unixMilli now\<rparr>) d)))"

section \<open>Effective quota states\<close>

record effective_quota =
  eq_node_id :: string
  eq_user_id :: string
  eq_limited :: bool

text \<open>The rows of the quota query for one user.\<close>

definition quota_rows :: "string \<Rightarrow> db \<Rightarrow> effective_quota list" where
  "quota_rows userID d =
     (case find_user userID d of
        None \<Rightarrow> []
      | Some u \<Rightarrow>
          if u_archived_at u \<noteq> None then []
          else map (\<lambda>a. \<lparr> eq_node_id = a_node_id a, eq_user_id = userID,
                  eq_limited = (u_quota_state u = ''limited'' \<or> a_quota_state a = ''limited'') \<rparr>)
                 (filter (\<lambda>a. a_user_id a = userID) (db_assignments d)))"

text \<open>The result is a Go map from \<open>quotaStateKey\<close> to the state, an association list here.\<close>

fun effectiveQuotaStates_loop ::
  "db \<Rightarrow> string list \<Rightarrow> string list \<Rightarrow> (string \<times> effective_quota) list \<Rightarrow> (string \<times> effective_quota) list" where
  "effectiveQuotaStates_loop d seen [] result = result"
| "effectiveQuotaStates_loop d seen (userID # userIDs) result =
     (if userID \<in> set seen then effectiveQuotaStates_loop d seen userIDs result
      else effectiveQuotaStates_loop d (userID # seen) userIDs
             (fold (\<lambda>s. AList.update (quotaStateKey (eq_node_id s) userID) s) (quota_rows userID d) result))"

definition effectiveQuotaStatesTx :: "string list \<Rightarrow> db \<Rightarrow> (string \<times> effective_quota) list" where
  "effectiveQuotaStatesTx userIDs d = effectiveQuotaStates_loop d [] userIDs []"

section \<open>IngestTrafficBatch\<close>

text \<open>The running totals of the batch, \<open>None\<close> when one of them would overflow.\<close>

fun batch_totals :: "traffic_delta list \<Rightarrow> int \<Rightarrow> int \<Rightarrow> (int \<times> int) option" where
  "batch_totals [] up down = Some (up, down)"
| "batch_totals (item # items) up down =
     (if up > sub64 MaxInt64 (td_upload item) \<or> down > sub64 MaxInt64 (td_download item) then None
      else batch_totals items (add64 up (td_upload item)) (add64 down (td_download item)))"

definition bskey :: "batch_row \<Rightarrow> string \<times> string \<times> string \<times> int" where
  "bskey b = (b_node_id b, b_installation_id b, b_source_epoch b, b_sequence b)"

definition bikey :: "batch_item_row \<Rightarrow> string \<times> string" where
  "bikey b = (bi_batch_id b, bi_user_id b)"

definition batch_row_of ::
  "env \<Rightarrow> agent_identity \<Rightarrow> traffic_batch \<Rightarrow> int \<Rightarrow> int \<Rightarrow> gotime \<Rightarrow> batch_row" where
  "batch_row_of e identity batch up down now = \<lparr>
     b_id = tb_id batch, b_node_id = ai_node_id identity, b_installation_id = ai_installation_id identity,
     b_source_epoch = tb_source_epoch batch, b_sequence = tb_sequence batch,
     b_sampled_at = unixMilli (tb_sampled_at batch), b_received_at = unixMilli now,
     b_item_count = int (length (tb_items batch)), b_upload = up, b_download = down,
     b_payload_sha256 = env_batch_sha256 e batch \<rparr>"

text \<open>The INSERT into \<open>traffic_batches\<close> with the constraints of the schema.\<close>

definition insert_batch :: "batch_row \<Rightarrow> db \<Rightarrow> store_error + db" where
  "insert_batch r d =
     (if find_node (b_node_id r) d = None \<or> b_sequence r < 1 \<or> b_item_count r < 1 \<or>
         b_upload r < 0 \<or> b_download r < 0 \<or>
         sql_exists (\<lambda>x. b_id x = b_id r \<or> bskey x = bskey r) (db_batches d)
      then Inl (ErrOther ''insert traffic batch'')
      else Inr (d\<lparr>db_batches := db_batches d @ [r]\<rparr>))"

definition insert_batch_item :: "batch_item_row \<Rightarrow> db \<Rightarrow> store_error + db" where
  "insert_batch_item r d =
     (if bi_upload r < 0 \<or> bi_download r < 0 then Inl (ErrOther ''insert traffic batch item'')
      else case sql_insert bikey r (db_batch_items d) of
             None \<Rightarrow> Inl (ErrOther ''insert traffic batch item'')
           | Some t \<Rightarrow> Inr (d\<lparr>db_batch_items := t\<rparr>))"

definition ingest_item ::
  "agent_identity \<Rightarrow> string \<Rightarrow> gotime \<Rightarrow> traffic_delta \<Rightarrow> int \<times> db \<Rightarrow> ingest_stop + int \<times> db" where
  "ingest_item identity batchID now item = (\<lambda>(unattributed, d).
     let disposition = classifyTrafficItemTx (ai_node_id identity) (td_user_id item) d in
     rbind (failing (insert_batch_item \<lparr> bi_batch_id = batchID, bi_node_id = ai_node_id identity,
              bi_user_id = td_user_id item, bi_upload = td_upload item, bi_download = td_download item,
              bi_disposition = disposition \<rparr> d)) (\<lambda>d1.
     if disposition \<noteq> ''accounted'' then
       (case checkedAdd (td_upload item) (td_download item) of
          None \<Rightarrow> Inl (Stopped ''rejected'' ''batch_total_overflow'')
        | Some itemTotal \<Rightarrow>
            if unattributed > sub64 MaxInt64 itemTotal
            then Inl (Stopped ''rejected'' ''batch_total_overflow'')
            else Inr (add64 unattributed itemTotal, d1))
     else rbind (failing (addAccountedTrafficTx (ai_node_id identity) batchID item now d1)) (\<lambda>d2.
       Inr (unattributed, d2))))"

text \<open>One entry of the map of states after the batch (the order of a Go map is not fixed;
  the model visits it in the order of insertion).\<close>

definition quota_change ::
  "(string \<times> effective_quota) list \<Rightarrow> gotime \<Rightarrow> string \<times> effective_quota \<Rightarrow>
     changed_set \<times> db \<Rightarrow> store_error + changed_set \<times> db" where
  "quota_change prior now = (\<lambda>(key, current) (changed, d).
     if (case map_of prior key of None \<Rightarrow> False | Some previous \<Rightarrow> eq_limited previous = eq_limited current)
     then Inr (changed, d)
     else rbind (if eq_limited current
                 then requestKickTx (eq_node_id current) (eq_user_id current) ''quota_limited'' now d
                 else Inr d)
            (\<lambda>d1. Inr (addChangedAssignment (eq_node_id current) (eq_user_id current) changed, d1)))"

definition ingest_body ::
  "env \<Rightarrow> agent_identity \<Rightarrow> traffic_batch \<Rightarrow> gotime \<Rightarrow> db \<Rightarrow> ingest_stop + db" where
  "ingest_body e identity batch now d =
     (case sql_first (\<lambda>b. b_id b = tb_id batch) (db_batches d) of
        Some b \<Rightarrow>
          if b_payload_sha256 b = env_batch_sha256 e batch then Inl (Stopped ''duplicate'' '''')
          else Inl (Stopped ''rejected'' ''batch_id_conflict'')
      | None \<Rightarrow>
     if sql_exists (\<lambda>b. bskey b = (ai_node_id identity, ai_installation_id identity,
                                   tb_source_epoch batch, tb_sequence batch)) (db_batches d)
     then Inl (Stopped ''rejected'' ''sequence_conflict'')
     else
     case batch_totals (tb_items batch) 0 0 of
        None \<Rightarrow> Inl (Stopped ''rejected'' ''batch_total_overflow'')
      | Some (uploadTotal, downloadTotal) \<Rightarrow>
     let userIDs = map td_user_id (tb_items batch);
         prior = effectiveQuotaStatesTx userIDs d in
     rbind (failing (insert_batch (batch_row_of e identity batch uploadTotal downloadTotal now) d)) (\<lambda>d1.
     rbind (rfold (ingest_item identity (tb_id batch) now) (tb_items batch) (0, d1)) (\<lambda>(unattributed, d2).
     rbind (failing (addNodeTrafficTx (ai_node_id identity) uploadTotal downloadTotal unattributed
              (tb_sampled_at batch) now d2)) (\<lambda>d3.
     rbind (failing (rfold (quota_change prior now) (effectiveQuotaStatesTx userIDs d3) ([], d3))) (\<lambda>(changed, d4).
     failing (bumpChangedAssignmentsTx e changed now d4))))))"

definition IngestTrafficBatch ::
  "env \<Rightarrow> agent_identity \<Rightarrow> traffic_batch \<Rightarrow> gotime \<Rightarrow> db \<Rightarrow> (store_error + string \<times> string) \<times> db" where
  "IngestTrafficBatch e identity batch now d =
     (if tb_installation_id batch \<noteq> ai_installation_id identity
      then (Inr (''rejected'', ''installation_conflict''), d)
      else case ingest_body e identity batch now d of
             Inl (Failed err) \<Rightarrow> (Inl err, d)
           | Inl (Stopped status code) \<Rightarrow> (Inr (status, code), d)
           | Inr d' \<Rightarrow> (Inr (''accepted'', ''''), d'))"

section \<open>Online snapshots\<close>

definition okey :: "online_user_row \<Rightarrow> string \<times> string" where
  "okey r = (o_node_id r, o_user_id r)"

text \<open>\<open>math.MaxInt\<close> on a 64-bit platform.\<close>

definition online_step ::
  "agent_identity \<Rightarrow> int \<Rightarrow> online_user \<Rightarrow> (int \<times> int \<times> int) \<times> db \<Rightarrow>
     store_error + (int \<times> int \<times> int) \<times> db" where
  "online_step identity sampledAt user = (\<lambda>((totalConnections, knownUsers, unknownUsers), d).
     if totalConnections > sub64 MaxInt64 (ou_connections user)
     then Inl (ErrOther ''online connection total exceeds integer range'')
     else
       let known = (find_assignment (ai_node_id identity) (ou_user_id user) d \<noteq> None);
           row = \<lparr> o_node_id = ai_node_id identity, o_user_id = ou_user_id user,
                   o_connections = ou_connections user, o_known_assignment = known,
                   o_sampled_at = sampledAt \<rparr>
       in if ou_connections user < 1 then Inl (ErrOther ''insert online user'')
          else case sql_insert okey row (db_online_users d) of
            None \<Rightarrow> Inl (ErrOther ''insert online user'')
          | Some t \<Rightarrow> Inr ((add64 totalConnections (ou_connections user),
              (if known then knownUsers + 1 else knownUsers),
              (if known then unknownUsers else unknownUsers + 1)), d\<lparr>db_online_users := t\<rparr>))"

definition RecordOnlineSnapshot ::
  "agent_identity \<Rightarrow> online_snapshot \<Rightarrow> gotime \<Rightarrow> db \<Rightarrow> (store_error + bool) \<times> db" where
  "RecordOnlineSnapshot identity snapshot now d =
     (if os_installation_id snapshot \<noteq> ai_installation_id identity then (Inl ErrConflict, d)
      else if (case sql_first (\<lambda>r. os_node_id r = ai_node_id identity) (db_online_snapshots d) of
                 None \<Rightarrow> False
               | Some previous \<Rightarrow> unixMilli (os_sampled_at snapshot) \<le> os_row_sampled_at previous)
      then (Inr False, d)
      else transact (\<lambda>d.
        rbind (rfold (online_step identity (unixMilli (os_sampled_at snapshot))) (os_users snapshot)
          ((0, 0, 0), d\<lparr>db_online_users :=
             sql_delete (\<lambda>r. o_node_id r = ai_node_id identity) (db_online_users d)\<rparr>))
        (\<lambda>((totalConnections, knownUsers, unknownUsers), d1).
        let row = \<lparr> os_node_id = ai_node_id identity,
              os_agent_installation_id = ai_installation_id identity,
              os_row_snapshot_id = os_snapshot_id snapshot,
              os_row_sampled_at = unixMilli (os_sampled_at snapshot), os_received_at = unixMilli now,
              os_total_connections = totalConnections, os_known_users = knownUsers,
              os_unknown_users = unknownUsers \<rparr>;
            d2 = d1\<lparr>db_online_snapshots := sql_upsert os_node_id row (\<lambda>_. row) (db_online_snapshots d1)\<rparr>
        in Inr (True, update_nodes (\<lambda>x. n_id x = ai_node_id identity)
             (\<lambda>x. x\<lparr>n_online := \<lparr> no_users = knownUsers, no_connections = totalConnections,
                     no_unknown_users = unknownUsers,
                     no_sampled_at = Some (unixMilli (os_sampled_at snapshot)),
                     no_last_report_at = Some (unixMilli now) \<rparr>, n_updated_at := unixMilli now\<rparr>) d2))) d)"

section \<open>Kicks, expiry and calibration\<close>

definition kick_nodes :: "string \<Rightarrow> string \<Rightarrow> db \<Rightarrow> string list" where
  "kick_nodes userID nodeID d =
     sort (map a_node_id (filter (\<lambda>a. a_user_id a = userID \<and> (nodeID \<noteq> '''' \<longrightarrow> a_node_id a = nodeID) \<and>
       (case find_active_node (a_node_id a) d of None \<Rightarrow> False
        | Some n \<Rightarrow> kicks_supported (n_adapter_type n))) (db_assignments d)))"

definition kick_step ::
  "string \<Rightarrow> string \<Rightarrow> gotime \<Rightarrow> string \<Rightarrow> changed_set \<times> db \<Rightarrow> store_error + changed_set \<times> db" where
  "kick_step userID reason now nodeID = (\<lambda>(changed, d).
     rbind (requestKickTx nodeID userID reason now d) (\<lambda>d1.
     Inr (addChangedAssignment nodeID userID changed, d1)))"

definition RequestUserKick ::
  "env \<Rightarrow> string \<Rightarrow> string \<Rightarrow> gotime \<Rightarrow> db \<Rightarrow> (store_error + int) \<times> db" where
  "RequestUserKick e userID nodeID now = transact (\<lambda>d.
     if find_active_user userID d = None then Inl ErrNotFound
     else
       let nodeIDs = kick_nodes userID nodeID d in
       if nodeIDs = [] then Inl ErrNotFound
       else rbind (rfold (kick_step userID ''manual'' now) nodeIDs ([], d)) (\<lambda>(changed, d1).
            rbind (bumpChangedAssignmentsTx e changed now d1) (\<lambda>d2. Inr (int (length nodeIDs), d2))))"

definition assignmentNodeIDs :: "string \<Rightarrow> db \<Rightarrow> string list" where
  "assignmentNodeIDs userID d = sort (map a_node_id (filter (\<lambda>a. a_user_id a = userID) (db_assignments d)))"

definition expired_users :: "gotime \<Rightarrow> db \<Rightarrow> user_row list" where
  "expired_users now d =
     sort_key (\<lambda>u. the (u_expires_at u)) (filter (\<lambda>u. u_archived_at u = None \<and> u_enabled u \<and>
       (case u_expires_at u of None \<Rightarrow> False | Some x \<Rightarrow> x \<le> unixMilli now) \<and>
       u_expiry_enforced_at u = None) (db_users d))"

definition expiry_due :: "string \<Rightarrow> gotime \<Rightarrow> user_row \<Rightarrow> bool" where
  "expiry_due userID now u \<longleftrightarrow> u_id u = userID \<and> u_expiry_enforced_at u = None \<and>
     (case u_expires_at u of None \<Rightarrow> False | Some x \<Rightarrow> x \<le> unixMilli now)"

definition enforce_step ::
  "gotime \<Rightarrow> string \<Rightarrow> (int \<times> changed_set) \<times> db \<Rightarrow> store_error + (int \<times> changed_set) \<times> db" where
  "enforce_step now userID = (\<lambda>((enforced, changed), d).
     if \<not> sql_exists (expiry_due userID now) (db_users d) then Inr ((enforced, changed), d)
     else
       let d1 = update_users (expiry_due userID now)
                  (\<lambda>u. u\<lparr>u_expiry_enforced_at := Some (unixMilli now), u_updated_at := unixMilli now\<rparr>) d in
       rbind (rfold (kick_step userID ''expired'' now) (assignmentNodeIDs userID d1) (changed, d1))
         (\<lambda>(changed1, d2). Inr ((enforced + 1, changed1), d2)))"

definition EnforceExpiredUsers :: "env \<Rightarrow> gotime \<Rightarrow> int \<Rightarrow> db \<Rightarrow> (store_error + int) \<times> db" where
  "EnforceExpiredUsers e now limit d =
     (let limit = (if limit < 1 then 100 else limit);
          userIDs = map u_id (take (nat limit) (expired_users now d)) in
      if userIDs = [] then (Inr 0, d)
      else transact (\<lambda>d.
        rbind (rfold (enforce_step now) userIDs ((0, []), d)) (\<lambda>((enforced, changed), d1).
        rbind (bumpChangedAssignmentsTx e changed now d1) (\<lambda>d2. Inr (enforced, d2)))) d)"

definition EffectiveNodeTrafficUsed :: "node_traffic \<Rightarrow> int" where
  "EffectiveNodeTrafficUsed t =
     (case checkedAdd (nt_cycle_upload t) (nt_cycle_download t) of
        None \<Rightarrow> MaxInt64
      | Some proxyUsed \<Rightarrow>
          (case (nt_calibration t, nt_calibration_proxy t) of
             (Some calibration, Some proxy) \<Rightarrow>
               let delta0 = sub64 proxyUsed proxy;
                   delta = (if delta0 < 0 then 0 else delta0) in
               if calibration > sub64 MaxInt64 delta then MaxInt64 else add64 calibration delta
           | _ \<Rightarrow> proxyUsed))"

definition CalibrateNodeTraffic ::
  "string \<Rightarrow> int \<Rightarrow> gotime \<Rightarrow> db \<Rightarrow> (store_error + unit) \<times> db" where
  "CalibrateNodeTraffic nodeID providerUsedBytes now d =
     (if providerUsedBytes < 0 then (Inl ErrConflict, d)
      else transact (\<lambda>d.
        case find_active_node nodeID d of
          None \<Rightarrow> Inl ErrNotFound
        | Some n \<Rightarrow>
            let resetDay = nt_reset_day (n_traffic n);
                cycleStart = trafficCycleStart now resetDay in
            rbind (trafficCycleTotalsTx nodeID cycleStart (trafficCycleNextStart cycleStart resetDay) d)
              (\<lambda>(cycleUpload, cycleDownload).
            case checkedAdd cycleUpload cycleDownload of
              None \<Rightarrow> Inl (ErrOther ''node traffic cycle exceeds SQLite integer range'')
            | Some proxyUsed \<Rightarrow>
                Inr ((), update_nodes (\<lambda>x. n_id x = nodeID)
                  (\<lambda>x. x\<lparr>n_traffic := (n_traffic x)\<lparr>
                      nt_cycle_started_at := Some (unixMilli cycleStart),
                      nt_cycle_upload := cycleUpload, nt_cycle_download := cycleDownload,
                      nt_calibration := Some providerUsedBytes, nt_calibration_proxy := Some proxyUsed,
                      nt_calibrated_at := Some (unixMilli now)\<rparr>,
                    n_updated_at := unixMilli now\<rparr>) d))) d)"

section \<open>Arithmetic of the counters\<close>

lemma checkedAdd_Some:
  assumes "int64_range r"
  shows "checkedAdd l r = Some s \<longleftrightarrow> 0 \<le> l \<and> 0 \<le> r \<and> l + r \<le> MaxInt64 \<and> s = l + r"
proof (cases "0 \<le> l \<and> 0 \<le> r")
  case True
  with assms have "sub64 MaxInt64 r = MaxInt64 - r" by (simp add: int64_range_def)
  with True show ?thesis by (auto simp: checkedAdd_def)
qed (auto simp: checkedAdd_def)

lemma checkedAdd_eq:
  assumes "int64_range r"
  shows "checkedAdd l r = (if 0 \<le> l \<and> 0 \<le> r \<and> l + r \<le> MaxInt64 then Some (l + r) else None)"
  using checkedAdd_Some [OF assms, of l] by (cases "checkedAdd l r") auto

definition item_ok :: "traffic_delta \<Rightarrow> bool" where
  "item_ok item \<longleftrightarrow> int64_range (td_upload item) \<and> int64_range (td_download item)"

text \<open>The totals of a batch are the sums of its items; a negative item or an overflow
  rejects the batch.\<close>

lemma batch_totals_eq:
  assumes "\<forall>item\<in>set items. item_ok item"
    and "0 \<le> up" "up \<le> MaxInt64" "0 \<le> down" "down \<le> MaxInt64"
  shows "batch_totals items up down =
    (if (\<forall>item\<in>set items. 0 \<le> td_upload item \<and> 0 \<le> td_download item) \<and>
        up + sum_list (map td_upload items) \<le> MaxInt64 \<and> down + sum_list (map td_download items) \<le> MaxInt64
     then Some (up + sum_list (map td_upload items), down + sum_list (map td_download items)) else None)"
  using assms
proof (induction items arbitrary: up down)
  case Nil
  then show ?case by simp
next
  case (Cons item items)
  have g: "sub64 MaxInt64 (td_upload item) < up \<longleftrightarrow> td_upload item < 0 \<or> MaxInt64 < up + td_upload item"
    "sub64 MaxInt64 (td_download item) < down \<longleftrightarrow> td_download item < 0 \<or> MaxInt64 < down + td_download item"
    using Cons.prems by (simp_all add: overflow_guard item_ok_def)
  show ?case
  proof (cases "td_upload item < 0 \<or> MaxInt64 < up + td_upload item \<or>
      td_download item < 0 \<or> MaxInt64 < down + td_download item")
    case True
    moreover have "0 \<le> sum_list (map td_upload items)" "0 \<le> sum_list (map td_download items)"
      if "\<forall>item\<in>set items. 0 \<le> td_upload item \<and> 0 \<le> td_download item"
      using that by (auto intro!: sum_list_nonneg)
    ultimately have "\<not> ((\<forall>x\<in>set (item # items). 0 \<le> td_upload x \<and> 0 \<le> td_download x) \<and>
        up + sum_list (map td_upload (item # items)) \<le> MaxInt64 \<and>
        down + sum_list (map td_download (item # items)) \<le> MaxInt64)"
      by auto
    moreover have "batch_totals (item # items) up down = None" using True by (auto simp: g)
    ultimately show ?thesis by (simp only: if_False)
  next
    case False
    with Cons.prems Cons.IH [of "up + td_upload item" "down + td_download item"] show ?thesis
      by (auto simp: g add.assoc)
  qed
qed

section \<open>The ledger\<close>

text \<open>
  The immutable ledger is the table of batch items.  Every cached counter is a sum over it:
  of the accounted items of a user, of a user on a node (the assignment and the row of
  \<open>traffic_totals\<close>), and per node of the batches and of the items that no assignment
  owns.
\<close>

definition accounted_user :: "string \<Rightarrow> batch_item_row \<Rightarrow> bool" where
  "accounted_user uid i \<longleftrightarrow> bi_disposition i = ''accounted'' \<and> bi_user_id i = uid"

definition accounted :: "string \<times> string \<Rightarrow> batch_item_row \<Rightarrow> bool" where
  "accounted k i \<longleftrightarrow> bi_disposition i = ''accounted'' \<and> (bi_node_id i, bi_user_id i) = k"

definition unattributed_item :: "string \<Rightarrow> batch_item_row \<Rightarrow> bool" where
  "unattributed_item nid i \<longleftrightarrow> bi_disposition i \<noteq> ''accounted'' \<and> bi_node_id i = nid"

definition user_counts :: "batch_item_row list \<Rightarrow> user_row \<Rightarrow> bool" where
  "user_counts items u \<longleftrightarrow>
     u_upload u = sum_by (accounted_user (u_id u)) bi_upload items \<and>
     u_download u = sum_by (accounted_user (u_id u)) bi_download items \<and>
     u_used u = u_upload u + u_download u \<and> u_used u \<le> MaxInt64"

definition assignment_counts :: "batch_item_row list \<Rightarrow> assignment_row \<Rightarrow> bool" where
  "assignment_counts items a \<longleftrightarrow>
     a_upload a = sum_by (accounted (akey a)) bi_upload items \<and>
     a_download a = sum_by (accounted (akey a)) bi_download items \<and>
     a_used a = a_upload a + a_download a \<and> a_used a \<le> MaxInt64"

definition ledger_users :: "db \<Rightarrow> bool" where
  "ledger_users d \<longleftrightarrow> unique_by u_id (db_users d) \<and>
     (\<forall>u\<in>set (db_users d). user_counts (db_batch_items d) u)"

definition ledger_assignments :: "db \<Rightarrow> bool" where
  "ledger_assignments d \<longleftrightarrow> unique_by akey (db_assignments d) \<and>
     (\<forall>a\<in>set (db_assignments d). assignment_counts (db_batch_items d) a)"

definition total_of :: "(string \<times> string) \<Rightarrow> db \<Rightarrow> int \<times> int" where
  "total_of k d = (case sql_first (\<lambda>t. tkey t = k) (db_totals d) of
     None \<Rightarrow> (0, 0) | Some t \<Rightarrow> (t_upload t, t_download t))"

definition ledger_totals :: "db \<Rightarrow> bool" where
  "ledger_totals d \<longleftrightarrow> (\<forall>k. total_of k d =
     (sum_by (accounted k) bi_upload (db_batch_items d), sum_by (accounted k) bi_download (db_batch_items d)))"

definition ledger_items :: "db \<Rightarrow> bool" where
  "ledger_items d \<longleftrightarrow> (\<forall>i\<in>set (db_batch_items d). 0 \<le> bi_upload i \<and> 0 \<le> bi_download i)"

definition node_counts :: "batch_row list \<Rightarrow> batch_item_row list \<Rightarrow> node_row \<Rightarrow> bool" where
  "node_counts batches items n \<longleftrightarrow>
     nt_upload (n_traffic n) = sum_by (\<lambda>b. b_node_id b = n_id n) b_upload batches \<and>
     nt_download (n_traffic n) = sum_by (\<lambda>b. b_node_id b = n_id n) b_download batches \<and>
     nt_unattributed (n_traffic n) =
       sum_by (unattributed_item (n_id n)) (\<lambda>i. bi_upload i + bi_download i) items \<and>
     nt_upload (n_traffic n) \<le> MaxInt64 \<and> nt_download (n_traffic n) \<le> MaxInt64 \<and>
     nt_unattributed (n_traffic n) \<le> MaxInt64"

definition ledger_nodes :: "db \<Rightarrow> bool" where
  "ledger_nodes d \<longleftrightarrow> unique_by n_id (db_nodes d) \<and>
     (\<forall>n\<in>set (db_nodes d). node_counts (db_batches d) (db_batch_items d) n) \<and>
     (\<forall>b\<in>set (db_batches d). b_node_id b \<in> n_id ` set (db_nodes d))"

definition batch_counts :: "batch_item_row list \<Rightarrow> batch_row \<Rightarrow> bool" where
  "batch_counts items b \<longleftrightarrow>
     b_upload b = sum_by (\<lambda>i. bi_batch_id i = b_id b) bi_upload items \<and>
     b_download b = sum_by (\<lambda>i. bi_batch_id i = b_id b) bi_download items \<and>
     0 \<le> b_upload b \<and> 0 \<le> b_download b"

definition ledger_batches :: "db \<Rightarrow> bool" where
  "ledger_batches d \<longleftrightarrow> unique_by b_id (db_batches d) \<and> unique_by bskey (db_batches d) \<and>
     (\<forall>b\<in>set (db_batches d). batch_counts (db_batch_items d) b) \<and>
     (\<forall>i\<in>set (db_batch_items d). \<exists>b\<in>set (db_batches d). b_id b = bi_batch_id i \<and> b_node_id b = bi_node_id i)"

definition counters_ok :: "db \<Rightarrow> bool" where
  "counters_ok d \<longleftrightarrow> ledger_users d \<and> ledger_assignments d \<and> ledger_totals d \<and> ledger_items d"

definition ledger_ok :: "db \<Rightarrow> bool" where
  "ledger_ok d \<longleftrightarrow> counters_ok d \<and> ledger_nodes d \<and> ledger_batches d"

subsection \<open>One accounted item\<close>

interpretation user_traffic: row_update u_id "user_traffic_row up down used quota t"
  for up down used quota t by unfold_locales (simp add: user_traffic_row_def)

interpretation assignment_traffic: row_update akey "assignment_traffic_row up down used quota t"
  for up down used quota t by unfold_locales (simp add: assignment_traffic_row_def akey_def)

interpretation total_again: row_update tkey "total_again_row new" for new
  by unfold_locales (simp add: total_again_row_def tkey_def)

lemma find_userD: "find_user i d = Some u \<Longrightarrow> u \<in> set (db_users d) \<and> u_id u = i"
  by (auto simp: find_user_def dest: sql_first_SomeD)

lemma find_assignmentD: "find_assignment n u d = Some a \<Longrightarrow> a \<in> set (db_assignments d) \<and> akey a = (n, u)"
  by (auto simp: find_assignment_def dest: sql_first_SomeD)

definition accounted_state ::
  "string \<Rightarrow> string \<Rightarrow> traffic_delta \<Rightarrow> gotime \<Rightarrow> user_row \<Rightarrow> assignment_row \<Rightarrow> db \<Rightarrow> db" where
  "accounted_state nid bid item now u a d =
     (let up = td_upload item; down = td_download item;
          total = \<lparr> t_node_id = nid, t_user_id = td_user_id item, t_upload = a_upload a + up,
                    t_download = a_download a + down, t_last_batch_id = bid, t_updated_at = unixMilli now \<rparr>
      in d\<lparr>db_totals := sql_upsert tkey total (total_again_row total) (db_totals d),
           db_users := sql_update (\<lambda>x. u_id x = td_user_id item)
             (user_traffic_row (u_upload u + up) (u_download u + down) (u_used u + (up + down))
               (quotaState (u_traffic_limit u) (u_used u + (up + down))) (unixMilli now)) (db_users d),
           db_assignments := sql_update (\<lambda>x. akey x = (nid, td_user_id item))
             (assignment_traffic_row (a_upload a + up) (a_download a + down) (a_used a + (up + down))
               (quotaState (a_traffic_limit a) (a_used a + (up + down))) (unixMilli now)) (db_assignments d)\<rparr>)"

text \<open>What the overflow guards need of the cached rows.\<close>

definition user_fits :: "user_row \<Rightarrow> bool" where
  "user_fits u \<longleftrightarrow> 0 \<le> u_upload u \<and> 0 \<le> u_download u \<and> u_used u = u_upload u + u_download u \<and> u_used u \<le> MaxInt64"

definition assignment_fits :: "assignment_row \<Rightarrow> bool" where
  "assignment_fits a \<longleftrightarrow> 0 \<le> a_upload a \<and> 0 \<le> a_download a \<and> a_used a = a_upload a + a_download a \<and> a_used a \<le> MaxInt64"

definition rows_ok :: "db \<Rightarrow> bool" where
  "rows_ok d \<longleftrightarrow> (\<forall>u\<in>set (db_users d). user_fits u) \<and> (\<forall>a\<in>set (db_assignments d). assignment_fits a)"

lemma counts_fit:
  assumes "\<And>i. i \<in> set items \<Longrightarrow> 0 \<le> bi_upload i \<and> 0 \<le> bi_download i"
  shows "user_counts items u \<Longrightarrow> user_fits u" and "assignment_counts items a \<Longrightarrow> assignment_fits a"
proof -
  have "0 \<le> sum_by p bi_upload items" "0 \<le> sum_by p bi_download items" for p
    using assms by (auto intro!: sum_by_nonneg)
  then show "user_counts items u \<Longrightarrow> user_fits u" and "assignment_counts items a \<Longrightarrow> assignment_fits a"
    unfolding user_counts_def user_fits_def assignment_counts_def assignment_fits_def by metis+
qed

lemma counter_rows: "counters_ok d \<Longrightarrow> rows_ok d"
  using counts_fit [of "db_batch_items d"]
  by (simp add: rows_ok_def counters_ok_def ledger_items_def ledger_users_def ledger_assignments_def)

lemma user_counts_append:
  assumes "user_counts items u"
  shows "\<not> accounted_user (u_id u) r \<Longrightarrow> user_counts (items @ [r]) u"
    and "accounted_user (u_id u) r \<Longrightarrow> u_used u + (bi_upload r + bi_download r) \<le> MaxInt64 \<Longrightarrow>
      user_counts (items @ [r]) (user_traffic_row (u_upload u + bi_upload r) (u_download u + bi_download r)
        (u_used u + (bi_upload r + bi_download r)) q t u)"
  using assms by (simp_all add: user_counts_def user_traffic_row_def)

lemma assignment_counts_append:
  assumes "assignment_counts items a"
  shows "\<not> accounted (akey a) r \<Longrightarrow> assignment_counts (items @ [r]) a"
    and "accounted (akey a) r \<Longrightarrow> a_used a + (bi_upload r + bi_download r) \<le> MaxInt64 \<Longrightarrow>
      assignment_counts (items @ [r]) (assignment_traffic_row (a_upload a + bi_upload r) (a_download a + bi_download r)
        (a_used a + (bi_upload r + bi_download r)) q t a)"
  using assms assignment_traffic.key_kept
  by (simp_all add: assignment_counts_def assignment_traffic_row_def)

lemma addAccountedTrafficTx_Inr:
  assumes ok: "rows_ok d" and item: "item_ok item"
  shows "addAccountedTrafficTx nid bid item now d = Inr d' \<longleftrightarrow>
    (\<exists>u a. find_user (td_user_id item) d = Some u \<and> find_assignment nid (td_user_id item) d = Some a \<and>
       0 \<le> td_upload item \<and> 0 \<le> td_download item \<and>
       u_used u + (td_upload item + td_download item) \<le> MaxInt64 \<and>
       a_used a + (td_upload item + td_download item) \<le> MaxInt64 \<and>
       d' = accounted_state nid bid item now u a d)" (is "_ \<longleftrightarrow> ?R")
proof (cases "find_user (td_user_id item) d")
  case None
  then show ?thesis by (simp add: addAccountedTrafficTx_def)
next
  case u: (Some u)
  show ?thesis
  proof (cases "find_assignment nid (td_user_id item) d")
    case None
    with u show ?thesis by (simp add: addAccountedTrafficTx_def)
  next
    case a: (Some a)
    have ub: "0 \<le> u_upload u" "0 \<le> u_download u" "u_used u = u_upload u + u_download u" "u_used u \<le> MaxInt64"
      and ab: "0 \<le> a_upload a" "0 \<le> a_download a" "a_used a = a_upload a + a_download a" "a_used a \<le> MaxInt64"
      using ok find_userD [OF u] find_assignmentD [OF a] unfolding rows_ok_def user_fits_def assignment_fits_def by blast+
    have r: "int64_range (td_upload item)" "int64_range (td_download item)"
      using item by (simp_all add: item_ok_def)
    show ?thesis
    proof (cases "checkedAdd (td_upload item) (td_download item)")
      case None
      then have "\<not> (0 \<le> td_upload item \<and> 0 \<le> td_download item \<and> td_upload item + td_download item \<le> MaxInt64)"
        using checkedAdd_Some [OF r(2)] by (metis option.distinct(1))
      with None u a ub show ?thesis by (auto simp: addAccountedTrafficTx_def)
    next
      case (Some s)
      then have s: "0 \<le> td_upload item" "0 \<le> td_download item" "s \<le> MaxInt64" "s = td_upload item + td_download item"
        using checkedAdd_Some [OF r(2)] by auto
      have rs: "int64_range s" using s by (simp add: int64_range_def MinInt64_def)
      have guards: "sub64 MaxInt64 x < y \<longleftrightarrow> MaxInt64 < y + x"
        if "0 \<le> y" "y \<le> MaxInt64" "int64_range x" "0 \<le> x" for x y
        using overflow_guard [OF that(1-3)] that(4) by simp
      have g: "sub64 MaxInt64 (td_upload item) < u_upload u \<longleftrightarrow> MaxInt64 < u_upload u + td_upload item"
        "sub64 MaxInt64 (td_download item) < u_download u \<longleftrightarrow> MaxInt64 < u_download u + td_download item"
        "sub64 MaxInt64 s < u_used u \<longleftrightarrow> MaxInt64 < u_used u + s"
        "sub64 MaxInt64 (td_upload item) < a_upload a \<longleftrightarrow> MaxInt64 < a_upload a + td_upload item"
        "sub64 MaxInt64 (td_download item) < a_download a \<longleftrightarrow> MaxInt64 < a_download a + td_download item"
        "sub64 MaxInt64 s < a_used a \<longleftrightarrow> MaxInt64 < a_used a + s"
        using ub ab s r rs by (intro guards; linarith?)+
      have st: "d' = accounted_state nid bid item now u a d \<longleftrightarrow>
          addAccountedTrafficTx nid bid item now d = Inr d'"
        if "u_used u + s \<le> MaxInt64" "a_used a + s \<le> MaxInt64"
      proof -
        have "add64 (u_upload u) (td_upload item) = u_upload u + td_upload item"
          "add64 (u_download u) (td_download item) = u_download u + td_download item"
          "add64 (u_used u) s = u_used u + s"
          "add64 (a_upload a) (td_upload item) = a_upload a + td_upload item"
          "add64 (a_download a) (td_download item) = a_download a + td_download item"
          "add64 (a_used a) s = a_used a + s"
          using that ub ab s by (auto intro!: add64_nonneg)
        then show ?thesis using that ub ab s u a Some
          by (auto simp: addAccountedTrafficTx_def g accounted_state_def Let_def update_users_def
              update_assignments_def)
      qed
      have no: "addAccountedTrafficTx nid bid item now d \<noteq> Inr d'"
        if "\<not> (u_used u + s \<le> MaxInt64 \<and> a_used a + s \<le> MaxInt64)"
        using that u a Some by (auto simp: addAccountedTrafficTx_def g)
      show ?thesis using st no s u a by auto
    qed
  qed
qed


definition item_row :: "string \<Rightarrow> string \<Rightarrow> string \<Rightarrow> traffic_delta \<Rightarrow> batch_item_row" where
  "item_row nid bid disposition item = \<lparr> bi_batch_id = bid, bi_node_id = nid, bi_user_id = td_user_id item,
     bi_upload = td_upload item, bi_download = td_download item, bi_disposition = disposition \<rparr>"

definition log_item :: "batch_item_row \<Rightarrow> db \<Rightarrow> db" where
  "log_item r d = d\<lparr>db_batch_items := db_batch_items d @ [r]\<rparr>"

lemma failing_Inr [simp]: "failing m = Inr x \<longleftrightarrow> m = Inr x"
  by (cases m) (simp_all add: failing_def)

lemma failing_Inl: "failing m = Inl s \<longleftrightarrow> (\<exists>e. m = Inl e \<and> s = Failed e)"
  by (cases m) (auto simp: failing_def)

lemma insert_batch_item_Inr:
  "insert_batch_item r d = Inr d' \<longleftrightarrow> 0 \<le> bi_upload r \<and> 0 \<le> bi_download r \<and>
     (\<forall>x\<in>set (db_batch_items d). bikey x \<noteq> bikey r) \<and> d' = log_item r d"
  by (auto simp: insert_batch_item_def log_item_def table_simps split: option.splits)

lemma ingest_item_Inr:
  assumes ok: "rows_ok d" and item: "item_ok item" and un: "0 \<le> un" "un \<le> MaxInt64"
    and step: "ingest_item identity bid now item (un, d) = Inr (un', d')"
  defines "nid \<equiv> ai_node_id identity"
  defines "disp \<equiv> classifyTrafficItemTx nid (td_user_id item) d"
  defines "d1 \<equiv> log_item (item_row nid bid disp item) d"
  shows "0 \<le> td_upload item" and "0 \<le> td_download item"
    and "disp \<noteq> ''accounted'' \<Longrightarrow> un' = un + (td_upload item + td_download item) \<and> un' \<le> MaxInt64 \<and> d' = d1"
    and "disp = ''accounted'' \<Longrightarrow> un' = un \<and> (\<exists>u a. find_user (td_user_id item) d = Some u \<and>
       find_assignment nid (td_user_id item) d = Some a \<and>
       u_used u + (td_upload item + td_download item) \<le> MaxInt64 \<and>
       a_used a + (td_upload item + td_download item) \<le> MaxInt64 \<and>
       d' = accounted_state nid bid item now u a d1)"
proof -
  have r: "int64_range (td_download item)" using item by (simp add: item_ok_def)
  have ok1: "rows_ok d1" using ok by (simp add: rows_ok_def d1_def log_item_def)
  have ins: "insert_batch_item (item_row nid bid disp item) d = Inr d1"
    using step by (auto simp: ingest_item_def Let_def rbind_Inr_conv insert_batch_item_Inr
        nid_def disp_def d1_def item_row_def)
  then show nn: "0 \<le> td_upload item" "0 \<le> td_download item"
    by (auto simp: insert_batch_item_Inr item_row_def)
  have rest: "(if disp \<noteq> ''accounted'' then
       (case checkedAdd (td_upload item) (td_download item) of
          None \<Rightarrow> Inl (Stopped ''rejected'' ''batch_total_overflow'')
        | Some itemTotal \<Rightarrow>
            if un > sub64 MaxInt64 itemTotal
            then Inl (Stopped ''rejected'' ''batch_total_overflow'')
            else Inr (add64 un itemTotal, d1))
     else rbind (failing (addAccountedTrafficTx nid bid item now d1)) (\<lambda>d2. Inr (un, d2))) = Inr (un', d')"
    using step ins by (auto simp: ingest_item_def Let_def rbind_Inr_conv nid_def disp_def item_row_def)
  show "un' = un + (td_upload item + td_download item) \<and> un' \<le> MaxInt64 \<and> d' = d1"
    if "disp \<noteq> ''accounted''"
  proof -
    from rest that obtain s where s: "checkedAdd (td_upload item) (td_download item) = Some s"
      "\<not> sub64 MaxInt64 s < un" "un' = add64 un s" "d' = d1"
      by (auto split: option.splits if_splits)
    then have "s = td_upload item + td_download item" "s \<le> MaxInt64" "0 \<le> s"
      using checkedAdd_Some [OF r] by auto
    moreover from this have "int64_range s" by (simp add: int64_range_def MinInt64_def)
    ultimately show ?thesis using s(2-4) un overflow_guard [OF un, of s] by auto
  qed
  show "un' = un \<and> (\<exists>u a. find_user (td_user_id item) d = Some u \<and>
       find_assignment nid (td_user_id item) d = Some a \<and>
       u_used u + (td_upload item + td_download item) \<le> MaxInt64 \<and>
       a_used a + (td_upload item + td_download item) \<le> MaxInt64 \<and>
       d' = accounted_state nid bid item now u a d1)" if "disp = ''accounted''"
    using rest that addAccountedTrafficTx_Inr [OF ok1 item, of nid bid now d']
    by (auto simp: rbind_Inr_conv d1_def log_item_def find_user_def find_assignment_def)
qed


text \<open>Logging an item and counting it keeps every cached counter equal to its sum.\<close>

lemma counters_ok_unaccounted:
  assumes "counters_ok d" and "bi_disposition r \<noteq> ''accounted''" and "0 \<le> bi_upload r" "0 \<le> bi_download r"
  shows "counters_ok (log_item r d)"
  using assms user_counts_append(1) [of "db_batch_items d" _ r] assignment_counts_append(1) [of "db_batch_items d" _ r]
  by (simp add: counters_ok_def ledger_users_def ledger_assignments_def ledger_totals_def ledger_items_def
      log_item_def accounted_user_def accounted_def total_of_def)

lemma total_upsert:
  assumes "db_totals d' = sql_upsert tkey new (total_again_row new) (db_totals d)"
  shows "total_of k d' = (if k = tkey new then (t_upload new, t_download new) else total_of k d)"
  using total_again.lookup_upsert_same [of new new "db_totals d"]
    total_again.lookup_upsert_other [of k new new "db_totals d"] assms
  by (auto simp: total_of_def total_again_row_def split: option.split)

lemma accounted_state_tables:
  "db_batch_items (accounted_state nid bid item now u a d) = db_batch_items d"
  "db_users (accounted_state nid bid item now u a d) = sql_update (\<lambda>x. u_id x = td_user_id item)
     (user_traffic_row (u_upload u + td_upload item) (u_download u + td_download item)
       (u_used u + (td_upload item + td_download item))
       (quotaState (u_traffic_limit u) (u_used u + (td_upload item + td_download item))) (unixMilli now)) (db_users d)"
  "db_assignments (accounted_state nid bid item now u a d) = sql_update (\<lambda>x. akey x = (nid, td_user_id item))
     (assignment_traffic_row (a_upload a + td_upload item) (a_download a + td_download item)
       (a_used a + (td_upload item + td_download item))
       (quotaState (a_traffic_limit a) (a_used a + (td_upload item + td_download item))) (unixMilli now)) (db_assignments d)"
  by (simp_all add: accounted_state_def Let_def)

lemma accounted_state_total:
  "total_of k (accounted_state nid bid item now u a d) =
     (if k = (nid, td_user_id item) then (a_upload a + td_upload item, a_download a + td_download item)
      else total_of k d)"
  by (subst total_upsert [of _ "\<lparr> t_node_id = nid, t_user_id = td_user_id item, t_upload = a_upload a + td_upload item,
      t_download = a_download a + td_download item, t_last_batch_id = bid, t_updated_at = unixMilli now \<rparr>" d])
    (simp_all add: accounted_state_def Let_def tkey_def)

lemma counters_ok_accounted:
  assumes ok: "counters_ok d"
    and u: "find_user (td_user_id item) d = Some u" and a: "find_assignment nid (td_user_id item) d = Some a"
    and nn: "0 \<le> td_upload item" "0 \<le> td_download item"
    and ub: "u_used u + (td_upload item + td_download item) \<le> MaxInt64"
    and ab: "a_used a + (td_upload item + td_download item) \<le> MaxInt64"
  shows "counters_ok (accounted_state nid bid item now u a (log_item (item_row nid bid ''accounted'' item) d))"
    (is "counters_ok ?d")
proof -
  let ?r = "item_row nid bid ''accounted'' item" and ?k = "(nid, td_user_id item)"
  have pu: "accounted_user uid ?r \<longleftrightarrow> uid = td_user_id item" for uid
    by (auto simp: accounted_user_def item_row_def)
  have pa: "accounted k ?r \<longleftrightarrow> k = ?k" for k by (auto simp: accounted_def item_row_def)
  have f: "bi_upload ?r = td_upload item" "bi_download ?r = td_download item" by (simp_all add: item_row_def)
  have l: "db_users (log_item ?r d) = db_users d" "db_assignments (log_item ?r d) = db_assignments d"
    "db_batch_items (log_item ?r d) = db_batch_items d @ [?r]" "total_of k (log_item ?r d) = total_of k d" for k
    by (simp_all add: log_item_def total_of_def)
  note um = find_userD [OF u] and am = find_assignmentD [OF a]
  have U: "ledger_users d" and A: "ledger_assignments d" and T: "ledger_totals d" and I: "ledger_items d"
    using ok by (simp_all add: counters_ok_def)
  have u1: "x = u" if "x \<in> set (db_users d)" "u_id x = td_user_id item" for x
    using that um U unique_byD [of u_id "db_users d" x u] by (simp add: ledger_users_def)
  have a1: "x = a" if "x \<in> set (db_assignments d)" "akey x = ?k" for x
    using that am A unique_byD [of akey "db_assignments d" x a] by (simp add: ledger_assignments_def)
  have uc: "user_counts (db_batch_items d) x" if "x \<in> set (db_users d)" for x
    using that U by (simp add: ledger_users_def)
  have ac: "assignment_counts (db_batch_items d) x" if "x \<in> set (db_assignments d)" for x
    using that A by (simp add: ledger_assignments_def)
  have "user_counts (db_batch_items d @ [?r]) (if u_id x = td_user_id item
      then user_traffic_row (u_upload u + td_upload item) (u_download u + td_download item)
        (u_used u + (td_upload item + td_download item)) q t x else x)" if "x \<in> set (db_users d)" for x q t
    using user_counts_append [OF uc [OF that], of ?r] u1 [OF that] ub by (cases "u_id x = td_user_id item") (simp_all add: pu f)
  then have "ledger_users ?d"
    using U user_traffic.unique_update [of "db_users d"]
    by (simp add: ledger_users_def accounted_state_tables l ball_sql_update del: if_split)
  moreover have "assignment_counts (db_batch_items d @ [?r]) (if akey x = ?k
      then assignment_traffic_row (a_upload a + td_upload item) (a_download a + td_download item)
        (a_used a + (td_upload item + td_download item)) q t x else x)" if "x \<in> set (db_assignments d)" for x q t
    using assignment_counts_append [OF ac [OF that], of ?r] a1 [OF that] ab by (cases "akey x = ?k") (simp_all add: pa f)
  then have "ledger_assignments ?d"
    using A assignment_traffic.unique_update [of "db_assignments d"]
    by (simp add: ledger_assignments_def accounted_state_tables l ball_sql_update del: if_split)
  moreover have "ledger_totals ?d"
    using T ac [of a] am
    by (auto simp: ledger_totals_def accounted_state_tables accounted_state_total l pa f assignment_counts_def)
  moreover have "ledger_items ?d"
    using I nn by (simp add: ledger_items_def accounted_state_tables l f)
  ultimately show ?thesis by (simp add: counters_ok_def)
qed

subsection \<open>All items of a batch\<close>

text \<open>What the items of a batch change: the rows they log and the counters, nothing else.\<close>

definition same_but_counters :: "db \<Rightarrow> db \<Rightarrow> bool" where
  "same_but_counters d d' \<longleftrightarrow>
     (\<exists>us as ts bis. d' = d\<lparr>db_users := us, db_assignments := as, db_totals := ts, db_batch_items := bis\<rparr> \<and>
        map u_id us = map u_id (db_users d) \<and> map akey as = map akey (db_assignments d))"

lemma same_but_counters_refl: "same_but_counters d d"
  unfolding same_but_counters_def
  by (rule exI [of _ "db_users d"], rule exI [of _ "db_assignments d"], rule exI [of _ "db_totals d"],
      rule exI [of _ "db_batch_items d"]) simp

lemma same_but_counters_trans:
  "same_but_counters a b \<Longrightarrow> same_but_counters b c \<Longrightarrow> same_but_counters a c"
  unfolding same_but_counters_def by force

lemma same_but_counters_log: "same_but_counters d (log_item r d)"
  unfolding same_but_counters_def log_item_def
  by (rule exI [of _ "db_users d"], rule exI [of _ "db_assignments d"], rule exI [of _ "db_totals d"],
      rule exI [of _ "db_batch_items d @ [r]"]) simp

lemma same_but_counters_accounted: "same_but_counters d (accounted_state nid bid item now u a d)"
proof -
  let ?t = "\<lparr> t_node_id = nid, t_user_id = td_user_id item, t_upload = a_upload a + td_upload item,
      t_download = a_download a + td_download item, t_last_batch_id = bid, t_updated_at = unixMilli now \<rparr>"
  show ?thesis
    unfolding same_but_counters_def
    by (rule exI [of _ "db_users (accounted_state nid bid item now u a d)"],
        rule exI [of _ "db_assignments (accounted_state nid bid item now u a d)"],
        rule exI [of _ "sql_upsert tkey ?t (total_again_row ?t) (db_totals d)"],
        rule exI [of _ "db_batch_items d"])
      (simp add: accounted_state_def Let_def user_traffic.map_key_update assignment_traffic.map_key_update)
qed

lemma ingest_item_step:
  assumes ok: "counters_ok d" and item: "item_ok item" and un: "0 \<le> un" "un \<le> MaxInt64"
    and step: "ingest_item identity bid now item (un, d) = Inr (un', d')"
  shows "counters_ok d' \<and> 0 \<le> un' \<and> un' \<le> MaxInt64 \<and> same_but_counters d d' \<and>
    (\<exists>disp. db_batch_items d' = db_batch_items d @ [item_row (ai_node_id identity) bid disp item] \<and>
       un' = un + (if disp = ''accounted'' then 0 else td_upload item + td_download item))"
proof -
  let ?disp = "classifyTrafficItemTx (ai_node_id identity) (td_user_id item) d"
  let ?r = "item_row (ai_node_id identity) bid ?disp item"
  note s = ingest_item_Inr [OF counter_rows [OF ok] item un step]
  have r: "bi_disposition ?r = ?disp" "bi_upload ?r = td_upload item" "bi_download ?r = td_download item"
    by (simp_all add: item_row_def)
  show ?thesis
  proof (cases "?disp = ''accounted''")
    case False
    then show ?thesis
      using s(1,2,3) counters_ok_unaccounted [OF ok, of ?r] un same_but_counters_log [of d ?r] r
      by (auto simp: log_item_def)
  next
    case True
    from s(4) [OF True] obtain u a where u: "find_user (td_user_id item) d = Some u"
      and a: "find_assignment (ai_node_id identity) (td_user_id item) d = Some a"
      and b: "u_used u + (td_upload item + td_download item) \<le> MaxInt64"
        "a_used a + (td_upload item + td_download item) \<le> MaxInt64"
      and d': "un' = un" "d' = accounted_state (ai_node_id identity) bid item now u a (log_item ?r d)"
      by blast
    have "counters_ok d'"
      using counters_ok_accounted [OF ok u a s(1,2) b] True by (simp add: d')
    moreover have "same_but_counters d d'"
      unfolding d' by (rule same_but_counters_trans [OF same_but_counters_log same_but_counters_accounted])
    moreover have "db_batch_items d' = db_batch_items d @ [?r]"
      by (simp add: d' accounted_state_tables log_item_def)
    ultimately show ?thesis using un d'(1) True by auto
  qed
qed

lemma ingest_items:
  assumes "counters_ok d" and "\<forall>item\<in>set items. item_ok item" and "0 \<le> un" "un \<le> MaxInt64"
    and "rfold (ingest_item identity bid now) items (un, d) = Inr (un', d')"
  shows "counters_ok d' \<and> 0 \<le> un' \<and> un' \<le> MaxInt64 \<and> same_but_counters d d' \<and>
    (\<exists>rows. db_batch_items d' = db_batch_items d @ rows \<and>
       map bi_upload rows = map td_upload items \<and> map bi_download rows = map td_download items \<and>
       (\<forall>r\<in>set rows. bi_batch_id r = bid \<and> bi_node_id r = ai_node_id identity) \<and>
       un' = un + sum_by (unattributed_item (ai_node_id identity)) (\<lambda>i. bi_upload i + bi_download i) rows)"
  using assms
proof (induction items arbitrary: un d)
  case Nil
  then show ?case by (auto simp: same_but_counters_refl)
next
  case (Cons item items)
  from Cons.prems(5) obtain un1 d1 where
    s: "ingest_item identity bid now item (un, d) = Inr (un1, d1)"
    and r: "rfold (ingest_item identity bid now) items (un1, d1) = Inr (un', d')"
    by (auto simp: rbind_Inr_conv)
  have ok: "item_ok item" using Cons.prems(2) by simp
  from ingest_item_step [OF Cons.prems(1) ok Cons.prems(3,4) s] obtain disp where
    1: "counters_ok d1" "0 \<le> un1" "un1 \<le> MaxInt64" "same_but_counters d d1"
      "db_batch_items d1 = db_batch_items d @ [item_row (ai_node_id identity) bid disp item]"
      "un1 = un + (if disp = ''accounted'' then 0 else td_upload item + td_download item)" by blast
  from Cons.IH [OF 1(1) _ 1(2,3) r] Cons.prems(2) obtain rows where
    2: "counters_ok d'" "0 \<le> un'" "un' \<le> MaxInt64" "same_but_counters d1 d'"
      "db_batch_items d' = db_batch_items d1 @ rows" "map bi_upload rows = map td_upload items"
      "map bi_download rows = map td_download items"
      "\<forall>r\<in>set rows. bi_batch_id r = bid \<and> bi_node_id r = ai_node_id identity"
      "un' = un1 + sum_by (unattributed_item (ai_node_id identity)) (\<lambda>i. bi_upload i + bi_download i) rows"
    by auto
  let ?r = "item_row (ai_node_id identity) bid disp item"
  have "db_batch_items d' = db_batch_items d @ (?r # rows) \<and>
      map bi_upload (?r # rows) = map td_upload (item # items) \<and>
      map bi_download (?r # rows) = map td_download (item # items) \<and>
      (\<forall>r\<in>set (?r # rows). bi_batch_id r = bid \<and> bi_node_id r = ai_node_id identity) \<and>
      un' = un + sum_by (unattributed_item (ai_node_id identity)) (\<lambda>i. bi_upload i + bi_download i) (?r # rows)"
    using 1 2 by (simp add: item_row_def unattributed_item_def)
  then show ?case using 2 same_but_counters_trans [OF 1(4) 2(4)] by blast
qed

subsection \<open>The node's counters\<close>

definition node_traffic_row :: "node_traffic \<Rightarrow> int \<Rightarrow> node_row \<Rightarrow> node_row" where
  "node_traffic_row t now n = n\<lparr>n_traffic := t, n_updated_at := now\<rparr>"

lemma addNodeTrafficTx_Inr:
  assumes "addNodeTrafficTx nid up down un sampledAt now d = Inr d'"
    and "unique_by n_id (db_nodes d)"
    and "find_node nid d = Some n"
    and fits: "0 \<le> nt_upload (n_traffic n)" "nt_upload (n_traffic n) \<le> MaxInt64"
      "0 \<le> nt_download (n_traffic n)" "nt_download (n_traffic n) \<le> MaxInt64"
      "0 \<le> nt_unattributed (n_traffic n)" "nt_unattributed (n_traffic n) \<le> MaxInt64"
    and inc: "0 \<le> up" "up \<le> MaxInt64" "0 \<le> down" "down \<le> MaxInt64" "0 \<le> un" "un \<le> MaxInt64"
  shows "\<exists>t. nt_upload t = nt_upload (n_traffic n) + up \<and> nt_download t = nt_download (n_traffic n) + down \<and>
     nt_unattributed t = nt_unattributed (n_traffic n) + un \<and>
     nt_upload t \<le> MaxInt64 \<and> nt_download t \<le> MaxInt64 \<and> nt_unattributed t \<le> MaxInt64 \<and>
     nt_limit t = nt_limit (n_traffic n) \<and> nt_reset_day t = nt_reset_day (n_traffic n) \<and>
     nt_cycle_started_at t = Some (unixMilli (trafficCycleStart now (nt_reset_day (n_traffic n)))) \<and>
     d' = d\<lparr>db_nodes := sql_update (\<lambda>x. n_id x = nid) (node_traffic_row t (unixMilli now)) (db_nodes d)\<rparr>"
proof -
  define t0 where "t0 = n_traffic n"
  define cs where "cs = trafficCycleStart now (nt_reset_day t0)"
  from assms(1,3) obtain cu cd clear where
    g: "\<not> sub64 MaxInt64 up < nt_upload t0" "\<not> sub64 MaxInt64 down < nt_download t0"
       "\<not> sub64 MaxInt64 un < nt_unattributed t0"
    and d': "d' = update_nodes (\<lambda>x. n_id x = nid)
       (\<lambda>x. x\<lparr>n_traffic := clear_calibration clear ((n_traffic x)\<lparr>
                nt_upload := add64 (nt_upload t0) up, nt_download := add64 (nt_download t0) down,
                nt_unattributed := add64 (nt_unattributed t0) un, nt_last_report_at := Some (unixMilli now),
                nt_cycle_started_at := Some (unixMilli cs),
                nt_cycle_upload := cu, nt_cycle_download := cd\<rparr>), n_updated_at := unixMilli now\<rparr>) d"
    unfolding addNodeTrafficTx_def Let_def cs_def t0_def
    by (simp add: rbind_Inr_conv split: if_split_asm) blast+
  have fit: "0 \<le> nt_upload t0" "nt_upload t0 \<le> MaxInt64" "0 \<le> nt_download t0" "nt_download t0 \<le> MaxInt64"
      "0 \<le> nt_unattributed t0" "nt_unattributed t0 \<le> MaxInt64"
    using fits by (simp_all add: t0_def)
  have r: "int64_range x" if "0 \<le> x" "x \<le> MaxInt64" for x
    using that by (simp add: int64_range_def MinInt64_def)
  have le: "nt_upload t0 + up \<le> MaxInt64" "nt_download t0 + down \<le> MaxInt64" "nt_unattributed t0 + un \<le> MaxInt64"
    using g overflow_guard [OF fit(1,2) r [OF inc(1,2)]] overflow_guard [OF fit(3,4) r [OF inc(3,4)]]
      overflow_guard [OF fit(5,6) r [OF inc(5,6)]] by linarith+
  define t where "t = clear_calibration clear (t0\<lparr>
                nt_upload := nt_upload t0 + up, nt_download := nt_download t0 + down,
                nt_unattributed := nt_unattributed t0 + un, nt_last_report_at := Some (unixMilli now),
                nt_cycle_started_at := Some (unixMilli cs), nt_cycle_upload := cu, nt_cycle_download := cd\<rparr>)"
  have n: "x = n" if "x \<in> set (db_nodes d)" "n_id x = nid" for x
    using that find_nodeD [OF assms(3)] unique_byD [OF assms(2), of x n] by simp
  have add: "add64 (nt_upload t0) up = nt_upload t0 + up" "add64 (nt_download t0) down = nt_download t0 + down"
    "add64 (nt_unattributed t0) un = nt_unattributed t0 + un"
    using le fit inc by (auto intro!: add64_nonneg)
  have "d' = d\<lparr>db_nodes := sql_update (\<lambda>x. n_id x = nid) (node_traffic_row t (unixMilli now)) (db_nodes d)\<rparr>"
    unfolding d' update_nodes_def sql_update_def
    by (auto simp: node_traffic_row_def t_def add [unfolded t0_def] t0_def dest!: n intro!: arg_cong [where f = "\<lambda>x. d\<lparr>db_nodes := x\<rparr>"])
  moreover have "nt_upload t = nt_upload t0 + up" "nt_download t = nt_download t0 + down"
    "nt_unattributed t = nt_unattributed t0 + un" "nt_limit t = nt_limit t0" "nt_reset_day t = nt_reset_day t0"
    "nt_cycle_started_at t = Some (unixMilli cs)"
    by (simp_all add: t_def clear_calibration_def)
  ultimately show ?thesis using le unfolding cs_def t0_def by (intro exI [of _ t]) simp
qed

subsection \<open>What the rest of the transaction keeps\<close>

text \<open>The ledger reads a few columns only; an operation that keeps this view keeps it.\<close>

definition user_view :: "user_row \<Rightarrow> string \<times> int \<times> int \<times> int" where
  "user_view u = (u_id u, u_upload u, u_download u, u_used u)"

definition assignment_view :: "assignment_row \<Rightarrow> (string \<times> string) \<times> int \<times> int \<times> int" where
  "assignment_view a = (akey a, a_upload a, a_download a, a_used a)"

definition node_view :: "node_row \<Rightarrow> string \<times> int \<times> int \<times> int" where
  "node_view n = (n_id n, nt_upload (n_traffic n), nt_download (n_traffic n), nt_unattributed (n_traffic n))"

definition ledger_view where
  "ledger_view d = (map user_view (db_users d), map assignment_view (db_assignments d),
     map node_view (db_nodes d), db_totals d, db_batch_items d, db_batches d)"

lemma ball_map_cong:
  assumes "map v xs = map v ys" and "\<And>x y. v x = v y \<Longrightarrow> P x = P y"
  shows "(\<forall>x\<in>set xs. P x) \<longleftrightarrow> (\<forall>y\<in>set ys. P y)"
  using map_eq_imp_length_eq [OF assms(1)] assms(1)
  by (induction xs ys rule: list_induct2) (auto dest: assms(2))

lemma unique_by_view:
  assumes "map v xs = map v ys" and "\<And>x. key x = f (v x)"
  shows "unique_by key xs = unique_by key ys"
proof -
  have "map key zs = map f (map v zs)" for zs using assms(2) by simp
  then have "map key xs = map key ys" unfolding assms(1) [symmetric] by (metis assms(1))
  then show ?thesis by (simp add: unique_by_def)
qed

lemma ledger_ok_view: "ledger_view d' = ledger_view d \<Longrightarrow> ledger_ok d' = ledger_ok d"
proof -
  assume v: "ledger_view d' = ledger_view d"
  have eq: "map user_view (db_users d') = map user_view (db_users d)"
    "map assignment_view (db_assignments d') = map assignment_view (db_assignments d)"
    "map node_view (db_nodes d') = map node_view (db_nodes d)"
    "db_totals d' = db_totals d" "db_batch_items d' = db_batch_items d" "db_batches d' = db_batches d"
    using v by (simp_all add: ledger_view_def)
  have 1: "user_view x = user_view y \<Longrightarrow> user_counts items x = user_counts items y" for x y items
    by (simp add: user_view_def user_counts_def)
  have 2: "assignment_view x = assignment_view y \<Longrightarrow> assignment_counts items x = assignment_counts items y" for x y items
    by (simp add: assignment_view_def assignment_counts_def)
  have 3: "node_view x = node_view y \<Longrightarrow> node_counts bs items x = node_counts bs items y" for x y bs items
    by (simp add: node_view_def node_counts_def)
  have "map n_id ns = map fst (map node_view ns)" for ns by (simp add: node_view_def)
  then have ids: "n_id ` set (db_nodes d') = n_id ` set (db_nodes d)"
    unfolding set_map [symmetric] by (metis eq(3))
  show ?thesis
    using ball_map_cong [OF eq(1), of "user_counts (db_batch_items d)", OF 1]
      ball_map_cong [OF eq(2), of "assignment_counts (db_batch_items d)", OF 2]
      ball_map_cong [OF eq(3), of "node_counts (db_batches d) (db_batch_items d)", OF 3]
      unique_by_view [OF eq(1), of u_id fst] unique_by_view [OF eq(2), of akey fst] unique_by_view [OF eq(3), of n_id fst]
    by (simp add: ledger_ok_def counters_ok_def ledger_users_def ledger_assignments_def ledger_totals_def
        ledger_items_def ledger_nodes_def ledger_batches_def total_of_def eq(4-6) ids
        user_view_def assignment_view_def node_view_def)
qed

interpretation bump_view: row_update node_view "bump_row version now" for version now
  by unfold_locales (simp add: bump_row_def node_view_def)

interpretation pending_view: row_update assignment_view "pending_row version now" for version now
  by unfold_locales (simp add: pending_row_def assignment_view_def akey_def)

lemma bump_ledger_view:
  "bumpNodeSnapshot e i now d = Inr (v, d') \<Longrightarrow> ledger_view d' = ledger_view d"
  by (auto simp: bumpNodeSnapshot_Inr ledger_view_def bumped_def bump_view.map_key_update)

lemma mark_changed_ledger_view: "ledger_view (mark_changed changed i v now d) = ledger_view d"
proof -
  have "ledger_view (fold (\<lambda>u. markAssignmentPending u i v now) us d) = ledger_view d" for us
    by (induction us arbitrary: d)
      (simp_all add: markAssignmentPending_alt ledger_view_def pending_view.map_key_update)
  then show ?thesis by (simp add: mark_changed_def)
qed

lemma bumpChanged_ledger_view:
  "bumpChangedAssignmentsTx e changed now d = Inr d' \<Longrightarrow> ledger_view d' = ledger_view d"
  unfolding bumpChangedAssignmentsTx_def bumpChangedNode_alt
proof (erule rfold_relation [where R = "\<lambda>a b. ledger_view b = ledger_view a"])
  show "ledger_view s' = ledger_view s"
    if "rbind (bumpNodeSnapshot e i now s) (\<lambda>(v, d1). Inr (mark_changed changed i v now d1)) = Inr s'" for i s s'
    using that by (auto simp: rbind_Inr_conv mark_changed_ledger_view bump_ledger_view)
qed simp_all

lemma kick_ledger_view: "requestKickTx i u reason now d = Inr d' \<Longrightarrow> ledger_view d' = ledger_view d"
  by (auto dest!: requestKickTx_frame simp: ledger_view_def)

lemma quota_changes_frame:
  assumes "rfold (quota_change prior now) states (changed, d) = Inr (changed', d')"
  shows "\<exists>t. d' = d\<lparr>db_kicks := t\<rparr>"
proof -
  have "\<exists>t. snd s' = (snd s)\<lparr>db_kicks := t\<rparr>" if "quota_change prior now x s = Inr s'" for x s s'
    using that requestKickTx_frame
    by (cases x; cases s) (auto simp: quota_change_def rbind_Inr_conv split: if_splits
        intro: exI [of _ "db_kicks (snd s)"])
  then have "\<exists>t. snd (changed', d') = (snd (changed, d))\<lparr>db_kicks := t\<rparr>"
  proof (intro rfold_relation [where R = "\<lambda>s s'. \<exists>t. snd s' = (snd s)\<lparr>db_kicks := t\<rparr>", OF assms])
    show "\<exists>t. snd s = (snd s)\<lparr>db_kicks := t\<rparr>" for s :: "changed_set \<times> db"
      by (rule exI [of _ "db_kicks (snd s)"]) simp
  qed auto
  then show ?thesis by simp
qed

section \<open>Ingestion keeps the ledger\<close>

interpretation node_traffic: row_update n_id "node_traffic_row t now" for t now
  by unfold_locales (simp add: node_traffic_row_def)

lemma node_fits:
  assumes "ledger_ok d" and "n \<in> set (db_nodes d)"
  shows "0 \<le> nt_upload (n_traffic n)" "0 \<le> nt_download (n_traffic n)" "0 \<le> nt_unattributed (n_traffic n)"
    "nt_upload (n_traffic n) \<le> MaxInt64" "nt_download (n_traffic n) \<le> MaxInt64"
    "nt_unattributed (n_traffic n) \<le> MaxInt64"
proof -
  have n: "node_counts (db_batches d) (db_batch_items d) n"
    using assms by (simp add: ledger_ok_def ledger_nodes_def)
  have b: "0 \<le> b_upload b \<and> 0 \<le> b_download b" if "b \<in> set (db_batches d)" for b
    using assms(1) that unfolding ledger_ok_def ledger_batches_def batch_counts_def by blast
  have i: "0 \<le> bi_upload i \<and> 0 \<le> bi_download i" if "i \<in> set (db_batch_items d)" for i
    using assms(1) that by (simp add: ledger_ok_def counters_ok_def ledger_items_def)
  show "0 \<le> nt_upload (n_traffic n)" "0 \<le> nt_download (n_traffic n)" "0 \<le> nt_unattributed (n_traffic n)"
    "nt_upload (n_traffic n) \<le> MaxInt64" "nt_download (n_traffic n) \<le> MaxInt64"
    "nt_unattributed (n_traffic n) \<le> MaxInt64"
    using n b i by (auto simp: node_counts_def intro!: sum_by_nonneg add_nonneg_nonneg)
qed

lemma ledger_nodes_add:
  assumes L: "ledger_nodes d" and n: "find_node nid d = Some n"
    and rows: "\<forall>r\<in>set rows. bi_node_id r = nid" and b: "b_node_id b = nid"
    and t: "nt_upload t = nt_upload (n_traffic n) + b_upload b" "nt_download t = nt_download (n_traffic n) + b_download b"
      "nt_unattributed t = nt_unattributed (n_traffic n) +
         sum_by (unattributed_item nid) (\<lambda>i. bi_upload i + bi_download i) rows"
      "nt_upload t \<le> MaxInt64" "nt_download t \<le> MaxInt64" "nt_unattributed t \<le> MaxInt64"
    and d': "db_nodes d' = sql_update (\<lambda>x. n_id x = nid) (node_traffic_row t now) (db_nodes d)"
      "db_batches d' = db_batches d @ [b]" "db_batch_items d' = db_batch_items d @ rows"
  shows "ledger_nodes d'"
proof -
  have n1: "x = n" if "x \<in> set (db_nodes d)" "n_id x = nid" for x
    using that find_nodeD [OF n] L unique_byD [of n_id "db_nodes d" x n] by (simp add: ledger_nodes_def)
  have nc: "node_counts (db_batches d) (db_batch_items d) x" if "x \<in> set (db_nodes d)" for x
    using L that by (simp add: ledger_nodes_def)
  have "node_counts (db_batches d @ [b]) (db_batch_items d @ rows)
      (if n_id x = nid then node_traffic_row t now x else x)" if x: "x \<in> set (db_nodes d)" for x
  proof (cases "n_id x = nid")
    case True
    with n1 x have "x = n" by simp
    with True nc [OF x] t b show ?thesis by (simp add: node_counts_def node_traffic_row_def)
  next
    case False
    have "sum_by (unattributed_item (n_id x)) (\<lambda>i. bi_upload i + bi_download i) rows = 0"
      using rows False by (intro sum_by_none) (auto simp: unattributed_item_def)
    with False nc [OF x] b show ?thesis by (simp add: node_counts_def)
  qed
  moreover have "n_id ` set (db_nodes d') = n_id ` set (db_nodes d)"
    unfolding set_map [symmetric] d' by (simp add: node_traffic.map_key_update del: set_map)
  moreover have "nid \<in> n_id ` set (db_nodes d)" using find_nodeD [OF n] by auto
  ultimately show ?thesis
    using L b node_traffic.unique_update [of "db_nodes d"]
    by (simp add: ledger_nodes_def d' ball_sql_update del: if_split)
qed

lemma ledger_batches_add:
  assumes L: "ledger_batches d"
    and fresh: "\<forall>x\<in>set (db_batches d). b_id x \<noteq> b_id b \<and> bskey x \<noteq> bskey b"
    and rows: "\<forall>r\<in>set rows. bi_batch_id r = b_id b \<and> bi_node_id r = b_node_id b"
    and b: "b_upload b = sum_list (map bi_upload rows)" "b_download b = sum_list (map bi_download rows)"
      "0 \<le> b_upload b" "0 \<le> b_download b"
    and d': "db_batches d' = db_batches d @ [b]" "db_batch_items d' = db_batch_items d @ rows"
  shows "ledger_batches d'"
proof -
  have old: "sum_by (\<lambda>i. bi_batch_id i = b_id b) f (db_batch_items d) = 0" for f
    using L fresh by (intro sum_by_none) (auto simp: ledger_batches_def)
  have all: "filter (\<lambda>i. bi_batch_id i = b_id b) rows = rows" using rows by simp
  have new: "batch_counts (db_batch_items d @ rows) b"
    using b by (simp add: batch_counts_def old) (simp add: sum_by_def all)
  have keep: "batch_counts (db_batch_items d @ rows) x" if "x \<in> set (db_batches d)" for x
  proof -
    have "sum_by (\<lambda>i. bi_batch_id i = b_id x) f rows = 0" for f
      using rows fresh that by (intro sum_by_none) auto
    moreover have "batch_counts (db_batch_items d) x" using L that by (simp add: ledger_batches_def)
    ultimately show ?thesis by (simp add: batch_counts_def)
  qed
  show ?thesis
    using L fresh new keep rows unfolding ledger_batches_def d'
    by (auto simp: unique_by_append1)
qed

lemma ingest_body_Inr:
  assumes ok: "ledger_ok d" and items: "\<forall>item\<in>set (tb_items batch). item_ok item"
    and body: "ingest_body e identity batch now d = Inr d'"
  defines "up \<equiv> sum_list (map td_upload (tb_items batch))"
    and "down \<equiv> sum_list (map td_download (tb_items batch))"
  shows "ledger_ok d'" and "db_batches d' = db_batches d @ [batch_row_of e identity batch up down now]"
    and "\<forall>b\<in>set (db_batches d). b_id b \<noteq> tb_id batch"
    and "up \<le> MaxInt64" and "down \<le> MaxInt64"
    and "\<exists>rows. db_batch_items d' = db_batch_items d @ rows \<and> map bi_upload rows = map td_upload (tb_items batch) \<and>
      map bi_download rows = map td_download (tb_items batch)"
proof -
  let ?nid = "ai_node_id identity" and ?row = "batch_row_of e identity batch up down now"
  from body obtain ut dt un d1 d2 d3 ch d4 where
    first: "sql_first (\<lambda>b. b_id b = tb_id batch) (db_batches d) = None"
    and bt: "batch_totals (tb_items batch) 0 0 = Some (ut, dt)"
    and ib: "insert_batch (batch_row_of e identity batch ut dt now) d = Inr d1"
    and it: "rfold (ingest_item identity (tb_id batch) now) (tb_items batch) (0, d1) = Inr (un, d2)"
    and nt: "addNodeTrafficTx ?nid ut dt un (tb_sampled_at batch) now d2 = Inr d3"
    and qc: "rfold (quota_change (effectiveQuotaStatesTx (map td_user_id (tb_items batch)) d) now)
       (effectiveQuotaStatesTx (map td_user_id (tb_items batch)) d3) ([], d3) = Inr (ch, d4)"
    and bc: "bumpChangedAssignmentsTx e ch now d4 = Inr d'"
    by (auto simp: ingest_body_def Let_def rbind_Inr_conv split: option.splits if_splits)
  have tot: "ut = up" "dt = down" "up \<le> MaxInt64" "down \<le> MaxInt64"
    using bt batch_totals_eq [OF items, of 0 0] by (auto simp: up_def down_def split: if_splits)
  then show "up \<le> MaxInt64" "down \<le> MaxInt64" by simp_all
  show fresh: "\<forall>b\<in>set (db_batches d). b_id b \<noteq> tb_id batch" using first by (simp add: sql_first_None)
  from ib have d1: "d1 = d\<lparr>db_batches := db_batches d @ [?row]\<rparr>" and nn: "0 \<le> up" "0 \<le> down"
    and fr: "\<forall>x\<in>set (db_batches d). b_id x \<noteq> b_id ?row \<and> bskey x \<noteq> bskey ?row"
    and ex: "find_node ?nid d \<noteq> None"
    by (auto simp: insert_batch_def tot batch_row_of_def sql_exists_iff split: if_splits)
  have ok1: "counters_ok d1" using ok
    by (simp add: d1 ledger_ok_def counters_ok_def ledger_users_def ledger_assignments_def ledger_totals_def
        ledger_items_def total_of_def)
  from ingest_items [OF ok1 items _ _ it] obtain rows where c2: "counters_ok d2" and un: "0 \<le> un" "un \<le> MaxInt64"
    and sb: "same_but_counters d1 d2" and r: "db_batch_items d2 = db_batch_items d1 @ rows"
      "map bi_upload rows = map td_upload (tb_items batch)" "map bi_download rows = map td_download (tb_items batch)"
      "\<forall>r\<in>set rows. bi_batch_id r = tb_id batch \<and> bi_node_id r = ?nid"
      "un = sum_by (unattributed_item ?nid) (\<lambda>i. bi_upload i + bi_download i) rows"
    by auto
  from sb have t2: "db_nodes d2 = db_nodes d" "db_batches d2 = db_batches d @ [?row]"
    by (auto simp: same_but_counters_def d1)
  have r1: "db_batch_items d2 = db_batch_items d @ rows" using r(1) by (simp add: d1)
  from ex obtain n where n: "find_node ?nid d = Some n" by blast
  then have n2: "find_node ?nid d2 = Some n" by (simp add: find_node_def t2)
  have u2: "unique_by n_id (db_nodes d2)" using ok t2 by (simp add: ledger_ok_def ledger_nodes_def)
  note nf = node_fits [OF ok find_nodeD [OF n, THEN conjunct1]]
  from addNodeTrafficTx_Inr [OF nt u2 n2 nf(1,4,2,5,3,6)] nn un tot obtain t where
    t: "nt_upload t = nt_upload (n_traffic n) + up" "nt_download t = nt_download (n_traffic n) + down"
     "nt_unattributed t = nt_unattributed (n_traffic n) + un" "nt_upload t \<le> MaxInt64"
     "nt_download t \<le> MaxInt64" "nt_unattributed t \<le> MaxInt64"
    and d3: "d3 = d2\<lparr>db_nodes := sql_update (\<lambda>x. n_id x = ?nid) (node_traffic_row t (unixMilli now)) (db_nodes d2)\<rparr>"
    by auto
  have c3: "counters_ok d3" using c2
    by (simp add: d3 counters_ok_def ledger_users_def ledger_assignments_def ledger_totals_def
        ledger_items_def total_of_def)
  have b: "b_node_id ?row = ?nid" "b_id ?row = tb_id batch" "b_upload ?row = up" "b_download ?row = down"
    by (simp_all add: batch_row_of_def)
  have "ledger_nodes d3"
    by (rule ledger_nodes_add [of d ?nid n rows ?row t]) (use ok n r t b t2 r1 in \<open>simp_all add: ledger_ok_def d3\<close>)
  moreover have "ledger_batches d3"
    by (rule ledger_batches_add [of d ?row rows]) (use ok fr r b nn t2 r1 in \<open>simp_all add: ledger_ok_def d3 up_def down_def\<close>)
  ultimately have ok3: "ledger_ok d3" using c3 by (simp add: ledger_ok_def)
  from quota_changes_frame [OF qc] obtain ks where d4: "d4 = d3\<lparr>db_kicks := ks\<rparr>" by blast
  have v: "ledger_view d' = ledger_view d3"
    using bumpChanged_ledger_view [OF bc] by (simp add: d4 ledger_view_def)
  show "ledger_ok d'" using ok3 ledger_ok_view [OF v] by simp
  show "db_batches d' = db_batches d @ [?row]" using v t2 by (simp add: ledger_view_def d3)
  show "\<exists>rows. db_batch_items d' = db_batch_items d @ rows \<and> map bi_upload rows = map td_upload (tb_items batch) \<and>
      map bi_download rows = map td_download (tb_items batch)"
    using v r1 r(2,3) by (intro exI [of _ rows]) (simp add: ledger_view_def d3)
qed

section \<open>Ingestion as a whole\<close>

lemma ingest_item_Stopped:
  "ingest_item identity bid now item s = Inl (Stopped a b) \<Longrightarrow> a = ''rejected''"
  by (cases s) (auto simp: ingest_item_def Let_def rbind_Inl_conv failing_Inl split: if_splits option.splits)

lemma ingest_items_Stopped:
  "rfold (ingest_item identity bid now) items s = Inl (Stopped a b) \<Longrightarrow> a = ''rejected''"
  by (induction items arbitrary: s) (auto simp: rbind_Inl_conv dest: ingest_item_Stopped)

lemma ingest_body_Stopped:
  "ingest_body e identity batch now d = Inl (Stopped a b) \<Longrightarrow> a = ''duplicate'' \<or> a = ''rejected''"
  by (auto simp: ingest_body_def Let_def rbind_Inl_conv failing_Inl dest: ingest_items_Stopped
      split: option.splits if_splits prod.splits)

lemma IngestTrafficBatch_cases:
  assumes "IngestTrafficBatch e identity batch now d = (r, d')"
  shows "(r = Inr (''accepted'', '''') \<and> tb_installation_id batch = ai_installation_id identity \<and>
      ingest_body e identity batch now d = Inr d') \<or>
    (d' = d \<and> (\<forall>c. r \<noteq> Inr (''accepted'', c)))"
  using assms by (auto simp: IngestTrafficBatch_def dest: ingest_body_Stopped
      split: sum.splits ingest_stop.splits if_splits)

subsection \<open>The table of batches only grows\<close>

lemma ingest_item_batches:
  "ingest_item identity bid now item s = Inr s' \<Longrightarrow> db_batches (snd s') = db_batches (snd s)"
  by (cases s) (auto simp: ingest_item_def Let_def rbind_Inr_conv insert_batch_item_Inr log_item_def
      addAccountedTrafficTx_def update_users_def update_assignments_def split: if_splits option.splits)

lemma addNodeTrafficTx_batches: "addNodeTrafficTx i up down un s now d = Inr d' \<Longrightarrow> db_batches d' = db_batches d"
  by (auto simp: addNodeTrafficTx_def Let_def rbind_Inr_conv update_nodes_def split: option.splits if_splits)

lemma ingest_body_batches:
  assumes "ingest_body e identity batch now d = Inr d'"
  shows "\<exists>b. db_batches d' = db_batches d @ [b] \<and> b_id b = tb_id batch \<and>
    b_payload_sha256 b = env_batch_sha256 e batch \<and> (\<forall>x\<in>set (db_batches d). b_id x \<noteq> tb_id batch)"
proof -
  from assms obtain ut dt un d1 d2 d3 ch d4 prior states where
    first: "sql_first (\<lambda>b. b_id b = tb_id batch) (db_batches d) = None"
    and ib: "insert_batch (batch_row_of e identity batch ut dt now) d = Inr d1"
    and it: "rfold (ingest_item identity (tb_id batch) now) (tb_items batch) (0, d1) = Inr (un, d2)"
    and nt: "addNodeTrafficTx (ai_node_id identity) ut dt un (tb_sampled_at batch) now d2 = Inr d3"
    and qc: "rfold (quota_change prior now) states ([], d3) = Inr (ch, d4)"
    and bc: "bumpChangedAssignmentsTx e ch now d4 = Inr d'"
    by (auto simp: ingest_body_def Let_def rbind_Inr_conv split: option.splits if_splits)
  have "db_batches (snd (un, d2)) = db_batches (snd (0 :: int, d1))"
    by (rule rfold_relation [where R = "\<lambda>a b. db_batches (snd b) = db_batches (snd a)", OF it])
      (auto dest: ingest_item_batches)
  moreover have "db_batches d4 = db_batches d3" using quota_changes_frame [OF qc] by auto
  moreover have "db_batches d' = db_batches d4"
    using bumpChanged_ledger_view [OF bc] by (simp add: ledger_view_def)
  ultimately show ?thesis
    using ib addNodeTrafficTx_batches [OF nt] first
    by (auto simp: insert_batch_def batch_row_of_def sql_first_None split: if_splits)
qed

text \<open>A sequence of deliveries, in the order the controller processes them.\<close>

fun ingest_all :: "env \<Rightarrow> (agent_identity \<times> traffic_batch \<times> gotime) list \<Rightarrow> db \<Rightarrow> db" where
  "ingest_all e [] d = d"
| "ingest_all e ((identity, batch, now) # rs) d = ingest_all e rs (snd (IngestTrafficBatch e identity batch now d))"

lemma IngestTrafficBatch_grows: "\<exists>rest. db_batches (snd (IngestTrafficBatch e identity batch now d)) = db_batches d @ rest"
proof (cases "IngestTrafficBatch e identity batch now d")
  case (Pair r d')
  then show ?thesis
    using IngestTrafficBatch_cases [OF Pair] ingest_body_batches [of e identity batch now d d'] by auto
qed

lemma ingest_all_grows: "\<exists>rest. db_batches (ingest_all e rs d) = db_batches d @ rest"
proof (induction rs arbitrary: d)
  case Nil
  show ?case by simp
next
  case (Cons r rs)
  obtain identity batch now where r: "r = (identity, batch, now)" by (metis prod_cases3)
  obtain m1 where "db_batches (snd (IngestTrafficBatch e identity batch now d)) = db_batches d @ m1"
    using IngestTrafficBatch_grows by blast
  with Cons [of "snd (IngestTrafficBatch e identity batch now d)"] show ?case by (auto simp: r)
qed

lemma duplicate_if_recorded:
  assumes "sql_first (\<lambda>b. b_id b = tb_id batch) (db_batches d) = Some b"
    and "b_payload_sha256 b = env_batch_sha256 e batch"
    and "tb_installation_id batch = ai_installation_id identity"
  shows "IngestTrafficBatch e identity batch now d = (Inr (''duplicate'', ''''), d)"
  using assms by (simp add: IngestTrafficBatch_def ingest_body_def)

lemma accepted_recorded:
  assumes "ingest_body e identity batch now d = Inr d'" and "db_batches d'' = db_batches d' @ rest"
  shows "\<exists>b. sql_first (\<lambda>b. b_id b = tb_id batch) (db_batches d'') = Some b \<and>
    b_payload_sha256 b = env_batch_sha256 e batch"
proof -
  from ingest_body_batches [OF assms(1)] obtain b where b: "db_batches d' = db_batches d @ [b]" "b_id b = tb_id batch"
    "b_payload_sha256 b = env_batch_sha256 e batch" "\<forall>x\<in>set (db_batches d). b_id x \<noteq> tb_id batch" by blast
  moreover from this have "sql_first (\<lambda>b. b_id b = tb_id batch) (db_batches d) = None"
    by (simp add: sql_first_None)
  ultimately show ?thesis using assms(2) by (simp add: sql_first_append)
qed

subsection \<open>Conservation\<close>

lemma sum_by_indicator:
  assumes "unique_by b_id bs" and "b \<in> set bs"
  shows "sum_by p (\<lambda>x. if b_id b = b_id x then c else 0) bs = (if p b then c else 0)"
  using assms
proof (induction bs)
  case Nil
  then show ?case by simp
next
  case (Cons x bs)
  show ?case
  proof (cases "x = b")
    case True
    have "sum_by p (\<lambda>x. if b_id b = b_id x then c else 0) bs = 0"
      using Cons.prems(1) True by (induction bs) (auto simp: unique_by_def)
    with True show ?thesis by simp
  next
    case False
    with Cons.prems have "b \<in> set bs" "b_id b \<noteq> b_id x" "unique_by b_id bs"
      by (auto simp: unique_by_def image_iff)
    with Cons.IH show ?thesis by simp
  qed
qed

lemma sum_by_batches:
  assumes "unique_by b_id bs"
    and "\<forall>i\<in>set items. \<exists>b\<in>set bs. b_id b = bi_batch_id i \<and> b_node_id b = bi_node_id i"
  shows "sum_by (\<lambda>b. b_node_id b = n) (\<lambda>b. sum_by (\<lambda>i. bi_batch_id i = b_id b) f items) bs =
    sum_by (\<lambda>i. bi_node_id i = n) f items"
  using assms(2)
proof (induction items)
  case Nil
  show ?case by (simp add: sum_by_def)
next
  case (Cons i items)
  then obtain b where b: "b \<in> set bs" "b_id b = bi_batch_id i" "b_node_id b = bi_node_id i" by auto
  with Cons sum_by_indicator [OF assms(1) b(1), of "\<lambda>b. b_node_id b = n" "f i"] show ?case
    by (simp add: sum_by_add)
qed

lemma sum_by_cong: "(\<And>x. x \<in> set xs \<Longrightarrow> f x = g x) \<Longrightarrow> sum_by p f xs = sum_by p g xs"
  by (induction xs) auto

lemma node_conservation:
  assumes "ledger_ok d" and "n \<in> set (db_nodes d)"
  shows "nt_upload (n_traffic n) + nt_download (n_traffic n) = nt_unattributed (n_traffic n) +
    sum_by (\<lambda>i. bi_node_id i = n_id n \<and> bi_disposition i = ''accounted'') (\<lambda>i. bi_upload i + bi_download i) (db_batch_items d)"
proof -
  have n: "node_counts (db_batches d) (db_batch_items d) n"
    using assms by (simp add: ledger_ok_def ledger_nodes_def)
  have u: "unique_by b_id (db_batches d)"
    and own: "\<forall>i\<in>set (db_batch_items d). \<exists>b\<in>set (db_batches d). b_id b = bi_batch_id i \<and> b_node_id b = bi_node_id i"
    and bc: "\<And>b. b \<in> set (db_batches d) \<Longrightarrow> batch_counts (db_batch_items d) b"
    using assms(1) by (simp_all add: ledger_ok_def ledger_batches_def)
  have s: "sum_by p b_upload (db_batches d) = sum_by p (\<lambda>b. sum_by (\<lambda>i. bi_batch_id i = b_id b) bi_upload (db_batch_items d)) (db_batches d)"
    "sum_by p b_download (db_batches d) = sum_by p (\<lambda>b. sum_by (\<lambda>i. bi_batch_id i = b_id b) bi_download (db_batch_items d)) (db_batches d)" for p
    using bc by (auto intro!: sum_by_cong simp: batch_counts_def)
  have "nt_upload (n_traffic n) + nt_download (n_traffic n) =
      sum_by (\<lambda>i. bi_node_id i = n_id n) (\<lambda>i. bi_upload i + bi_download i) (db_batch_items d)"
    using n by (simp add: node_counts_def s sum_by_batches [OF u own] sum_by_add)
  also have "sum_by (\<lambda>i. bi_node_id i = n_id n) f is = sum_by (unattributed_item (n_id n)) f is +
      sum_by (\<lambda>i. bi_node_id i = n_id n \<and> bi_disposition i = ''accounted'') f is" for f "is"
    by (induction "is") (auto simp: unattributed_item_def)
  finally show ?thesis using n by (simp add: node_counts_def)
qed

section \<open>Node budget\<close>

lemma EffectiveNodeTrafficUsed_eq:
  assumes "0 \<le> nt_cycle_upload t" "0 \<le> nt_cycle_download t" "nt_cycle_download t \<le> MaxInt64"
    and "case nt_calibration t of None \<Rightarrow> True | Some c \<Rightarrow> 0 \<le> c \<and> c \<le> MaxInt64"
    and "case nt_calibration_proxy t of None \<Rightarrow> True | Some c \<Rightarrow> 0 \<le> c \<and> c \<le> MaxInt64"
  shows "EffectiveNodeTrafficUsed t =
    (let proxy = nt_cycle_upload t + nt_cycle_download t in
     if MaxInt64 < proxy then MaxInt64
     else case (nt_calibration t, nt_calibration_proxy t) of
       (Some c, Some p) \<Rightarrow> min MaxInt64 (c + max 0 (proxy - p)) | _ \<Rightarrow> proxy)"
proof -
  have r: "int64_range (nt_cycle_download t)" using assms(2,3) by (simp add: int64_range_def MinInt64_def)
  have ca: "checkedAdd (nt_cycle_upload t) (nt_cycle_download t) =
      (if MaxInt64 < nt_cycle_upload t + nt_cycle_download t then None
       else Some (nt_cycle_upload t + nt_cycle_download t))"
    using assms(1,2) checkedAdd_eq [OF r] by auto
  show ?thesis
  proof (cases "MaxInt64 < nt_cycle_upload t + nt_cycle_download t")
    case True
    then show ?thesis by (simp add: EffectiveNodeTrafficUsed_def ca)
  next
    case False
    define q where "q = nt_cycle_upload t + nt_cycle_download t"
    have q: "0 \<le> q" "q \<le> MaxInt64" using False assms(1,2) by (simp_all add: q_def)
    have "(if sub64 MaxInt64 (if sub64 q p < 0 then 0 else sub64 q p) < c then MaxInt64
        else add64 c (if sub64 q p < 0 then 0 else sub64 q p)) = min MaxInt64 (c + max 0 (q - p))"
      if "0 \<le> c" "c \<le> MaxInt64" "0 \<le> p" "p \<le> MaxInt64" for c p
    proof -
      have d: "(if sub64 q p < 0 then 0 else sub64 q p) = max 0 (q - p)" using that q by (auto simp: max_def)
      have m: "0 \<le> max 0 (q - p)" "max 0 (q - p) \<le> MaxInt64" using that q by auto
      then have "sub64 MaxInt64 (max 0 (q - p)) = MaxInt64 - max 0 (q - p)" by simp
      then show ?thesis unfolding d using that m by (auto simp: min_def)
    qed
    note H = this
    show ?thesis
      by (cases "nt_calibration t"; cases "nt_calibration_proxy t")
        (use H False assms(4,5) in \<open>simp_all add: EffectiveNodeTrafficUsed_def ca Let_def q_def [symmetric]
          del: if_split\<close>)
  qed
qed

lemma trafficCycleTotalsTx_Inr:
  "trafficCycleTotalsTx nid s t d = Inr (up, down) \<Longrightarrow> 0 \<le> up \<and> up \<le> MaxInt64 \<and> 0 \<le> down \<and> down \<le> MaxInt64"
  by (auto simp: trafficCycleTotalsTx_def Let_def sum_int64_def int64_range_def split: option.splits if_splits)

lemma CalibrateNodeTraffic_Inr:
  assumes "CalibrateNodeTraffic nid used now d = (Inr x, d')" and "unique_by n_id (db_nodes d)"
  obtains n up down where "find_active_node nid d = Some n" "0 \<le> used" "0 \<le> up" "0 \<le> down" "up + down \<le> MaxInt64"
    "trafficCycleTotalsTx nid (trafficCycleStart now (nt_reset_day (n_traffic n)))
       (trafficCycleNextStart (trafficCycleStart now (nt_reset_day (n_traffic n))) (nt_reset_day (n_traffic n))) d =
       Inr (up, down)"
    "\<exists>n'. find_active_node nid d' = Some n' \<and> nt_cycle_upload (n_traffic n') = up \<and>
       nt_cycle_download (n_traffic n') = down \<and> nt_calibration (n_traffic n') = Some used \<and>
       nt_calibration_proxy (n_traffic n') = Some (up + down)"
proof -
  let ?cs = "\<lambda>n. trafficCycleStart now (nt_reset_day (n_traffic n))"
  from assms(1) obtain n up down s where u: "0 \<le> used" and n: "find_active_node nid d = Some n"
    and t: "trafficCycleTotalsTx nid (?cs n) (trafficCycleNextStart (?cs n) (nt_reset_day (n_traffic n))) d = Inr (up, down)"
    and s: "checkedAdd up down = Some s"
    and d': "d' = update_nodes (\<lambda>x. n_id x = nid) (\<lambda>x. x\<lparr>n_traffic := (n_traffic x)\<lparr>
           nt_cycle_started_at := Some (unixMilli (?cs n)), nt_cycle_upload := up, nt_cycle_download := down,
           nt_calibration := Some used, nt_calibration_proxy := Some s,
           nt_calibrated_at := Some (unixMilli now)\<rparr>, n_updated_at := unixMilli now\<rparr>) d"
    by (auto simp: CalibrateNodeTraffic_def transact_commit Let_def rbind_Inr_conv split: if_splits option.splits)
  have b: "0 \<le> up" "0 \<le> down" "up + down \<le> MaxInt64" "s = up + down"
    using s trafficCycleTotalsTx_Inr [OF t] checkedAdd_Some [of down up s]
    by (auto simp: int64_range_def MinInt64_def)
  let ?f = "\<lambda>x. x\<lparr>n_traffic := (n_traffic x)\<lparr>
           nt_cycle_started_at := Some (unixMilli (?cs n)), nt_cycle_upload := up, nt_cycle_download := down,
           nt_calibration := Some used, nt_calibration_proxy := Some s,
           nt_calibrated_at := Some (unixMilli now)\<rparr>, n_updated_at := unixMilli now\<rparr>"
  have "sql_first (\<lambda>x. n_id x = nid \<and> n_archived_at x = None) (sql_update (\<lambda>x. n_id x = nid) ?f ns) =
      map_option ?f (sql_first (\<lambda>x. n_id x = nid \<and> n_archived_at x = None) ns)" for ns :: "node_row list"
    by (induction ns) auto
  then have "find_active_node nid d' = Some (?f n)"
    using n by (simp add: d' find_active_node_def update_nodes_def)
  with that u n t b show ?thesis by auto
qed

section \<open>Online snapshots\<close>

lemma online_step_Inr:
  "online_step identity s user ((tot, k, un), d) = Inr ((tot', k', un'), d') \<Longrightarrow>
     (\<exists>t. d' = d\<lparr>db_online_users := t\<rparr>) \<and> k' + un' = k + un + 1 \<and>
     (0 \<le> tot \<longrightarrow> ou_connections user \<le> MaxInt64 \<longrightarrow> tot' = tot + ou_connections user \<and> 0 \<le> tot' \<and> tot' \<le> MaxInt64)"
  by (auto simp: online_step_def Let_def split: if_splits option.splits)

lemma online_steps:
  assumes "rfold (online_step identity s) users ((tot, k, un), d) = Inr ((tot', k', un'), d')"
    and "\<forall>user\<in>set users. ou_connections user \<le> MaxInt64" and "0 \<le> tot"
  shows "(\<exists>t. d' = d\<lparr>db_online_users := t\<rparr>) \<and> k' + un' = k + un + int (length users) \<and>
    tot' = tot + sum_list (map ou_connections users)"
  using assms
proof (induction users arbitrary: tot k un d)
  case Nil
  then show ?case by (auto intro: exI [of _ "db_online_users d"])
next
  case (Cons user users)
  then obtain t1 k1 u1 d1 where 1: "online_step identity s user ((tot, k, un), d) = Inr ((t1, k1, u1), d1)"
    and 2: "rfold (online_step identity s) users ((t1, k1, u1), d1) = Inr ((tot', k', un'), d')"
    by (auto simp: rbind_Inr_conv)
  note o1 = online_step_Inr [OF 1]
  from Cons.IH [OF 2] Cons.prems(2,3) o1 show ?case by auto
qed

lemma RecordOnlineSnapshot_True:
  assumes "RecordOnlineSnapshot identity snapshot now d = (Inr True, d')"
    and "\<forall>user\<in>set (os_users snapshot). ou_connections user \<le> MaxInt64"
  obtains r where "sql_first (\<lambda>r. os_node_id r = ai_node_id identity) (db_online_snapshots d') = Some r"
    "os_row_sampled_at r = unixMilli (os_sampled_at snapshot)"
    "os_total_connections r = sum_list (map ou_connections (os_users snapshot))"
    "os_known_users r + os_unknown_users r = int (length (os_users snapshot))"
    "\<forall>p. sql_first (\<lambda>r. os_node_id r = ai_node_id identity) (db_online_snapshots d) = Some p \<longrightarrow>
       os_row_sampled_at p < os_row_sampled_at r"
proof -
  let ?d0 = "d\<lparr>db_online_users := sql_delete (\<lambda>r. o_node_id r = ai_node_id identity) (db_online_users d)\<rparr>"
  let ?row = "\<lambda>tot k un. \<lparr> os_node_id = ai_node_id identity, os_agent_installation_id = ai_installation_id identity,
              os_row_snapshot_id = os_snapshot_id snapshot,
              os_row_sampled_at = unixMilli (os_sampled_at snapshot), os_received_at = unixMilli now,
              os_total_connections = tot, os_known_users = k, os_unknown_users = un \<rparr>"
  from assms(1) obtain tot k un d1 where
    f: "rfold (online_step identity (unixMilli (os_sampled_at snapshot))) (os_users snapshot) ((0, 0, 0), ?d0) =
        Inr ((tot, k, un), d1)"
    and s: "db_online_snapshots d' = sql_upsert os_node_id (?row tot k un) (\<lambda>_. ?row tot k un) (db_online_snapshots d1)"
    and newer: "\<forall>p. sql_first (\<lambda>r. os_node_id r = ai_node_id identity) (db_online_snapshots d) = Some p \<longrightarrow>
       os_row_sampled_at p < unixMilli (os_sampled_at snapshot)"
    by (auto simp: RecordOnlineSnapshot_def transact_commit rbind_Inr_conv Let_def update_nodes_def
        split: if_splits option.splits)
  have "sql_first (\<lambda>r. os_node_id r = ai_node_id identity) (db_online_snapshots d') = Some (?row tot k un)"
    unfolding s using lookup_replace [of os_node_id "?row tot k un" "db_online_snapshots d1"] by simp
  with that [of "?row tot k un"] online_steps [OF f assms(2)] newer show ?thesis by simp
qed

section \<open>Manual kicks and expiry\<close>

lemma kick_step_Inr:
  "kick_step userID reason now n (ch, d) = Inr (ch', d') \<longleftrightarrow>
     requestKickTx n userID reason now d = Inr d' \<and> ch' = addChangedAssignment n userID ch"
  by (auto simp: kick_step_def rbind_Inr_conv)

lemma kick_loop:
  assumes "rfold (kick_step userID reason now) ns (ch, d) = Inr (ch', d')" and "distinct ns"
  shows "(\<exists>t. d' = d\<lparr>db_kicks := t\<rparr>) \<and> set ch' = set ch \<union> (\<lambda>n. (n, userID)) ` set ns \<and>
    (\<forall>n\<in>set ns. find_active_node n d \<noteq> None) \<and>
    (\<forall>j w. kick_generation d' j w = kick_generation d j w +
      (if w = userID \<and> j \<in> set ns \<and> (case find_active_node j d of None \<Rightarrow> False
          | Some n \<Rightarrow> kicks_supported (n_adapter_type n)) then 1 else 0))"
  using assms
proof (induction ns arbitrary: ch d)
  case Nil
  then show ?case by (auto intro: exI [of _ "db_kicks d"])
next
  case (Cons n ns)
  from Cons.prems(1) obtain d1 where k: "requestKickTx n userID reason now d = Inr d1"
    and r: "rfold (kick_step userID reason now) ns (addChangedAssignment n userID ch, d1) = Inr (ch', d')"
    by (auto simp: kick_step_Inr rbind_Inr_conv)
  obtain m where m: "find_active_node n d = Some m" using k by (auto simp: requestKickTx_def split: option.splits)
  obtain t where t: "d1 = d\<lparr>db_kicks := t\<rparr>" using requestKickTx_frame [OF k] by blast
  then have fa: "find_active_node j d1 = find_active_node j d" for j by (simp add: find_active_node_def)
  have g: "kick_generation d1 j w = kick_generation d j w +
      (if (j, w) = (n, userID) \<and> kicks_supported (n_adapter_type m) then 1 else 0)" for j w
    by (rule requestKickTx_generation [OF k m])
  have dn: "distinct ns" "n \<notin> set ns" using Cons.prems(2) by simp_all
  note IH = Cons.IH [OF r dn(1), unfolded fa]
  then obtain t' where t': "d' = d1\<lparr>db_kicks := t'\<rparr>" by blast
  then have fr: "\<exists>t. d' = d\<lparr>db_kicks := t\<rparr>" by (simp add: t exI [of _ t'])
  have ch: "set ch' = set ch \<union> (\<lambda>n. (n, userID)) ` set (n # ns)" using IH by (auto simp: addChangedAssignment_def)
  have ac: "\<forall>x\<in>set (n # ns). find_active_node x d \<noteq> None" using IH m by auto
  have "kick_generation d' j w = kick_generation d j w +
      (if w = userID \<and> j \<in> set (n # ns) \<and> (case find_active_node j d of None \<Rightarrow> False
          | Some n \<Rightarrow> kicks_supported (n_adapter_type n)) then 1 else 0)" for j w
    using IH g [of j w] m dn(2) by (cases "j = n") auto
  with fr ch ac show ?case by blast
qed

lemma mark_changed_kicks: "db_kicks (mark_changed changed i v now d) = db_kicks d"
  using mark_changed_frame [of changed i v now d] by auto

lemma bumpChanged_kicks:
  "bumpChangedAssignmentsTx e changed now d = Inr d' \<Longrightarrow> db_kicks d' = db_kicks d"
  unfolding bumpChangedAssignmentsTx_def bumpChangedNode_alt
proof (erule rfold_relation [where R = "\<lambda>a b. db_kicks b = db_kicks a"])
  show "db_kicks s' = db_kicks s"
    if "rbind (bumpNodeSnapshot e i now s) (\<lambda>(v, d1). Inr (mark_changed changed i v now d1)) = Inr s'" for i s s'
    using that by (auto simp: rbind_Inr_conv mark_changed_kicks bumpNodeSnapshot_Inr bumped_def)
qed simp_all

lemma kick_generation_cong: "db_kicks d' = db_kicks d \<Longrightarrow> kick_generation d' = kick_generation d"
  by (simp add: kick_generation_def fun_eq_iff)

lemma distinct_user_nodes:
  assumes "unique_by akey (db_assignments d)" and "\<And>a. p a \<Longrightarrow> a_user_id a = u"
  shows "distinct (map a_node_id (filter p (db_assignments d)))"
proof -
  have "distinct (map akey (filter p (db_assignments d)))"
    using assms(1) by (simp add: unique_by_def distinct_map_filter)
  then have d: "distinct (filter p (db_assignments d))" and
    i: "inj_on akey (set (filter p (db_assignments d)))" by (simp_all add: distinct_map)
  have "inj_on a_node_id (set (filter p (db_assignments d)))"
  proof (rule inj_onI)
    fix x y assume xy: "x \<in> set (filter p (db_assignments d))" "y \<in> set (filter p (db_assignments d))"
      "a_node_id x = a_node_id y"
    then have "akey x = akey y" using assms(2) by (simp add: akey_def)
    with i xy(1,2) show "x = y" by (auto dest: inj_onD)
  qed
  with d show ?thesis by (simp add: distinct_map)
qed

lemma kick_nodes_distinct: "unique_by akey (db_assignments d) \<Longrightarrow> distinct (kick_nodes userID nodeID d)"
  unfolding kick_nodes_def distinct_sort by (rule distinct_user_nodes [where u = userID]) simp_all

lemma kick_nodes_supported:
  "j \<in> set (kick_nodes userID nodeID d) \<Longrightarrow> \<exists>n. find_active_node j d = Some n \<and> kicks_supported (n_adapter_type n)"
  by (auto simp: kick_nodes_def split: option.splits)

lemma RequestUserKick_effect:
  assumes "RequestUserKick e userID nodeID now d = (Inr k, d')"
    and "versions_ok d" and "unique_by akey (db_assignments d)"
  shows "k = int (length (kick_nodes userID nodeID d)) \<and> 0 < k \<and> versions_ok d' \<and>
    (\<forall>j. desired_version d' j = (if j \<in> set (kick_nodes userID nodeID d)
       then map_option (\<lambda>v. v + 1) (desired_version d j) else desired_version d j)) \<and>
    (\<forall>j w. kick_generation d' j w = kick_generation d j w +
       (if w = userID \<and> j \<in> set (kick_nodes userID nodeID d) then 1 else 0))"
proof -
  let ?ns = "kick_nodes userID nodeID d"
  from assms(1) obtain ch d1 where ne: "?ns \<noteq> []"
    and l: "rfold (kick_step userID ''manual'' now) ?ns ([], d) = Inr (ch, d1)"
    and b: "bumpChangedAssignmentsTx e ch now d1 = Inr d'" and k: "k = int (length ?ns)"
    by (auto simp: RequestUserKick_def transact_commit Let_def rbind_Inr_conv split: if_splits)
  note kl = kick_loop [OF l kick_nodes_distinct [OF assms(3)]]
  then obtain t where d1: "d1 = d\<lparr>db_kicks := t\<rparr>" by blast
  have ch: "fst ` set ch = set ?ns" using kl by (simp add: image_image)
  have v1: "versions_ok d1" "desired_version d1 = desired_version d"
    using assms(2) by (simp_all add: d1 versions_ok_def desired_version_def find_node_def fun_eq_iff)
  have g1: "kick_generation d1 j w = kick_generation d j w + (if w = userID \<and> j \<in> set ?ns then 1 else 0)" for j w
    using kl kick_nodes_supported [of j userID nodeID d] by (auto split: option.splits)
  have g: "kick_generation d' = kick_generation d1"
    by (rule kick_generation_cong [OF bumpChanged_kicks [OF b]])
  show ?thesis using bumpChanged_versions [OF v1(1) b] k ne by (simp add: ch v1(2) g g1)
qed

section \<open>Properties\<close>

definition sample_identity :: agent_identity where
  "sample_identity = \<lparr> ai_node_id = ''n1'', ai_installation_id = ''inst1'',
     ai_adapter_type = ''native_hysteria2'', ai_enabled = True \<rparr>"

lemma sample_ledger_ok: "ledger_ok sample_db"
  by (simp add: ledger_ok_def counters_ok_def ledger_users_def ledger_assignments_def ledger_totals_def
      ledger_items_def ledger_nodes_def ledger_batches_def user_counts_def assignment_counts_def
      node_counts_def unique_by_def total_of_def sample_defs MaxInt64_def akey_def)

lemma sample_versions_ok: "versions_ok sample_db"
  by (simp add: versions_ok_def sample_defs unique_by_def skey_def)

lemma sample_accepted: "fst (IngestTrafficBatch sample_env sample_identity sample_batch sample_now sample_db) = Inr (''accepted'', '''')"
  by code_simp

lemma sample_items_ok: "\<forall>item\<in>set (tb_items sample_batch). item_ok item"
  by (simp add: sample_batch_def item_ok_def int64_range_def MinInt64_def MaxInt64_def)

text \<open>C1: Re-delivery is harmless.  Once a batch was accepted, delivering it again, at any later
  time and after any number of other deliveries, answers "duplicate" and changes nothing.\<close>

theorem ingest_idempotent:
  assumes "IngestTrafficBatch e identity batch now d = (Inr (''accepted'', c), d')"
  shows "IngestTrafficBatch e identity batch later (ingest_all e rs d') = (Inr (''duplicate'', ''''), ingest_all e rs d')"
proof -
  from IngestTrafficBatch_cases [OF assms] have b: "ingest_body e identity batch now d = Inr d'"
    and i: "tb_installation_id batch = ai_installation_id identity" by auto
  from ingest_all_grows obtain rest where "db_batches (ingest_all e rs d') = db_batches d' @ rest" by blast
  from accepted_recorded [OF b this] i show ?thesis by (auto intro: duplicate_if_recorded)
qed

lemma ingest_idempotent_witness:
  "fst (IngestTrafficBatch sample_env sample_identity sample_batch (sample_now + 5)
     (ingest_all sample_env [(sample_identity, sample_batch\<lparr>tb_id := ''b2'', tb_sequence := 2\<rparr>, sample_now + 1)]
       (snd (IngestTrafficBatch sample_env sample_identity sample_batch sample_now sample_db)))) =
   Inr (''duplicate'', '''')"
  using ingest_idempotent [of sample_env sample_identity sample_batch sample_now sample_db "''''"
      "snd (IngestTrafficBatch sample_env sample_identity sample_batch sample_now sample_db)" "sample_now + 5"
      "[(sample_identity, sample_batch\<lparr>tb_id := ''b2'', tb_sequence := 2\<rparr>, sample_now + 1)]"]
    sample_accepted by (metis fst_conv prod.collapse)



text \<open>C2: Ingestion keeps the ledger invariant: after any delivery every cached counter (of users,
  assignments, totals, nodes, batches) is still the exact sum over the logged items, uploads
  plus downloads give the used bytes, and no counter left the 64-bit range.\<close>

theorem ingest_keeps_ledger:
  assumes "ledger_ok d" and "\<forall>item\<in>set (tb_items batch). item_ok item"
  shows "ledger_ok (snd (IngestTrafficBatch e identity batch now d))"
proof (cases "IngestTrafficBatch e identity batch now d")
  case (Pair r d')
  then show ?thesis
    using IngestTrafficBatch_cases [OF Pair] ingest_body_Inr(1) [OF assms, of e identity now d'] assms(1) by auto
qed

lemma ingest_keeps_ledger_witness:
  "ledger_ok (snd (IngestTrafficBatch sample_env sample_identity sample_batch sample_now sample_db))"
  by (rule ingest_keeps_ledger [OF sample_ledger_ok sample_items_ok])





text \<open>Calibration takes effect at once: after a successful calibration to the provider's figure,
  the effective usage of the node is exactly that figure.\<close>

lemma calibration_effective:
  assumes "CalibrateNodeTraffic nid used now d = (Inr x, d')" and "unique_by n_id (db_nodes d)"
    and "used \<le> MaxInt64"
  shows "\<exists>n'. find_active_node nid d' = Some n' \<and> EffectiveNodeTrafficUsed (n_traffic n') = used"
proof -
  from CalibrateNodeTraffic_Inr [OF assms(1,2)] obtain up down n' where b: "0 \<le> used" "0 \<le> up" "0 \<le> down" "up + down \<le> MaxInt64"
    and n': "find_active_node nid d' = Some n'" "nt_cycle_upload (n_traffic n') = up"
      "nt_cycle_download (n_traffic n') = down" "nt_calibration (n_traffic n') = Some used"
      "nt_calibration_proxy (n_traffic n') = Some (up + down)" by metis
  have "EffectiveNodeTrafficUsed (n_traffic n') = used"
    using b assms(3) by (subst EffectiveNodeTrafficUsed_eq) (simp_all add: n')
  with n' show ?thesis by blast
qed

text \<open>C25: The effective usage of a node saturates: with non-negative 64-bit counters it is the
  calibrated figure plus the traffic since calibration (never less than the figure), or the
  cycle's traffic without calibration, cut at the largest 64-bit integer.\<close>

theorem effective_usage_saturates:
  assumes "0 \<le> nt_cycle_upload t" "0 \<le> nt_cycle_download t" "nt_cycle_download t \<le> MaxInt64"
    and "case nt_calibration t of None \<Rightarrow> True | Some c \<Rightarrow> 0 \<le> c \<and> c \<le> MaxInt64"
    and "case nt_calibration_proxy t of None \<Rightarrow> True | Some c \<Rightarrow> 0 \<le> c \<and> c \<le> MaxInt64"
  shows "EffectiveNodeTrafficUsed t =
    (let proxy = nt_cycle_upload t + nt_cycle_download t in
     if MaxInt64 < proxy then MaxInt64
     else case (nt_calibration t, nt_calibration_proxy t) of
       (Some c, Some p) \<Rightarrow> min MaxInt64 (c + max 0 (proxy - p)) | _ \<Rightarrow> proxy)"
  by (rule EffectiveNodeTrafficUsed_eq [OF assms])

lemma effective_usage_saturates_witness:
  "EffectiveNodeTrafficUsed (sample_traffic\<lparr>nt_cycle_upload := 10, nt_calibration := Some MaxInt64,
     nt_calibration_proxy := Some 3\<rparr>) = MaxInt64"
  by (subst effective_usage_saturates) (simp_all add: sample_traffic_def MaxInt64_def Let_def)

text \<open>C20: A manual kick reaches exactly the user's kickable nodes: their kick generation for that user
  and their desired version grow by one, every other generation and version stays, and the
  version invariant is kept.\<close>

theorem manual_kick_exact:
  assumes "RequestUserKick e userID nodeID now d = (Inr k, d')"
    and "versions_ok d" and "unique_by akey (db_assignments d)"
  shows "k = int (length (kick_nodes userID nodeID d)) \<and> 0 < k \<and> versions_ok d' \<and>
    (\<forall>j. desired_version d' j = (if j \<in> set (kick_nodes userID nodeID d)
       then map_option (\<lambda>v. v + 1) (desired_version d j) else desired_version d j)) \<and>
    (\<forall>j w. kick_generation d' j w = kick_generation d j w +
       (if w = userID \<and> j \<in> set (kick_nodes userID nodeID d) then 1 else 0))"
  by (rule RequestUserKick_effect [OF assms])

lemma manual_kick_exact_witness:
  "versions_ok (snd (RequestUserKick sample_env ''u1'' '''' sample_now sample_db)) \<and>
   kick_generation (snd (RequestUserKick sample_env ''u1'' '''' sample_now sample_db)) ''n1'' ''u1'' = 1"
proof -
  have "fst (RequestUserKick sample_env ''u1'' '''' sample_now sample_db) = Inr 1" by code_simp
  then have "RequestUserKick sample_env ''u1'' '''' sample_now sample_db =
      (Inr 1, snd (RequestUserKick sample_env ''u1'' '''' sample_now sample_db))" by (simp add: prod_eq_iff)
  moreover have "unique_by akey (db_assignments sample_db)" by (simp add: sample_defs unique_by_def)
  moreover have "kick_nodes ''u1'' '''' sample_db = [''n1'']" by code_simp
  moreover have "kick_generation sample_db ''n1'' ''u1'' = 0" by code_simp
  ultimately show ?thesis
    using manual_kick_exact [of sample_env "''u1''" "''''" sample_now sample_db 1
        "snd (RequestUserKick sample_env ''u1'' '''' sample_now sample_db)"] sample_versions_ok by simp
qed


definition sample_online_snapshot :: online_snapshot where
  "sample_online_snapshot = \<lparr> os_snapshot_id = ''s1'', os_installation_id = ''inst1'',
     os_sampled_at = sample_now, os_users = [\<lparr> ou_user_id = ''u1'', ou_connections = 2 \<rparr>,
       \<lparr> ou_user_id = ''ghost'', ou_connections = 3 \<rparr>] \<rparr>"


end
