(* ===== verification/Alerts.thy ===== *)
theory Alerts
  imports Traffic
begin

text \<open>
  Alerts (internal/store/alert.go and the queueing part of notification.go): one open alert
  per node and type, opened and resolved by the periodic reconciliation, acknowledged by an
  administrator, with one notification per subscribed notifier and event.  The encoded JSON
  payload of a notification is kept decoded.  The theory shows that the table never holds two
  open alerts of one kind and that after a reconciliation the open alerts are exactly the
  conditions that hold.
\<close>

section \<open>Notifications\<close>

definition ndkey :: "delivery_row \<Rightarrow> string \<times> string \<times> string" where
  "ndkey r = (nd_notifier_id r, nd_alert_id r, nd_event_type r)"

definition enqueue_one ::
  "env \<Rightarrow> string \<Rightarrow> string \<Rightarrow> alert_notification \<Rightarrow> gotime \<Rightarrow> string \<Rightarrow> db \<Rightarrow> db" where
  "enqueue_one e alertID eventType payload now notifierID d =
     (let (i, d1) = NewID e d;
          row = \<lparr> nd_id = i, nd_notifier_id = notifierID, nd_alert_id = alertID, nd_event_type = eventType,
                  nd_payload = payload, nd_status = ''queued'', nd_attempt_count = 0,
                  nd_next_attempt_at = unixMilli now, nd_last_error = '''', nd_response_code = 0,
                  nd_delivered_at = None, nd_created_at = unixMilli now, nd_updated_at = unixMilli now \<rparr>
      in d1\<lparr>db_deliveries := sql_upsert ndkey row (\<lambda>x. x) (db_deliveries d1)\<rparr>)"

definition enqueueAlertNotificationTx ::
  "env \<Rightarrow> string \<Rightarrow> string \<Rightarrow> alert_notification \<Rightarrow> gotime \<Rightarrow> db \<Rightarrow> store_error + db" where
  "enqueueAlertNotificationTx e alertID eventType payload now d =
     (if eventType \<noteq> ''created'' \<and> eventType \<noteq> ''resolved'' then Inl ErrUnsupported
      else Inr (fold (enqueue_one e alertID eventType payload now)
             (map nf_id (filter (\<lambda>n. nf_enabled n \<and> eventType \<in> set (nf_events n)) (db_notifiers d))) d))"

definition alertNotificationJSON ::
  "string \<Rightarrow> string \<Rightarrow> gotime \<Rightarrow> db \<Rightarrow> store_error + alert_notification" where
  "alertNotificationJSON alertID event now d =
     (case sql_first (\<lambda>a. al_id a = alertID) (db_alerts d) of
        None \<Rightarrow> Inl (ErrOther ''read alert notification payload'')
      | Some a \<Rightarrow>
     case find_node (al_node_id a) d of
        None \<Rightarrow> Inl (ErrOther ''read alert notification payload'')
      | Some n \<Rightarrow> Inr \<lparr> an_event = event, an_alert_id = alertID, an_node_id = al_node_id a,
          an_node_name = n_name n, an_type = al_type a, an_severity = al_severity a,
          an_status = al_status a, an_message = al_message a, an_occurred_at = now \<rparr>)"

section \<open>Opening and resolving\<close>

definition open_alert :: "string \<Rightarrow> string \<Rightarrow> alert_row \<Rightarrow> bool" where
  "open_alert nodeID alertType a \<longleftrightarrow> al_node_id a = nodeID \<and> al_type a = alertType \<and> al_resolved_at a = None"

definition seen_again_row :: "string \<Rightarrow> string \<Rightarrow> int \<Rightarrow> alert_row \<Rightarrow> alert_row" where
  "seen_again_row severity message now a =
     a\<lparr>al_severity := severity, al_message := message, al_last_seen_at := now, al_updated_at := now\<rparr>"

definition resolved_row :: "int \<Rightarrow> alert_row \<Rightarrow> alert_row" where
  "resolved_row now a = a\<lparr>al_status := ''resolved'', al_resolved_at := Some now, al_updated_at := now\<rparr>"

definition new_alert_row :: "string \<Rightarrow> string \<Rightarrow> string \<Rightarrow> string \<Rightarrow> string \<Rightarrow> int \<Rightarrow> alert_row" where
  "new_alert_row alertID nodeID alertType severity message now = \<lparr>
     al_id = alertID, al_node_id = nodeID, al_type = alertType, al_severity = severity, al_status = ''open'',
     al_message = message, al_occurrence_count = 1, al_first_seen_at = now, al_last_seen_at = now,
     al_acknowledged_by = None, al_acknowledged_at = None, al_resolved_at = None,
     al_created_at = now, al_updated_at = now \<rparr>"

definition upsertAlertTx ::
  "env \<Rightarrow> string \<Rightarrow> string \<Rightarrow> string \<Rightarrow> string \<Rightarrow> gotime \<Rightarrow> db \<Rightarrow> store_error + db" where
  "upsertAlertTx e nodeID alertType severity message now d =
     (let message = take 512 message in
      case sql_first (open_alert nodeID alertType) (db_alerts d) of
        Some a \<Rightarrow> Inr (d\<lparr>db_alerts := sql_update (\<lambda>x. al_id x = al_id a)
                       (seen_again_row severity message (unixMilli now)) (db_alerts d)\<rparr>)
      | None \<Rightarrow>
          let (alertID, d1) = NewID e d;
              row = new_alert_row alertID nodeID alertType severity message (unixMilli now) in
          if find_node nodeID d1 = None then Inl (ErrOther ''insert alert'')
          else case sql_insert al_id row (db_alerts d1) of
            None \<Rightarrow> Inl (ErrOther ''insert alert'')
          | Some t \<Rightarrow>
              let d2 = d1\<lparr>db_alerts := t\<rparr> in
              rbind (alertNotificationJSON alertID ''created'' now d2) (\<lambda>payload.
              enqueueAlertNotificationTx e alertID ''created'' payload now d2))"

definition resolveAlertTx :: "env \<Rightarrow> string \<Rightarrow> string \<Rightarrow> gotime \<Rightarrow> db \<Rightarrow> store_error + db" where
  "resolveAlertTx e nodeID alertType now d =
     (case sql_first (open_alert nodeID alertType) (db_alerts d) of
        None \<Rightarrow> Inr d
      | Some a \<Rightarrow>
          let d1 = d\<lparr>db_alerts := sql_update (\<lambda>x. al_id x = al_id a \<and> al_resolved_at x = None)
                     (resolved_row (unixMilli now)) (db_alerts d)\<rparr> in
          rbind (alertNotificationJSON (al_id a) ''resolved'' now d1) (\<lambda>payload.
          enqueueAlertNotificationTx e (al_id a) ''resolved'' payload now d1))"

definition acknowledged_row :: "string \<Rightarrow> int \<Rightarrow> alert_row \<Rightarrow> alert_row" where
  "acknowledged_row adminID now a = a\<lparr>al_status := ''acknowledged'', al_acknowledged_by := Some adminID,
     al_acknowledged_at := Some now, al_updated_at := now\<rparr>"

definition AcknowledgeAlert :: "string \<Rightarrow> string \<Rightarrow> gotime \<Rightarrow> db \<Rightarrow> (store_error + alert_row) \<times> db" where
  "AcknowledgeAlert alertID adminID now d =
     (if sql_exists (\<lambda>a. al_id a = alertID \<and> al_resolved_at a = None) (db_alerts d) then
        let d' = d\<lparr>db_alerts := sql_update (\<lambda>a. al_id a = alertID \<and> al_resolved_at a = None)
                    (acknowledged_row adminID (unixMilli now)) (db_alerts d)\<rparr> in
        (case sql_first (\<lambda>a. al_id a = alertID) (db_alerts d') of
           None \<Rightarrow> Inl (ErrOther ''read acknowledged alert'')
         | Some a \<Rightarrow> if find_node (al_node_id a) d' = None then Inl (ErrOther ''read acknowledged alert'') else Inr a,
         d')
      else if sql_exists (\<lambda>a. al_id a = alertID) (db_alerts d) then (Inl ErrConflict, d)
      else (Inl ErrNotFound, d))"

section \<open>Reconciliation\<close>

record alert_condition =
  ac_node_id :: string
  ac_enabled :: bool
  ac_status :: string
  ac_status_reason :: string
  ac_installed :: bool
  ac_core_running :: bool
  ac_last_activity_at :: gotime
  ac_usage_enabled :: bool
  ac_usage_error_code :: string
  ac_desired_version :: int
  ac_applied_version :: int
  ac_desired_created_at :: gotime
  ac_failed_assignments :: bool
  ac_operation_failure :: bool
  ac_traffic_limit :: int
  ac_traffic_used :: int

definition expired_operation_row :: "int \<Rightarrow> operation_row \<Rightarrow> operation_row" where
  "expired_operation_row now x = x\<lparr>op_status := ''expired'', op_completed_at := Some now, op_updated_at := now,
     op_error_code := ''operation_expired'', op_error_message := ''operation expired before completion''\<rparr>"

definition expire_queued :: "(operation_row \<Rightarrow> bool) \<Rightarrow> gotime \<Rightarrow> db \<Rightarrow> db" where
  "expire_queued p now d = d\<lparr>db_operations :=
     sql_update (\<lambda>x. p x \<and> op_status x = ''queued'' \<and> op_expires_at x \<le> unixMilli now)
       (expired_operation_row (unixMilli now)) (db_operations d)\<rparr>"

definition unrecovered :: "operation_row list \<Rightarrow> operation_row \<Rightarrow> bool" where
  "unrecovered ops failed \<longleftrightarrow> (op_status failed = ''failed'' \<or> op_status failed = ''expired'') \<and>
     \<not> list_ex (\<lambda>recovered. op_node_id recovered = op_node_id failed \<and> op_type recovered = op_type failed \<and>
          op_sequence recovered > op_sequence failed \<and> op_status recovered = ''succeeded'') ops"

text \<open>The usage column of the query; SQLite leaves the integers on overflow and the scan fails.\<close>

definition traffic_used_column :: "node_traffic \<Rightarrow> int option" where
  "traffic_used_column t =
     (let proxy = nt_cycle_upload t + nt_cycle_download t in
      if \<not> int64_range proxy then None
      else case (nt_calibration t, nt_calibration_proxy t) of
        (Some c, Some p) \<Rightarrow>
          if int64_range (proxy - p) \<and> int64_range (c + max 0 (proxy - p)) then Some (c + max 0 (proxy - p)) else None
      | _ \<Rightarrow> Some proxy)"

definition condition_of :: "db \<Rightarrow> node_row \<Rightarrow> store_error + alert_condition" where
  "condition_of d n =
     (case traffic_used_column (n_traffic n) of
        None \<Rightarrow> Inl (ErrOther ''scan alert condition'')
      | Some used \<Rightarrow> Inr \<lparr>
          ac_node_id = n_id n, ac_enabled = n_enabled n, ac_status = n_status n,
          ac_status_reason = n_status_reason n,
          ac_installed = (case na_installation_id (n_agent n) of None \<Rightarrow> False | Some i \<Rightarrow> i \<noteq> ''''),
          ac_core_running = na_core_running (n_agent n),
          ac_last_activity_at = unixTime (case na_last_seen_at (n_agent n) of None \<Rightarrow> n_updated_at n | Some t \<Rightarrow> t),
          ac_usage_enabled = nu_enabled (n_usage n), ac_usage_error_code = nu_error_code (n_usage n),
          ac_desired_version = n_desired_version n, ac_applied_version = n_applied_version n,
          ac_desired_created_at = unixTime
            (case sql_first (\<lambda>s. skey s = (n_id n, n_desired_version n)) (db_snapshots d) of
               None \<Rightarrow> n_updated_at n | Some s \<Rightarrow> s_created_at s),
          ac_failed_assignments = sql_exists (\<lambda>a. a_node_id a = n_id n \<and> a_state a = ''failed'') (db_assignments d),
          ac_operation_failure = sql_exists (\<lambda>x. op_node_id x = n_id n \<and> unrecovered (db_operations d) x) (db_operations d),
          ac_traffic_limit = nt_limit (n_traffic n), ac_traffic_used = used \<rparr>)"

record alert_check =
  ck_type :: string
  ck_severity :: string
  ck_active :: bool
  ck_message :: string

definition traffic_warning :: "int \<Rightarrow> int \<Rightarrow> bool" where
  "traffic_warning limit used \<longleftrightarrow> limit > 0 \<and> used < limit \<and> used \<ge> limit - limit div 5"

definition traffic_exhausted :: "int \<Rightarrow> int \<Rightarrow> bool" where
  "traffic_exhausted limit used \<longleftrightarrow> limit > 0 \<and> used \<ge> limit"

definition alert_checks :: "gotime \<Rightarrow> duration \<Rightarrow> duration \<Rightarrow> alert_condition \<Rightarrow> alert_check list" where
  "alert_checks now offlineAfter syncStuckAfter c =
     (let recent = time_sub now (ac_last_activity_at c) < offlineAfter;
          check = (\<lambda>t s a m. \<lparr> ck_type = t, ck_severity = s, ck_active = a, ck_message = m \<rparr>) in
      [check ''offline'' ''critical'' (ac_enabled c \<and> ac_installed c \<and> \<not> recent) ''Agent heartbeat is overdue'',
       check ''degraded'' ''warning'' (ac_enabled c \<and> ac_status c = ''degraded'') (ac_status_reason c),
       check ''core_down'' ''critical'' (ac_enabled c \<and> ac_installed c \<and> recent \<and> \<not> ac_core_running c)
         ''core service is not running'',
       check ''usage_error'' ''warning'' (ac_enabled c \<and> ac_usage_enabled c \<and> ac_usage_error_code c \<noteq> '''')
         (ac_usage_error_code c),
       check ''sync_failed'' ''warning'' (ac_enabled c \<and> ac_failed_assignments c)
         ''one or more desired assignments failed'',
       check ''sync_stuck'' ''warning''
         (ac_enabled c \<and> ac_installed c \<and> ac_desired_version c > ac_applied_version c \<and>
          time_sub now (ac_desired_created_at c) \<ge> syncStuckAfter)
         ''desired state has not been applied within the expected window'',
       check ''operation_failed'' ''warning'' (ac_operation_failure c) ''a node operation failed or expired'',
       check ''traffic_quota_warning'' ''warning'' (traffic_warning (ac_traffic_limit c) (ac_traffic_used c))
         ''node traffic has reached 80% of the configured monthly allowance'',
       check ''traffic_quota_exhausted'' ''critical'' (traffic_exhausted (ac_traffic_limit c) (ac_traffic_used c))
         ''node traffic has reached the configured monthly allowance''])"

definition run_check :: "env \<Rightarrow> gotime \<Rightarrow> string \<times> alert_check \<Rightarrow> db \<Rightarrow> store_error + db" where
  "run_check e now = (\<lambda>(nodeID, check) d.
     if ck_active check then
       upsertAlertTx e nodeID (ck_type check) (ck_severity check)
         (if ck_message check = '''' then ck_type check else ck_message check) now d
     else resolveAlertTx e nodeID (ck_type check) now d)"

definition default_duration :: "duration \<Rightarrow> duration \<Rightarrow> duration" where
  "default_duration x def = (if x \<le> 0 then def else x)"

text \<open>The checks of every condition, in the order of the two nested loops.\<close>

definition all_checks :: "gotime \<Rightarrow> duration \<Rightarrow> duration \<Rightarrow> alert_condition list \<Rightarrow> (string \<times> alert_check) list" where
  "all_checks now offlineAfter syncStuckAfter cs =
     concat (map (\<lambda>c. map (Pair (ac_node_id c)) (alert_checks now offlineAfter syncStuckAfter c)) cs)"

definition ReconcileAlerts ::
  "env \<Rightarrow> gotime \<Rightarrow> duration \<Rightarrow> duration \<Rightarrow> db \<Rightarrow> (store_error + unit) \<times> db" where
  "ReconcileAlerts e now offlineAfter syncStuckAfter = transact (\<lambda>d.
     let offlineAfter = default_duration offlineAfter (90 * second);
         syncStuckAfter = default_duration syncStuckAfter (5 * minute);
         d1 = expire_queued (\<lambda>_. True) now d in
     rbind (rmap (condition_of d1) (filter (\<lambda>n. n_archived_at n = None) (db_nodes d1))) (\<lambda>conditions.
     rbind (rfold (run_check e now) (all_checks now offlineAfter syncStuckAfter conditions) d1) (\<lambda>d2.
     Inr ((), d2))))"

section \<open>The invariant of the alert table\<close>

definition has_open :: "db \<Rightarrow> string \<times> string \<Rightarrow> bool" where
  "has_open d k \<longleftrightarrow> (\<exists>a\<in>set (db_alerts d). open_alert (fst k) (snd k) a)"

definition alert_status_ok :: "alert_row \<Rightarrow> bool" where
  "alert_status_ok a \<longleftrightarrow> (al_status a = ''resolved'' \<longleftrightarrow> al_resolved_at a \<noteq> None)"

text \<open>Ids are unique, at most one open alert per node and type, and the status column agrees
  with the time of resolution.\<close>

definition alerts_ok :: "db \<Rightarrow> bool" where
  "alerts_ok d \<longleftrightarrow> unique_by al_id (db_alerts d) \<and> (\<forall>a\<in>set (db_alerts d). alert_status_ok a) \<and>
     (\<forall>a\<in>set (db_alerts d). \<forall>b\<in>set (db_alerts d). al_resolved_at a = None \<longrightarrow> al_resolved_at b = None \<longrightarrow>
        al_node_id a = al_node_id b \<longrightarrow> al_type a = al_type b \<longrightarrow> a = b)"

definition alerts_only :: "db \<Rightarrow> db \<Rightarrow> bool" where
  "alerts_only d d' \<longleftrightarrow> (\<exists>as ds k. d' = d\<lparr>db_alerts := as, db_deliveries := ds, db_next_id := k\<rparr>)"

lemma alerts_onlyI: "alerts_only d (d\<lparr>db_alerts := as, db_deliveries := ds, db_next_id := k\<rparr>)"
  unfolding alerts_only_def by blast

lemma alerts_only_refl: "alerts_only d d"
  using alerts_onlyI [where as = "db_alerts d" and ds = "db_deliveries d" and k = "db_next_id d" and d = d] by simp

lemma alerts_only_trans: "alerts_only a b \<Longrightarrow> alerts_only b c \<Longrightarrow> alerts_only a c"
  unfolding alerts_only_def by force

lemma alerts_only_tables:
  "alerts_only d d' \<Longrightarrow> db_nodes d' = db_nodes d \<and> db_snapshots d' = db_snapshots d \<and>
     db_assignments d' = db_assignments d \<and> db_operations d' = db_operations d \<and> ledger_view d' = ledger_view d"
  by (auto simp: alerts_only_def ledger_view_def)

lemma enqueue_one_frame: "\<exists>t k. enqueue_one e i ev p now n d = d\<lparr>db_deliveries := t, db_next_id := k\<rparr>"
proof -
  let ?d = "enqueue_one e i ev p now n d"
  have "?d = d\<lparr>db_deliveries := db_deliveries ?d, db_next_id := db_next_id ?d\<rparr>"
    by (simp add: enqueue_one_def NewID_def Let_def)
  then show ?thesis by blast
qed

lemma enqueue_fold_frame:
  "\<exists>t k. fold (enqueue_one e i ev p now) ns d = d\<lparr>db_deliveries := t, db_next_id := k\<rparr>"
proof (induction ns arbitrary: d)
  case Nil
  show ?case by (rule exI [of _ "db_deliveries d"], rule exI [of _ "db_next_id d"]) simp
next
  case (Cons n ns)
  obtain t k where "enqueue_one e i ev p now n d = d\<lparr>db_deliveries := t, db_next_id := k\<rparr>"
    using enqueue_one_frame by blast
  with Cons [of "d\<lparr>db_deliveries := t, db_next_id := k\<rparr>"] show ?case by auto
qed

lemma enqueue_frame:
  "enqueueAlertNotificationTx e i ev p now d = Inr d' \<Longrightarrow> \<exists>t k. d' = d\<lparr>db_deliveries := t, db_next_id := k\<rparr>"
  using enqueue_fold_frame by (auto simp: enqueueAlertNotificationTx_def split: if_splits)

interpretation seen_again: row_update al_id "seen_again_row severity message now" for severity message now
  by unfold_locales (simp add: seen_again_row_def)

interpretation resolved: row_update al_id "resolved_row now" for now
  by unfold_locales (simp add: resolved_row_def)

interpretation acknowledged: row_update al_id "acknowledged_row adminID now" for adminID now
  by unfold_locales (simp add: acknowledged_row_def)

text \<open>An update that keeps node, type and resolution of every row keeps the invariant.\<close>

lemma alerts_ok_update:
  assumes ok: "alerts_ok d" and f: "\<And>a. al_id (f a) = al_id a" "\<And>a. al_node_id (f a) = al_node_id a"
      "\<And>a. al_type (f a) = al_type a"
    and st: "\<And>a. a \<in> set (db_alerts d) \<Longrightarrow> p a \<Longrightarrow> alert_status_ok (f a)"
    and res: "\<And>a. a \<in> set (db_alerts d) \<Longrightarrow> p a \<Longrightarrow> al_resolved_at (f a) = None \<Longrightarrow> al_resolved_at a = None"
    and d': "db_alerts d' = sql_update p f (db_alerts d)"
  shows "alerts_ok d'"
proof -
  have u: "unique_by al_id (db_alerts d)" and s: "\<And>a. a \<in> set (db_alerts d) \<Longrightarrow> alert_status_ok a"
    and o: "\<And>a b. a \<in> set (db_alerts d) \<Longrightarrow> b \<in> set (db_alerts d) \<Longrightarrow> al_resolved_at a = None \<Longrightarrow>
       al_resolved_at b = None \<Longrightarrow> al_node_id a = al_node_id b \<Longrightarrow> al_type a = al_type b \<Longrightarrow> a = b"
    using ok unfolding alerts_ok_def by blast+
  have "map al_id (db_alerts d') = map al_id (db_alerts d)"
    by (simp add: d' sql_update_def f)
  then have 1: "unique_by al_id (db_alerts d')" using u by (simp add: unique_by_def)
  have 2: "\<forall>a\<in>set (db_alerts d'). alert_status_ok a"
    unfolding d' ball_sql_update using s st by simp
  have 3: "\<forall>a\<in>set (db_alerts d'). \<forall>b\<in>set (db_alerts d'). al_resolved_at a = None \<longrightarrow> al_resolved_at b = None \<longrightarrow>
        al_node_id a = al_node_id b \<longrightarrow> al_type a = al_type b \<longrightarrow> a = b"
    unfolding d' ball_sql_update
  proof (intro ballI impI)
    fix a b assume ab: "a \<in> set (db_alerts d)" "b \<in> set (db_alerts d)"
      "al_resolved_at (if p a then f a else a) = None" "al_resolved_at (if p b then f b else b) = None"
      "al_node_id (if p a then f a else a) = al_node_id (if p b then f b else b)"
      "al_type (if p a then f a else a) = al_type (if p b then f b else b)"
    then have "a = b" by (intro o) (auto simp: f intro: res split: if_splits)
    then show "(if p a then f a else a) = (if p b then f b else b)" by simp
  qed
  show ?thesis unfolding alerts_ok_def using 1 2 3 by blast
qed

lemma alerts_ok_insert:
  assumes "alerts_ok d" and "\<forall>x\<in>set (db_alerts d). al_id x \<noteq> al_id r" and "alert_status_ok r"
    and "\<And>x. x \<in> set (db_alerts d) \<Longrightarrow> al_node_id x = al_node_id r \<Longrightarrow> al_type x = al_type r \<Longrightarrow> al_resolved_at x \<noteq> None"
    and "db_alerts d' = db_alerts d @ [r]"
  shows "alerts_ok d'"
proof -
  have s: "set (db_alerts d') = insert r (set (db_alerts d))" using assms(5) by simp
  have "unique_by al_id (db_alerts d')" using assms(1,2) by (simp add: alerts_ok_def assms(5) unique_by_append1)
  moreover have "\<forall>a\<in>set (db_alerts d'). alert_status_ok a" using assms(1,3) by (simp add: s alerts_ok_def)
  moreover have "a = b" if "a \<in> set (db_alerts d')" "b \<in> set (db_alerts d')" "al_resolved_at a = None"
      "al_resolved_at b = None" "al_node_id a = al_node_id b" "al_type a = al_type b" for a b
    using that assms(1,4) unfolding s alerts_ok_def by (metis insertE)
  ultimately show ?thesis unfolding alerts_ok_def by blast
qed

lemma has_open_update:
  assumes "\<And>a. al_node_id (f a) = al_node_id a" "\<And>a. al_type (f a) = al_type a"
    and "\<And>a. al_resolved_at (f a) = al_resolved_at a" and "db_alerts d' = sql_update p f (db_alerts d)"
  shows "has_open d' k = has_open d k"
  using assms by (simp add: has_open_def open_alert_def bex_sql_update if_distrib [of al_node_id]
      if_distrib [of al_type] if_distrib [of al_resolved_at])

section \<open>One check\<close>

lemma upsertAlertTx_effect:
  assumes ok: "alerts_ok d" and up: "upsertAlertTx e n t sev msg now d = Inr d'"
  shows "alerts_ok d' \<and> alerts_only d d' \<and> (\<forall>k. has_open d' k \<longleftrightarrow> k = (n, t) \<or> has_open d k)"
proof (cases "sql_first (open_alert n t) (db_alerts d)")
  case (Some a)
  let ?f = "seen_again_row sev (take 512 msg) (unixMilli now)"
  from Some up have d': "d' = d\<lparr>db_alerts := sql_update (\<lambda>x. al_id x = al_id a) ?f (db_alerts d)\<rparr>"
    by (simp add: upsertAlertTx_def Let_def)
  have f: "al_id (?f x) = al_id x" "al_node_id (?f x) = al_node_id x" "al_type (?f x) = al_type x"
    "al_resolved_at (?f x) = al_resolved_at x" "alert_status_ok (?f x) = alert_status_ok x" for x
    by (simp_all add: seen_again_row_def alert_status_ok_def)
  have "alerts_ok d'"
    by (rule alerts_ok_update [OF ok f(1-3)]) (use ok in \<open>simp_all add: f alerts_ok_def d'\<close>)
  moreover have "has_open d' k = has_open d k" for k
    by (rule has_open_update [OF f(2-4)]) (simp add: d')
  moreover have "has_open d (n, t)" using sql_first_SomeD [OF Some] by (auto simp: has_open_def)
  moreover have "alerts_only d d'"
    using alerts_onlyI [where as = "db_alerts d'" and ds = "db_deliveries d" and k = "db_next_id d" and d = d]
    by (simp add: d')
  ultimately show ?thesis by auto
next
  case None
  let ?row = "new_alert_row (env_new_id e (db_next_id d)) n t sev (take 512 msg) (unixMilli now)"
  from None up obtain p where fresh: "\<forall>x\<in>set (db_alerts d). al_id x \<noteq> al_id ?row"
    and enq: "enqueueAlertNotificationTx e (env_new_id e (db_next_id d)) ''created'' p now
       (d\<lparr>db_next_id := Suc (db_next_id d), db_alerts := db_alerts d @ [?row]\<rparr>) = Inr d'"
    by (auto simp: upsertAlertTx_def Let_def NewID_def sql_insert_Some rbind_Inr_conv split: if_splits option.splits)
  from enqueue_frame [OF enq] obtain ds k where
    d': "d' = d\<lparr>db_alerts := db_alerts d @ [?row], db_deliveries := ds, db_next_id := k\<rparr>" by auto
  have r: "open_alert n t ?row" "alert_status_ok ?row" "open_alert a b ?row \<longleftrightarrow> (a, b) = (n, t)" for a b
    by (auto simp: open_alert_def new_alert_row_def alert_status_ok_def)
  have "al_resolved_at x \<noteq> None" if "x \<in> set (db_alerts d)" "al_node_id x = n" "al_type x = t" for x
    using None that by (auto simp: sql_first_None open_alert_def)
  then have "alerts_ok d'"
    by (intro alerts_ok_insert [OF ok fresh r(2)]) (simp_all add: d' new_alert_row_def)
  moreover have "has_open d' k \<longleftrightarrow> k = (n, t) \<or> has_open d k" for k
    using r by (cases k) (auto simp: has_open_def d')
  ultimately show ?thesis using alerts_onlyI by (auto simp: d')
qed

lemma resolveAlertTx_effect:
  assumes ok: "alerts_ok d" and up: "resolveAlertTx e n t now d = Inr d'"
  shows "alerts_ok d' \<and> alerts_only d d' \<and> (\<forall>k. has_open d' k \<longleftrightarrow> k \<noteq> (n, t) \<and> has_open d k)"
proof (cases "sql_first (open_alert n t) (db_alerts d)")
  case None
  with up ok show ?thesis
    by (auto simp: resolveAlertTx_def alerts_only_refl has_open_def sql_first_None)
next
  case (Some a)
  let ?p = "\<lambda>x. al_id x = al_id a \<and> al_resolved_at x = None" and ?f = "resolved_row (unixMilli now)"
  from Some up obtain p where
    enq: "enqueueAlertNotificationTx e (al_id a) ''resolved'' p now
       (d\<lparr>db_alerts := sql_update ?p ?f (db_alerts d)\<rparr>) = Inr d'"
    by (auto simp: resolveAlertTx_def Let_def rbind_Inr_conv)
  from enqueue_frame [OF enq] obtain ds k where
    d': "d' = d\<lparr>db_alerts := sql_update ?p ?f (db_alerts d), db_deliveries := ds, db_next_id := k\<rparr>" by auto
  have f: "al_id (?f x) = al_id x" "al_node_id (?f x) = al_node_id x" "al_type (?f x) = al_type x"
    "al_resolved_at (?f x) = Some (unixMilli now)" "alert_status_ok (?f x)" for x
    by (simp_all add: resolved_row_def alert_status_ok_def)
  have "alerts_ok d'"
    by (rule alerts_ok_update [OF ok f(1-3)]) (use f in \<open>simp_all add: d'\<close>)
  moreover have "has_open d' k \<longleftrightarrow> k \<noteq> (n, t) \<and> has_open d k" for k
  proof -
    have a: "a \<in> set (db_alerts d)" "open_alert n t a" using sql_first_SomeD [OF Some] by simp_all
    have same: "x = a" if "x \<in> set (db_alerts d)" "open_alert n t x" for x
      using ok a that unfolding alerts_ok_def open_alert_def by metis
    have id: "x = a" if "x \<in> set (db_alerts d)" "al_id x = al_id a" for x
      using ok a(1) that unique_byD [of al_id "db_alerts d" x a] by (simp add: alerts_ok_def)
    have pt: "open_alert i j (if ?p x then ?f x else x) \<longleftrightarrow> open_alert i j x \<and> x \<noteq> a"
      if "x \<in> set (db_alerts d)" for x i j
    proof (cases "x = a")
      case True
      with a(2) f(4) [of a] show ?thesis by (simp add: open_alert_def)
    next
      case False
      with id [OF that] have "al_id x \<noteq> al_id a" by blast
      with False show ?thesis by simp
    qed
    show ?thesis
    proof (cases k)
      case (Pair i j)
      have "db_alerts d' = sql_update ?p ?f (db_alerts d)" by (simp add: d')
      then have "(\<exists>x\<in>set (db_alerts d'). open_alert i j x) \<longleftrightarrow>
          (\<exists>x\<in>set (db_alerts d). open_alert i j (if ?p x then ?f x else x))" by (simp only: bex_sql_update)
      also have "\<dots> \<longleftrightarrow> (\<exists>x\<in>set (db_alerts d). open_alert i j x \<and> x \<noteq> a)"
        by (rule bex_cong [OF refl pt])
      also have "\<dots> \<longleftrightarrow> (i, j) \<noteq> (n, t) \<and> has_open d (i, j)"
      proof (cases "(i, j) = (n, t)")
        case True
        with same show ?thesis by auto
      next
        case False
        with a(2) have "\<not> open_alert i j a" by (auto simp: open_alert_def)
        with False show ?thesis by (auto simp: has_open_def)
      qed
      finally show ?thesis by (simp add: has_open_def Pair)
    qed
  qed
  ultimately show ?thesis using alerts_onlyI by (auto simp: d')
qed

section \<open>Reconciliation as a keyed table of flags\<close>

text \<open>
  The contract of one reconciliation step: it sets the flag of its own key to what the step
  wants and leaves every other key alone.  Whoever runs a list of such steps with distinct
  keys ends with exactly the wanted flags.
\<close>

locale flag_store =
  fixes step :: "'k \<Rightarrow> 'x \<Rightarrow> 's \<Rightarrow> 'e + 's" and flag :: "'s \<Rightarrow> 'k \<Rightarrow> bool"
    and wanted :: "'x \<Rightarrow> bool" and inv :: "'s \<Rightarrow> bool" and keep :: "'s \<Rightarrow> 's \<Rightarrow> bool"
  assumes step_inv: "inv s \<Longrightarrow> step k x s = Inr s' \<Longrightarrow> inv s'"
    and step_flag: "inv s \<Longrightarrow> step k x s = Inr s' \<Longrightarrow> flag s' j = (if j = k then wanted x else flag s j)"
    and step_keep: "inv s \<Longrightarrow> step k x s = Inr s' \<Longrightarrow> keep s s'"
    and keep_refl: "keep s s"
    and keep_trans: "keep a b \<Longrightarrow> keep b c \<Longrightarrow> keep a c"
begin

lemma run_all:
  assumes "inv s" and "distinct (map fst kxs)" and "rfold (\<lambda>(k, x). step k x) kxs s = Inr s'"
  shows "inv s' \<and> keep s s' \<and>
    (\<forall>j. flag s' j = (case map_of kxs j of Some x \<Rightarrow> wanted x | None \<Rightarrow> flag s j))"
  using assms
proof (induction kxs arbitrary: s)
  case Nil
  then show ?case by (simp add: keep_refl)
next
  case (Cons kx kxs)
  obtain k x where kx: "kx = (k, x)" by (cases kx)
  from Cons.prems(3) obtain s1 where 1: "step k x s = Inr s1" and 2: "rfold (\<lambda>(k, x). step k x) kxs s1 = Inr s'"
    by (auto simp: kx rbind_Inr_conv)
  have i1: "inv s1" by (rule step_inv [OF Cons.prems(1) 1])
  have d: "distinct (map fst kxs)" "map_of kxs k = None"
    using Cons.prems(2) by (auto simp: kx map_of_eq_None_iff)
  note IH = Cons.IH [OF i1 d(1) 2]
  then have "keep s s'" using step_keep [OF Cons.prems(1) 1] keep_trans by blast
  with IH step_flag [OF Cons.prems(1) 1] d(2) show ?case by (auto simp: kx split: option.splits)
qed

end

definition check_step :: "env \<Rightarrow> gotime \<Rightarrow> string \<times> string \<Rightarrow> alert_check \<Rightarrow> db \<Rightarrow> store_error + db" where
  "check_step e now k check d =
     (if ck_active check then
       upsertAlertTx e (fst k) (snd k) (ck_severity check)
         (if ck_message check = '''' then snd k else ck_message check) now d
      else resolveAlertTx e (fst k) (snd k) now d)"

interpretation alerts: flag_store "check_step e now" has_open ck_active alerts_ok alerts_only for e now
proof unfold_locales
  fix s k x s'
  assume ok: "alerts_ok s" and st: "check_step e now k x s = Inr s'"
  have eff: "alerts_ok s' \<and> alerts_only s s' \<and> (\<forall>j. has_open s' j = (if j = k then ck_active x else has_open s j))"
  proof (cases "ck_active x")
    case True
    with st have "upsertAlertTx e (fst k) (snd k) (ck_severity x)
        (if ck_message x = '''' then snd k else ck_message x) now s = Inr s'" by (simp add: check_step_def)
    from upsertAlertTx_effect [OF ok this] True show ?thesis by auto
  next
    case False
    with st have "resolveAlertTx e (fst k) (snd k) now s = Inr s'" by (simp add: check_step_def)
    from resolveAlertTx_effect [OF ok this] False show ?thesis by auto
  qed
  then show "alerts_ok s'" "alerts_only s s'" by simp_all
  show "has_open s' j = (if j = k then ck_active x else has_open s j)" for j using eff by blast
qed (auto intro: alerts_only_refl alerts_only_trans)

lemma run_check_step: "run_check e now (n, c) = check_step e now (n, ck_type c) c"
  by (simp add: run_check_def check_step_def fun_eq_iff)

lemma run_check_alt:
  "rfold (run_check e now) xs d =
     rfold (\<lambda>(k, x). check_step e now k x) (map (\<lambda>(n, c). ((n, ck_type c), c)) xs) d"
proof (induction xs arbitrary: d)
  case (Cons x xs)
  then show ?case by (cases x) (simp add: run_check_step cong: rbind_cong)
qed simp

lemma alert_checks_types:
  "map ck_type (alert_checks now off stuck c) =
     [''offline'', ''degraded'', ''core_down'', ''usage_error'', ''sync_failed'', ''sync_stuck'',
      ''operation_failed'', ''traffic_quota_warning'', ''traffic_quota_exhausted'']"
  by (simp add: alert_checks_def Let_def)

lemma distinct_check_types: "distinct (map ck_type (alert_checks now off stuck c))"
  unfolding alert_checks_types by simp

lemma disjoint_pairs: "x \<notin> fst ` B \<Longrightarrow> Pair x ` A \<inter> B = {}"
  by force

lemma distinct_check_keys:
  assumes "distinct (map ac_node_id cs)"
  shows "distinct (map fst (map (\<lambda>(n, c). ((n, ck_type c), c)) (all_checks now off stuck cs)))"
  using assms
proof (induction cs)
  case Nil
  then show ?case by (simp add: all_checks_def)
next
  case (Cons c cs)
  have 1: "map fst (map (\<lambda>(n, c). ((n, ck_type c), c)) (all_checks now off stuck (c # cs))) =
      map (Pair (ac_node_id c)) (map ck_type (alert_checks now off stuck c)) @
      map fst (map (\<lambda>(n, c). ((n, ck_type c), c)) (all_checks now off stuck cs))"
    by (simp add: all_checks_def)
  have 2: "ac_node_id c \<notin> fst ` set (map fst (map (\<lambda>(n, c). ((n, ck_type c), c)) (all_checks now off stuck cs)))"
    using Cons.prems by (force simp: all_checks_def)
  show ?case unfolding 1 distinct_append
  proof (intro conjI)
    show "distinct (map (Pair (ac_node_id c)) (map ck_type (alert_checks now off stuck c)))"
      using distinct_check_types [of now off stuck c] by (simp only: distinct_map [of "Pair _"]) (simp add: inj_on_def)
    show "distinct (map fst (map (\<lambda>(n, c). ((n, ck_type c), c)) (all_checks now off stuck cs)))"
      using Cons by simp
    show "set (map (Pair (ac_node_id c)) (map ck_type (alert_checks now off stuck c))) \<inter>
        set (map fst (map (\<lambda>(n, c). ((n, ck_type c), c)) (all_checks now off stuck cs))) = {}"
      using disjoint_pairs [OF 2] by (simp only: list.set_map [of "Pair _"])
  qed
qed

lemma all_checks_lookup:
  assumes "distinct (map ac_node_id cs)" and "c \<in> set cs" and "ck \<in> set (alert_checks now off stuck c)"
  shows "map_of (map (\<lambda>(n, c). ((n, ck_type c), c)) (all_checks now off stuck cs)) (ac_node_id c, ck_type ck) = Some ck"
proof (rule map_of_is_SomeI [OF distinct_check_keys [OF assms(1)]])
  show "((ac_node_id c, ck_type ck), ck) \<in> set (map (\<lambda>(n, c). ((n, ck_type c), c)) (all_checks now off stuck cs))"
    using assms(2,3) by (force simp: all_checks_def)
qed

lemma condition_of_node: "condition_of d n = Inr c \<Longrightarrow> ac_node_id c = n_id n"
  by (auto simp: condition_of_def split: option.splits)

lemma rmap_conditions_ids: "rmap (condition_of d) ns = Inr cs \<Longrightarrow> map ac_node_id cs = map n_id ns"
  by (induction ns arbitrary: cs) (auto simp: rbind_Inr_conv condition_of_node)

text \<open>A successful reconciliation, spelled out.\<close>

lemma ReconcileAlerts_Inr:
  assumes "ReconcileAlerts e now off stuck d = (Inr x, d')" and "alerts_ok d" and "unique_by n_id (db_nodes d)"
    and "n \<in> set (db_nodes d)" and "n_archived_at n = None"
  shows "alerts_ok d'" and "alerts_only (expire_queued (\<lambda>_. True) now d) d'"
    and "\<exists>c. condition_of (expire_queued (\<lambda>_. True) now d) n = Inr c \<and>
      (\<forall>ck\<in>set (alert_checks now (default_duration off (90 * second)) (default_duration stuck (5 * minute)) c).
         has_open d' (n_id n, ck_type ck) = ck_active ck)"
proof -
  let ?d1 = "expire_queued (\<lambda>_. True) now d" and ?off = "default_duration off (90 * second)"
  let ?stuck = "default_duration stuck (5 * minute)" and ?act = "filter (\<lambda>n. n_archived_at n = None)"
  from assms(1) obtain cs where cs: "rmap (condition_of ?d1) (?act (db_nodes ?d1)) = Inr cs"
    and r: "rfold (run_check e now) (all_checks now ?off ?stuck cs) ?d1 = Inr d'"
    by (auto simp: ReconcileAlerts_def transact_commit Let_def rbind_Inr_conv)
  have nodes: "db_nodes ?d1 = db_nodes d" by (simp add: expire_queued_def)
  have ok1: "alerts_ok ?d1" using assms(2) by (simp add: alerts_ok_def expire_queued_def)
  have dist: "distinct (map ac_node_id cs)"
    using rmap_conditions_ids [OF cs] assms(3) by (simp add: nodes unique_by_def distinct_map_filter)
  note run = alerts.run_all [OF ok1 distinct_check_keys [OF dist] r [unfolded run_check_alt]]
  then show "alerts_ok d'" "alerts_only ?d1 d'" by simp_all
  have "n \<in> set (?act (db_nodes ?d1))" using assms(4,5) by (simp add: nodes)
  from rmap_Inr(2) [OF cs this] obtain c where c: "c \<in> set cs" "condition_of ?d1 n = Inr c" by blast
  have "has_open d' (n_id n, ck_type ck) = ck_active ck" if "ck \<in> set (alert_checks now ?off ?stuck c)" for ck
    using run all_checks_lookup [OF dist c(1) that] condition_of_node [OF c(2)] by simp
  with c(2) show "\<exists>c. condition_of ?d1 n = Inr c \<and>
      (\<forall>ck\<in>set (alert_checks now ?off ?stuck c). has_open d' (n_id n, ck_type ck) = ck_active ck)" by blast
qed

section \<open>Properties\<close>

lemma AcknowledgeAlert_ok:
  assumes "alerts_ok d"
  shows "alerts_ok (snd (AcknowledgeAlert alertID adminID now d))"
proof -
  let ?f = "acknowledged_row adminID (unixMilli now)" and ?p = "\<lambda>a. al_id a = alertID \<and> al_resolved_at a = None"
  have f: "al_id (?f x) = al_id x" "al_node_id (?f x) = al_node_id x" "al_type (?f x) = al_type x"
    "al_resolved_at (?f x) = al_resolved_at x" "al_status (?f x) = ''acknowledged''" for x
    by (simp_all add: acknowledged_row_def)
  have "alerts_ok (d\<lparr>db_alerts := sql_update ?p ?f (db_alerts d)\<rparr>)"
    by (rule alerts_ok_update [OF assms f(1-3)]) (simp_all add: f alert_status_ok_def)
  with assms show ?thesis by (simp add: AcknowledgeAlert_def Let_def)
qed

lemma ReconcileAlerts_ok:
  assumes "alerts_ok d" and "unique_by n_id (db_nodes d)"
  shows "alerts_ok (snd (ReconcileAlerts e now off stuck d))"
proof (cases "ReconcileAlerts e now off stuck d")
  case (Pair r d')
  show ?thesis
  proof (cases r)
    case (Inl err)
    with Pair assms(1) show ?thesis by (auto simp: ReconcileAlerts_def dest: transact_rollback)
  next
    case (Inr u)
  let ?d1 = "expire_queued (\<lambda>_. True) now d"
  from Pair Inr obtain cs where cs: "rmap (condition_of ?d1) (filter (\<lambda>n. n_archived_at n = None) (db_nodes ?d1)) = Inr cs"
    and r: "rfold (run_check e now) (all_checks now (default_duration off (90 * second))
        (default_duration stuck (5 * minute)) cs) ?d1 = Inr d'"
    by (auto simp: ReconcileAlerts_def transact_commit Let_def rbind_Inr_conv)
  have "alerts_ok ?d1" using assms(1) by (simp add: alerts_ok_def expire_queued_def)
  moreover have "distinct (map ac_node_id cs)"
    using rmap_conditions_ids [OF cs] assms(2) by (simp add: expire_queued_def unique_by_def distinct_map_filter)
  ultimately show ?thesis
    using Pair alerts.run_all [OF _ distinct_check_keys r [unfolded run_check_alt]] by simp
  qed
qed


lemma sample_alerts_ok: "alerts_ok sample_db" "unique_by n_id (db_nodes sample_db)"
  by (simp_all add: alerts_ok_def sample_defs unique_by_def)


text \<open>C12: After a successful reconciliation the open alerts of every active node are exactly the
  conditions that hold for it: each of the nine checks is open if and only if its condition
  is true of the node (after the expiry of overdue operations).\<close>

theorem reconcile_exact:
  assumes "ReconcileAlerts e now off stuck d = (Inr x, d')" and "alerts_ok d" and "unique_by n_id (db_nodes d)"
    and "n \<in> set (db_nodes d)" and "n_archived_at n = None"
  shows "\<exists>c. condition_of (expire_queued (\<lambda>_. True) now d) n = Inr c \<and>
    (\<forall>ck\<in>set (alert_checks now (default_duration off (90 * second)) (default_duration stuck (5 * minute)) c).
       has_open d' (n_id n, ck_type ck) = ck_active ck)"
  by (rule ReconcileAlerts_Inr(3) [OF assms])

lemma reconcile_exact_witness:
  "has_open (snd (ReconcileAlerts sample_env sample_now 0 0 sample_db)) (''n1'', ''offline'') \<and>
   \<not> has_open (snd (ReconcileAlerts sample_env sample_now 0 0 sample_db)) (''n1'', ''degraded'')"
proof -
  let ?d = "snd (ReconcileAlerts sample_env sample_now 0 0 sample_db)"
  let ?d1 = "expire_queued (\<lambda>_. True) sample_now sample_db"
  have "fst (ReconcileAlerts sample_env sample_now 0 0 sample_db) = Inr ()" by code_simp
  then have r: "ReconcileAlerts sample_env sample_now 0 0 sample_db = (Inr (), ?d)" by (simp add: prod_eq_iff)
  have n: "sample_node \<in> set (db_nodes sample_db)" "n_archived_at sample_node = None" "n_id sample_node = ''n1''"
    by (simp_all add: sample_db_def) (simp_all add: sample_node_def)
  from reconcile_exact [OF r sample_alerts_ok n(1,2)] obtain c where c: "condition_of ?d1 sample_node = Inr c"
    and ck: "\<forall>ck\<in>set (alert_checks sample_now (90 * second) (5 * minute) c). has_open ?d (''n1'', ck_type ck) = ck_active ck"
    by (auto simp: default_duration_def n(3))
  have "map ck_active (take 2 (alert_checks sample_now (90 * second) (5 * minute) (projr (condition_of ?d1 sample_node)))) =
      [True, False]" by code_simp
  then have "ck_active (alert_checks sample_now (90 * second) (5 * minute) c ! 0)"
    "\<not> ck_active (alert_checks sample_now (90 * second) (5 * minute) c ! 1)"
    by (simp_all add: c alert_checks_def Let_def)
  with ck show ?thesis by (simp add: alert_checks_def Let_def)
qed

text \<open>The traffic alerts of a node split the usage at exactly 80% and 100% of the allowance: the
  warning holds from four fifths of the limit (in exact arithmetic) up to the limit, the
  exhausted alert from the limit on, never both.\<close>

lemma traffic_alert_thresholds:
  "(traffic_warning limit used \<longleftrightarrow> 0 < limit \<and> 4 * limit \<le> 5 * used \<and> used < limit) \<and>
   (traffic_exhausted limit used \<longleftrightarrow> 0 < limit \<and> limit \<le> used) \<and>
   \<not> (traffic_warning limit used \<and> traffic_exhausted limit used)"
proof -
  have "limit - limit div 5 \<le> used \<longleftrightarrow> 4 * limit \<le> 5 * used" by presburger
  then show ?thesis by (auto simp: traffic_warning_def traffic_exhausted_def)
qed

end
