(* ===== verification/Notifications.thy ===== *)
theory Notifications
  imports Alerts Go_Strings
begin

text \<open>
  Notifiers and the delivery of alert notifications (internal/store/notification.go and the
  dispatcher of internal/server/notification\_handlers.go): queued deliveries are attempted,
  retried after growing delays and given up after the sixth attempt.  Sending over the network
  is a parameter; queueing is part of \<open>Alerts\<close>.
\<close>

section \<open>Notifiers\<close>

text \<open>\<open>strings.ToLower\<close> and the comparison with the two event names: only ASCII letters
  matter, so the fold is that of \<open>nocase\<close>.\<close>

fun wanted_events :: "string list \<Rightarrow> string list \<Rightarrow> store_error + string list" where
  "wanted_events [] wanted = Inr wanted"
| "wanted_events (event # events) wanted =
     (let event = TrimSpace (nocase event) in
      if event \<noteq> ''created'' \<and> event \<noteq> ''resolved'' then Inl ErrUnsupported
      else wanted_events events (event # wanted))"

definition normalizeNotificationEvents :: "string list \<Rightarrow> store_error + string list" where
  "normalizeNotificationEvents events =
     (if events = [] then Inr [''created'', ''resolved'']
      else rbind (wanted_events events []) (\<lambda>wanted.
        Inr (filter (\<lambda>e. e \<in> set wanted) [''created'', ''resolved''])))"

definition find_notifier :: "string \<Rightarrow> db \<Rightarrow> notifier_row option" where
  "find_notifier i d = sql_first (\<lambda>n. nf_id n = i) (db_notifiers d)"

definition ListNotificationNotifiers :: "db \<Rightarrow> notifier_row list" where
  "ListNotificationNotifiers d = sort_key (\<lambda>n. nocase (nf_name n)) (sort_key nf_id (db_notifiers d))"

definition GetNotificationNotifier :: "string \<Rightarrow> db \<Rightarrow> store_error + notifier_row" where
  "GetNotificationNotifier i d = (case find_notifier i d of None \<Rightarrow> Inl ErrNotFound | Some n \<Rightarrow> Inr n)"

definition notifier_again_row :: "notifier_row \<Rightarrow> notifier_row \<Rightarrow> notifier_row" where
  "notifier_again_row new n = n\<lparr>nf_name := nf_name new, nf_kind := nf_kind new, nf_enabled := nf_enabled new,
     nf_config_ciphertext := nf_config_ciphertext new, nf_target_hint := nf_target_hint new,
     nf_events := nf_events new, nf_updated_at := nf_updated_at new\<rparr>"

definition UpsertNotificationNotifier ::
  "notifier_row \<Rightarrow> gotime \<Rightarrow> db \<Rightarrow> (store_error + notifier_row) \<times> db" where
  "UpsertNotificationNotifier notifier now d =
     (case normalizeNotificationEvents (nf_events notifier) of
        Inl err \<Rightarrow> (Inl err, d)
      | Inr events \<Rightarrow>
          if nf_config_ciphertext notifier = '''' then (Inl (ErrOther ''notifier configuration is empty''), d)
          else if nf_kind notifier \<noteq> ''telegram'' \<and> nf_kind notifier \<noteq> ''slack'' \<and> nf_kind notifier \<noteq> ''webhook''
          then (Inl (ErrOther ''upsert notification notifier''), d)
          else
            let row = notifier\<lparr>nf_events := events, nf_created_at := unixMilli now, nf_updated_at := unixMilli now\<rparr>;
                d' = d\<lparr>db_notifiers := sql_upsert nf_id row (notifier_again_row row) (db_notifiers d)\<rparr>
            in (GetNotificationNotifier (nf_id notifier) d', d'))"

text \<open>Deleting a notifier deletes its deliveries (\<open>ON DELETE CASCADE\<close>); its reminder rules, which
  are deleted with it too, are not part of the model.\<close>

definition DeleteNotificationNotifier :: "string \<Rightarrow> db \<Rightarrow> (store_error + unit) \<times> db" where
  "DeleteNotificationNotifier i d =
     (if \<not> sql_exists (\<lambda>n. nf_id n = i) (db_notifiers d) then (Inl ErrNotFound, d)
      else (Inr (), d\<lparr>db_notifiers := sql_delete (\<lambda>n. nf_id n = i) (db_notifiers d),
                      db_deliveries := sql_delete (\<lambda>r. nd_notifier_id r = i) (db_deliveries d)\<rparr>))"

section \<open>Deliveries\<close>

text \<open>A delivery with the notifier it goes to.\<close>

definition listNotificationDeliveries :: "(delivery_row \<Rightarrow> notifier_row \<Rightarrow> bool) \<Rightarrow> db \<Rightarrow> (delivery_row \<times> notifier_row) list" where
  "listNotificationDeliveries p d = concat (map (\<lambda>r. case find_notifier (nd_notifier_id r) d of
      None \<Rightarrow> [] | Some n \<Rightarrow> if p r n then [(r, n)] else []) (db_deliveries d))"

definition ListNotificationDeliveries :: "int \<Rightarrow> db \<Rightarrow> (delivery_row \<times> notifier_row) list" where
  "ListNotificationDeliveries limit d =
     (let limit = (if limit < 1 \<or> limit > 200 then 50 else limit) in
      take (nat limit) (sort_key (\<lambda>(r, n). - nd_created_at r) (listNotificationDeliveries (\<lambda>_ _. True) d)))"

definition pending_delivery :: "delivery_row \<Rightarrow> bool" where
  "pending_delivery r \<longleftrightarrow> nd_status r = ''queued'' \<or> nd_status r = ''retry''"

definition ListDueNotificationDeliveries :: "gotime \<Rightarrow> int \<Rightarrow> db \<Rightarrow> (delivery_row \<times> notifier_row) list" where
  "ListDueNotificationDeliveries now limit d =
     (let limit = (if limit < 1 \<or> limit > 50 then 20 else limit) in
      take (nat limit) (sort_key (\<lambda>(r, n). nd_next_attempt_at r) (sort_key (\<lambda>(r, n). nd_created_at r)
        (listNotificationDeliveries (\<lambda>r n. pending_delivery r \<and> nd_next_attempt_at r \<le> unixMilli now \<and> nf_enabled n) d))))"

definition delivered_row :: "int \<Rightarrow> gotime \<Rightarrow> delivery_row \<Rightarrow> delivery_row" where
  "delivered_row code now r = r\<lparr>nd_status := ''delivered'', nd_attempt_count := nd_attempt_count r + 1,
     nd_response_code := code, nd_last_error := '''', nd_delivered_at := Some (unixMilli now),
     nd_updated_at := unixMilli now\<rparr>"

definition delivery_delays :: "duration list" where
  "delivery_delays = [minute, 5 * minute, 30 * minute, 120 * minute, 360 * minute]"

definition attempt_failed_row :: "int \<Rightarrow> int \<Rightarrow> string \<Rightarrow> gotime \<Rightarrow> delivery_row \<Rightarrow> delivery_row" where
  "attempt_failed_row attempts code message now r =
     (let gave_up = (attempts > int (length delivery_delays));
          next = (if gave_up then now else now + delivery_delays ! nat (attempts - 1))
      in r\<lparr>nd_status := (if gave_up then ''failed'' else ''retry''), nd_attempt_count := attempts,
           nd_next_attempt_at := unixMilli next, nd_response_code := code, nd_last_error := message,
           nd_updated_at := unixMilli now\<rparr>)"

definition RecordNotificationDelivery ::
  "string \<Rightarrow> bool \<Rightarrow> int \<Rightarrow> string \<Rightarrow> gotime \<Rightarrow> db \<Rightarrow> (store_error + unit) \<times> db" where
  "RecordNotificationDelivery i delivered responseCode errorMessage now d =
     (let message = take 512 errorMessage; mine = (\<lambda>r. nd_id r = i \<and> pending_delivery r) in
      case sql_first mine (db_deliveries d) of
        None \<Rightarrow> (Inl ErrConflict, d)
      | Some r \<Rightarrow>
          (Inr (), d\<lparr>db_deliveries := sql_update mine
             (if delivered then delivered_row responseCode now
              else attempt_failed_row (nd_attempt_count r + 1) responseCode message now) (db_deliveries d)\<rparr>))"

text \<open>One pass of the dispatcher.  \<open>send\<close> stands for \<open>deliverNotification\<close>: the response code, the
  error message (absent when the notification was accepted), and the time after the attempt.\<close>

fun dispatch_loop ::
  "(delivery_row \<Rightarrow> notifier_row \<Rightarrow> int \<times> string option \<times> gotime) \<Rightarrow>
     (delivery_row \<times> notifier_row) list \<Rightarrow> db \<Rightarrow> store_error list \<times> db" where
  "dispatch_loop send [] d = ([], d)"
| "dispatch_loop send ((r, n) # due) d =
     (let (status, failure, later) = send r n;
          message = (case failure of None \<Rightarrow> '''' | Some m \<Rightarrow> m);
          (recorded, d1) = RecordNotificationDelivery (nd_id r) (failure = None) status message later d;
          (errors, d2) = dispatch_loop send due d1
      in ((if failure = None then [] else [ErrOther message]) @
          (case recorded of Inl err \<Rightarrow> [err] | Inr _ \<Rightarrow> []) @ errors, d2))"

definition DispatchNotifications ::
  "(delivery_row \<Rightarrow> notifier_row \<Rightarrow> int \<times> string option \<times> gotime) \<Rightarrow> int \<Rightarrow> gotime \<Rightarrow> db \<Rightarrow>
     store_error list \<times> db" where
  "DispatchNotifications send limit now d = dispatch_loop send (ListDueNotificationDeliveries now limit d) d"

section \<open>Attempts are bounded\<close>

text \<open>Ids are unique, attempts are counted from 0, and a pending delivery has at most five
  attempts behind it.\<close>

definition deliveries_ok :: "db \<Rightarrow> bool" where
  "deliveries_ok d \<longleftrightarrow> unique_by nd_id (db_deliveries d) \<and>
     (\<forall>r\<in>set (db_deliveries d). 0 \<le> nd_attempt_count r \<and> nd_attempt_count r \<le> 6 \<and>
        (pending_delivery r \<longrightarrow> nd_attempt_count r \<le> 5))"

definition find_delivery :: "string \<Rightarrow> db \<Rightarrow> delivery_row option" where
  "find_delivery i d = sql_first (\<lambda>r. nd_id r = i) (db_deliveries d)"

text \<open>What recording an attempt makes of the row.\<close>

definition attempted_row :: "bool \<Rightarrow> int \<Rightarrow> string \<Rightarrow> gotime \<Rightarrow> delivery_row \<Rightarrow> delivery_row" where
  "attempted_row delivered code message now r =
     (if delivered then delivered_row code now r
      else attempt_failed_row (nd_attempt_count r + 1) code (take 512 message) now r)"

lemma attempted_row_simps [simp]:
  "nd_id (attempted_row dl code msg now r) = nd_id r"
  "nd_attempt_count (attempted_row dl code msg now r) = nd_attempt_count r + 1"
  by (simp_all add: attempted_row_def delivered_row_def attempt_failed_row_def Let_def)

lemma attempted_pending:
  "pending_delivery (attempted_row dl code msg now r) \<longleftrightarrow> \<not> dl \<and> nd_attempt_count r + 1 \<le> 5"
  by (simp add: attempted_row_def delivered_row_def attempt_failed_row_def Let_def pending_delivery_def delivery_delays_def)

interpretation attempted: row_update nd_id "attempted_row dl code msg now" for dl code msg now
  by unfold_locales simp

lemma RecordNotificationDelivery_eq:
  assumes "unique_by nd_id (db_deliveries d)"
  shows "RecordNotificationDelivery i dl code msg now d =
    (if \<exists>r\<in>set (db_deliveries d). nd_id r = i \<and> pending_delivery r
     then (Inr (), d\<lparr>db_deliveries := sql_update (\<lambda>r. nd_id r = i \<and> pending_delivery r)
            (attempted_row dl code msg now) (db_deliveries d)\<rparr>)
     else (Inl ErrConflict, d))"
proof (cases "sql_first (\<lambda>r. nd_id r = i \<and> pending_delivery r) (db_deliveries d)")
  case None
  then have "\<not> (\<exists>r\<in>set (db_deliveries d). nd_id r = i \<and> pending_delivery r)" by (auto simp: sql_first_None)
  then show ?thesis by (simp add: RecordNotificationDelivery_def Let_def None)
next
  case (Some r)
  then have r: "r \<in> set (db_deliveries d)" "nd_id r = i" "pending_delivery r" by (auto dest: sql_first_SomeD)
  have "x = r" if "x \<in> set (db_deliveries d)" "nd_id x = i" for x
    using unique_byD [OF assms that(1) r(1)] that(2) r(2) by simp
  then have "sql_update (\<lambda>r. nd_id r = i \<and> pending_delivery r)
      (if dl then delivered_row code now else attempt_failed_row (nd_attempt_count r + 1) code (take 512 msg) now)
      (db_deliveries d) = sql_update (\<lambda>r. nd_id r = i \<and> pending_delivery r) (attempted_row dl code msg now) (db_deliveries d)"
    by (auto simp: sql_update_def attempted_row_def)
  with Some r show ?thesis by (auto simp: RecordNotificationDelivery_def Let_def)
qed

lemma find_delivery_record:
  assumes "unique_by nd_id (db_deliveries d)"
  shows "find_delivery j (snd (RecordNotificationDelivery i dl code msg now d)) =
    map_option (\<lambda>r. if j = i \<and> pending_delivery r then attempted_row dl code msg now r else r) (find_delivery j d)"
proof (cases "\<exists>r\<in>set (db_deliveries d). nd_id r = i \<and> pending_delivery r")
  case True
  have "find_delivery j (snd (RecordNotificationDelivery i dl code msg now d)) =
      map_option (\<lambda>r. if nd_id r = i \<and> pending_delivery r then attempted_row dl code msg now r else r) (find_delivery j d)"
    using True by (simp add: RecordNotificationDelivery_eq [OF assms] find_delivery_def attempted.lookup_update)
  then show ?thesis by (cases "find_delivery j d") (auto simp: find_delivery_def dest: sql_first_SomeD)
next
  case False
  then show ?thesis
    by (cases "find_delivery j d") (auto simp: RecordNotificationDelivery_eq [OF assms] find_delivery_def dest: sql_first_SomeD)
qed

lemma deliveries_ok_record:
  assumes "deliveries_ok d"
  shows "deliveries_ok (snd (RecordNotificationDelivery i dl code msg now d))"
proof -
  have u: "unique_by nd_id (db_deliveries d)" using assms by (simp add: deliveries_ok_def)
  show ?thesis
    using assms attempted.unique_update [OF u]
    by (auto simp: RecordNotificationDelivery_eq [OF u] deliveries_ok_def set_sql_update attempted_pending)
qed

lemma deliveries_ok_dispatch: "deliveries_ok d \<Longrightarrow> deliveries_ok (snd (dispatch_loop send due d))"
proof (induction due arbitrary: d)
  case (Cons x due)
  obtain r n status failure later where x: "x = (r, n)" "send r n = (status, failure, later)"
    by (metis prod_cases3 surj_pair)
  have "deliveries_ok (snd (RecordNotificationDelivery (nd_id r) (failure = None) status
      (case failure of None \<Rightarrow> '''' | Some m \<Rightarrow> m) later d))" by (rule deliveries_ok_record [OF Cons.prems])
  from Cons.IH [OF this] show ?case by (simp add: x Let_def case_prod_unfold)
qed simp

text \<open>The attempts recorded for one delivery, in order.\<close>

type_synonym attempt = "bool \<times> int \<times> string \<times> gotime"

definition record_attempt :: "string \<Rightarrow> attempt \<Rightarrow> db \<Rightarrow> db" where
  "record_attempt i = (\<lambda>(dl, code, msg, now) d. snd (RecordNotificationDelivery i dl code msg now d))"

lemma record_attempts:
  assumes "deliveries_ok d" and "find_delivery i d = Some r"
  shows "deliveries_ok (fold (record_attempt i) xs d) \<and> (\<exists>r'. find_delivery i (fold (record_attempt i) xs d) = Some r' \<and>
    (pending_delivery r' \<longrightarrow> nd_attempt_count r' = nd_attempt_count r + int (length xs)) \<and>
    (\<not> pending_delivery r \<longrightarrow> r' = r))"
  using assms
proof (induction xs arbitrary: d r)
  case (Cons x xs)
  obtain dl code msg now where x: "x = (dl, code, msg, now)" by (metis prod_cases4)
  let ?d = "record_attempt i x d"
  let ?r = "if pending_delivery r then attempted_row dl code msg now r else r"
  have u: "unique_by nd_id (db_deliveries d)" using Cons.prems(1) by (simp add: deliveries_ok_def)
  have ok: "deliveries_ok ?d" using deliveries_ok_record [OF Cons.prems(1)] by (simp add: record_attempt_def x)
  have f: "find_delivery i ?d = Some ?r"
    using find_delivery_record [OF u] Cons.prems(2) by (simp add: record_attempt_def x)
  from Cons.IH [OF ok f] obtain r' where r': "deliveries_ok (fold (record_attempt i) xs ?d)"
    "find_delivery i (fold (record_attempt i) xs ?d) = Some r'"
    "pending_delivery r' \<longrightarrow> nd_attempt_count r' = nd_attempt_count ?r + int (length xs)" "\<not> pending_delivery ?r \<longrightarrow> r' = ?r"
    by blast
  then show ?case by (cases "pending_delivery r") auto
qed auto

text \<open>Queueing a notification under a fresh identifier keeps the table well formed.\<close>

lemma deliveries_ok_enqueue:
  assumes "deliveries_ok d" and "env_new_id e (db_next_id d) \<notin> nd_id ` set (db_deliveries d)"
  shows "deliveries_ok (enqueue_one e alertID ev payload now notifierID d)"
  using assms
  by (auto simp: enqueue_one_def NewID_def Let_def deliveries_ok_def sql_upsert_def sql_update_def unique_by_append1 image_iff)

subsection \<open>What a pass of the dispatcher does to one delivery\<close>

text \<open>The attempt that an answer of the receiver amounts to.\<close>

definition answered :: "int \<times> string option \<times> gotime \<Rightarrow> attempt" where
  "answered = (\<lambda>(status, failure, later).
     (failure = None, status, case failure of None \<Rightarrow> '''' | Some m \<Rightarrow> m, later))"

lemma dispatch_loop_Cons:
  "snd (dispatch_loop send ((r, n) # due) d) =
     snd (dispatch_loop send due (record_attempt (nd_id r) (answered (send r n)) d))"
  by (cases "send r n") (simp add: record_attempt_def answered_def case_prod_unfold Let_def)

lemma deliveries_ok_attempt: "deliveries_ok d \<Longrightarrow> deliveries_ok (record_attempt i x d)"
  by (cases x) (simp add: record_attempt_def deliveries_ok_record)

lemma find_delivery_attempt:
  "deliveries_ok d \<Longrightarrow> find_delivery j (record_attempt i (dl, code, msg, now) d) =
     map_option (\<lambda>r. if j = i \<and> pending_delivery r then attempted_row dl code msg now r else r) (find_delivery j d)"
  by (simp add: record_attempt_def find_delivery_record deliveries_ok_def)

lemma find_delivery_other: "deliveries_ok d \<Longrightarrow> j \<noteq> i \<Longrightarrow> find_delivery j (record_attempt i x d) = find_delivery j d"
  by (cases x) (simp add: find_delivery_attempt map_option_case split: option.splits)

lemma dispatch_untouched:
  "deliveries_ok d \<Longrightarrow> i \<notin> (nd_id \<circ> fst) ` set due \<Longrightarrow> find_delivery i (snd (dispatch_loop send due d)) = find_delivery i d"
proof (induction due arbitrary: d)
  case (Cons x due)
  then show ?case
    by (cases x) (auto simp: dispatch_loop_Cons deliveries_ok_attempt find_delivery_other simp del: dispatch_loop.simps)
qed simp

lemma dispatch_once:
  assumes "deliveries_ok d" and "distinct (map (nd_id \<circ> fst) due)" and "(r, n) \<in> set due"
  shows "find_delivery (nd_id r) (snd (dispatch_loop send due d)) =
    find_delivery (nd_id r) (record_attempt (nd_id r) (answered (send r n)) d)"
  using assms
proof (induction due arbitrary: d)
  case (Cons x due)
  obtain r' n' where x: "x = (r', n')" by (cases x)
  let ?d = "record_attempt (nd_id r') (answered (send r' n')) d"
  have ok: "deliveries_ok ?d" using Cons.prems(1) by (rule deliveries_ok_attempt)
  show ?case
  proof (cases "(r, n) = (r', n')")
    case True
    then have "nd_id r \<notin> (nd_id \<circ> fst) ` set due" using Cons.prems(2) x by simp
    with True show ?thesis by (simp add: x dispatch_loop_Cons dispatch_untouched [OF ok] del: dispatch_loop.simps)
  next
    case False
    then have i: "(r, n) \<in> set due" using Cons.prems(3) x by auto
    then have ne: "nd_id r \<noteq> nd_id r'" using Cons.prems(2) x by (force simp: image_iff)
    obtain dl code msg now where a: "answered (send r n) = (dl, code, msg, now)" by (metis prod_cases4)
    have "find_delivery (nd_id r) (snd (dispatch_loop send due ?d)) =
        find_delivery (nd_id r) (record_attempt (nd_id r) (answered (send r n)) ?d)"
      using Cons.IH [OF ok _ i] Cons.prems(2) by simp
    also have "\<dots> = find_delivery (nd_id r) (record_attempt (nd_id r) (answered (send r n)) d)"
      by (simp add: a find_delivery_attempt ok Cons.prems(1) find_delivery_other ne)
    finally show ?thesis by (simp add: x dispatch_loop_Cons del: dispatch_loop.simps)
  qed
qed simp

lemma dispatch_find:
  assumes "deliveries_ok d" and "distinct (map (nd_id \<circ> fst) due)"
  shows "find_delivery i (snd (dispatch_loop send due d)) =
    (case find (\<lambda>(x, n). nd_id x = i) due of
       None \<Rightarrow> find_delivery i d
     | Some (x, n) \<Rightarrow> find_delivery i (record_attempt i (answered (send x n)) d))"
proof (cases "find (\<lambda>(x, n). nd_id x = i) due")
  case None
  then have "i \<notin> (nd_id \<circ> fst) ` set due" by (auto simp: find_None_iff)
  with None show ?thesis by (simp add: dispatch_untouched assms(1))
next
  case (Some y)
  then have "y \<in> set due" "nd_id (fst y) = i" by (auto simp: find_Some_iff case_prod_unfold)
  with Some dispatch_once [OF assms, of "fst y" "snd y" send] show ?thesis by (simp add: case_prod_unfold)
qed

lemma listed_ids:
  "unique_by nd_id t \<Longrightarrow> distinct (map (nd_id \<circ> fst) (concat (map (\<lambda>r. case find_notifier (nd_notifier_id r) d of
      None \<Rightarrow> [] | Some n \<Rightarrow> if p r n then [(r, n)] else []) t)))"
  by (induction t) (auto simp: unique_by_def split: option.splits if_splits)

lemma distinct_map_sort_key: "distinct (map f (sort_key k xs)) \<longleftrightarrow> distinct (map f xs)"
  by (metis distinct_map distinct_sort set_sort)

lemma due_ids: "deliveries_ok d \<Longrightarrow> distinct (map (nd_id \<circ> fst) (ListDueNotificationDeliveries now limit d))"
  unfolding ListDueNotificationDeliveries_def Let_def listNotificationDeliveries_def take_map [symmetric]
  by (intro distinct_take) (simp add: distinct_map_sort_key listed_ids deliveries_ok_def)

subsection \<open>Every notification is settled\<close>

text \<open>C29: Every notification is settled after at most six attempts, whatever the receiver answers: a
  delivery whose attempts have been recorded six times is delivered or has failed for good, a
  further attempt is refused and changes nothing, the counter never passes six, and a failed
  attempt that is retried waits for exactly the delay of its number (1, 5, 30, 120 and 360
  minutes).  A pass of the dispatcher records exactly one attempt of each delivery it found due,
  with the answer of its receiver, and leaves every other delivery as it was.\<close>

theorem notification_settles:
  assumes "deliveries_ok d" and "find_delivery i d = Some r" and "6 \<le> length attempts"
  shows "(\<exists>r'. find_delivery i (fold (record_attempt i) attempts d) = Some r' \<and> \<not> pending_delivery r' \<and>
      nd_attempt_count r' \<le> 6) \<and>
    RecordNotificationDelivery i dl code msg now (fold (record_attempt i) attempts d) =
      (Inl ErrConflict, fold (record_attempt i) attempts d) \<and>
    (pending_delivery r \<and> nd_attempt_count r < 5 \<longrightarrow>
      map_option nd_next_attempt_at (find_delivery i (record_attempt i (False, code, msg, now) d)) =
        Some (unixMilli (now + [1, 5, 30, 120, 360] ! nat (nd_attempt_count r) * minute))) \<and>
    find_delivery i (snd (DispatchNotifications send limit now d)) =
      (case find (\<lambda>(x, n). nd_id x = i) (ListDueNotificationDeliveries now limit d) of
         None \<Rightarrow> Some r
       | Some (x, n) \<Rightarrow> find_delivery i (record_attempt i (answered (send x n)) d))"
proof (intro conjI impI)
  let ?d = "fold (record_attempt i) attempts d"
  show "find_delivery i (snd (DispatchNotifications send limit now d)) =
      (case find (\<lambda>(x, n). nd_id x = i) (ListDueNotificationDeliveries now limit d) of
         None \<Rightarrow> Some r
       | Some (x, n) \<Rightarrow> find_delivery i (record_attempt i (answered (send x n)) d))"
    using assms(1,2) by (simp add: DispatchNotifications_def dispatch_find due_ids split: option.split)
  have r0: "r \<in> set (db_deliveries d)" using assms(2) by (auto simp: find_delivery_def dest: sql_first_SomeD)
  have n0: "0 \<le> nd_attempt_count r" using assms(1) r0 by (simp add: deliveries_ok_def)
  from record_attempts [OF assms(1,2), of attempts] obtain r' where ok: "deliveries_ok ?d"
    and f: "find_delivery i ?d = Some r'"
    and c: "pending_delivery r' \<longrightarrow> nd_attempt_count r' = nd_attempt_count r + int (length attempts)" by blast
  have r': "r' \<in> set (db_deliveries ?d)" "nd_id r' = i" using f by (auto simp: find_delivery_def dest: sql_first_SomeD)
  have settled: "\<not> pending_delivery r'" using ok r'(1) c assms(3) n0 by (force simp: deliveries_ok_def)
  moreover have "nd_attempt_count r' \<le> 6" using ok r'(1) by (simp add: deliveries_ok_def)
  ultimately show "\<exists>r'. find_delivery i ?d = Some r' \<and> \<not> pending_delivery r' \<and> nd_attempt_count r' \<le> 6" using f by blast
  have u: "unique_by nd_id (db_deliveries ?d)" using ok by (simp add: deliveries_ok_def)
  have "\<not> (\<exists>x\<in>set (db_deliveries ?d). nd_id x = i \<and> pending_delivery x)"
  proof
    assume "\<exists>x\<in>set (db_deliveries ?d). nd_id x = i \<and> pending_delivery x"
    then obtain x where x: "x \<in> set (db_deliveries ?d)" "nd_id x = i" "pending_delivery x" by blast
    have "x = r'" using unique_byD [OF u x(1) r'(1)] x(2) r'(2) by simp
    with x(3) settled show False by simp
  qed
  then show "RecordNotificationDelivery i dl code msg now ?d = (Inl ErrConflict, ?d)"
    by (simp add: RecordNotificationDelivery_eq [OF u])
  assume p: "pending_delivery r \<and> nd_attempt_count r < 5"
  have u0: "unique_by nd_id (db_deliveries d)" using assms(1) by (simp add: deliveries_ok_def)
  have "nat (nd_attempt_count r) \<in> {0, 1, 2, 3, 4}" using p n0 by auto
  then have "delivery_delays ! nat (nd_attempt_count r) = [1, 5, 30, 120, 360] ! nat (nd_attempt_count r) * minute"
    by (auto simp: delivery_delays_def)
  with p n0 show "map_option nd_next_attempt_at (find_delivery i (record_attempt i (False, code, msg, now) d)) =
      Some (unixMilli (now + [1, 5, 30, 120, 360] ! nat (nd_attempt_count r) * minute))"
    using find_delivery_record [OF u0, of i i False code msg now] assms(2)
    by (simp add: record_attempt_def attempted_row_def attempt_failed_row_def Let_def delivery_delays_def)
qed

definition sample_delivery :: delivery_row where
  "sample_delivery = \<lparr> nd_id = ''nd1'', nd_notifier_id = ''nf1'', nd_alert_id = ''al1'', nd_event_type = ''created'',
     nd_payload = \<lparr> an_event = ''created'', an_alert_id = ''al1'', an_node_id = ''n1'', an_node_name = ''tokyo'',
       an_type = ''node_offline'', an_severity = ''critical'', an_status = ''open'', an_message = ''m'', an_occurred_at = 0 \<rparr>,
     nd_status = ''queued'', nd_attempt_count = 0, nd_next_attempt_at = 0, nd_last_error = '''',
     nd_response_code = 0, nd_delivered_at = None, nd_created_at = 0, nd_updated_at = 0 \<rparr>"

theorem notification_settles_witness:
  "RecordNotificationDelivery ''nd1'' True 200 '''' 0
     (fold (record_attempt ''nd1'') (replicate 6 (False, 500, ''down'', 0)) (sample_db\<lparr>db_deliveries := [sample_delivery]\<rparr>)) =
   (Inl ErrConflict,
     fold (record_attempt ''nd1'') (replicate 6 (False, 500, ''down'', 0)) (sample_db\<lparr>db_deliveries := [sample_delivery]\<rparr>))"
proof -
  have "deliveries_ok (sample_db\<lparr>db_deliveries := [sample_delivery]\<rparr>)"
    "find_delivery ''nd1'' (sample_db\<lparr>db_deliveries := [sample_delivery]\<rparr>) = Some sample_delivery"
    by (simp_all add: deliveries_ok_def find_delivery_def sample_delivery_def unique_by_def)
  from notification_settles [OF this, of "replicate 6 (False, 500, ''down'', 0)"] show ?thesis by simp
qed

end
