(* ===== verification/Operations.thy ===== *)
theory Operations
  imports Alerts Go_Strings
begin

text \<open>
  Node operations (internal/store/operation.go): the bounded queue of remote operations of a
  node, their states, delivery to the agent, results and retries, and the retry of a node's
  synchronisation.  The theory shows that the queue stays bounded, that sequence numbers are
  never reused, that an operation moves only along the allowed transitions and that recording
  a result twice changes nothing.
\<close>

section \<open>Validation\<close>

definition DefaultOperationLogLines :: int where "DefaultOperationLogLines = 100"
definition MaxOperationLogLines :: int where "MaxOperationLogLines = 200"
definition MaxPendingNodeOperations :: int where "MaxPendingNodeOperations = 20"

definition ValidOperationType :: "string \<Rightarrow> bool" where
  "ValidOperationType value \<longleftrightarrow>
     value \<in> set [''probe_core'', ''restart_core'', ''tail_core_log'', ''backup_config'', ''ping'']"

definition ValidOperationStatus :: "string \<Rightarrow> bool" where
  "ValidOperationStatus value \<longleftrightarrow>
     value \<in> set [''queued'', ''running'', ''succeeded'', ''failed'', ''expired'']"

definition normalizeOperationLines :: "string \<Rightarrow> int \<Rightarrow> store_error + int" where
  "normalizeOperationLines operationType maxLines =
     (if operationType \<noteq> ''tail_core_log'' then
        (if maxLines \<noteq> 0 then Inl ErrUnsupported else Inr 0)
      else if maxLines = 0 then Inr DefaultOperationLogLines
      else if maxLines < 1 \<or> maxLines > MaxOperationLogLines then Inl ErrUnsupported
      else Inr maxLines)"

definition normalizeOperationTarget :: "string \<Rightarrow> string \<Rightarrow> store_error + string" where
  "normalizeOperationTarget operationType target =
     (let target = TrimSpace target in
      if operationType \<noteq> ''ping'' then
        (if target \<noteq> '''' then Inl ErrUnsupported else Inr '''')
      else case ParseIP target of
        None \<Rightarrow> Inl ErrUnsupported
      | Some ip \<Rightarrow> Inr (IP_String ip))"

definition operationTTL :: "string \<Rightarrow> duration" where
  "operationTTL operationType =
     (if operationType = ''ping'' then 2 * minute
      else if operationType = ''restart_core'' \<or> operationType = ''backup_config'' then 15 * minute
      else 10 * minute)"

section \<open>The queue\<close>

definition opkey :: "operation_row \<Rightarrow> string \<times> int" where
  "opkey x = (op_node_id x, op_sequence x)"

definition pending_op :: "string \<Rightarrow> operation_row \<Rightarrow> bool" where
  "pending_op nodeID x \<longleftrightarrow> op_node_id x = nodeID \<and> (op_status x = ''queued'' \<or> op_status x = ''running'')"

definition ensureOperationQueueCapacity :: "string \<Rightarrow> db \<Rightarrow> store_error + unit" where
  "ensureOperationQueueCapacity nodeID d =
     (if sql_count (pending_op nodeID) (db_operations d) \<ge> MaxPendingNodeOperations
      then Inl ErrConflict else Inr ())"

definition next_sequence :: "string \<Rightarrow> db \<Rightarrow> int" where
  "next_sequence nodeID d =
     fold max (map op_sequence (filter (\<lambda>x. op_node_id x = nodeID) (db_operations d))) 0 + 1"

definition new_operation_row ::
  "string \<Rightarrow> string \<Rightarrow> int \<Rightarrow> string \<Rightarrow> int \<Rightarrow> string \<Rightarrow> string \<Rightarrow> int \<Rightarrow> string \<Rightarrow> gotime \<Rightarrow> operation_row" where
  "new_operation_row operationID nodeID seq operationType maxLines target retryOf attempt requestedBy now =
     \<lparr> op_id = operationID, op_node_id = nodeID, op_sequence = seq, op_type = operationType,
       op_status = ''queued'', op_retry_of = (if retryOf = '''' then None else Some retryOf),
       op_attempt = attempt, op_max_lines = maxLines, op_target = target, op_output = '''',
       op_error_code = '''', op_error_message = '''', op_rolled_back = False,
       op_requested_by = requestedBy, op_expires_at = unixMilli (now + operationTTL operationType),
       op_started_at = None, op_completed_at = None,
       op_created_at = unixMilli now, op_updated_at = unixMilli now \<rparr>"

definition insertNodeOperationTx ::
  "env \<Rightarrow> string \<Rightarrow> string \<Rightarrow> int \<Rightarrow> string \<Rightarrow> string \<Rightarrow> int \<Rightarrow> string \<Rightarrow> gotime \<Rightarrow> db \<Rightarrow>
     store_error + string \<times> db" where
  "insertNodeOperationTx e nodeID operationType maxLines target retryOf attempt requestedBy now d =
     (let seq = next_sequence nodeID d;
          (operationID, d1) = NewID e d;
          row = new_operation_row operationID nodeID seq operationType maxLines target retryOf attempt
                  requestedBy now in
      if sql_exists (\<lambda>x. op_id x = op_id row \<or> opkey x = opkey row) (db_operations d1)
      then Inl (ErrOther ''insert node operation'')
      else Inr (operationID, d1\<lparr>db_operations := db_operations d1 @ [row]\<rparr>))"

definition GetNodeOperation :: "string \<Rightarrow> string \<Rightarrow> db \<Rightarrow> store_error + operation_row" where
  "GetNodeOperation nodeID operationID d =
     (if find_active_node nodeID d = None then Inl ErrNotFound
      else case sql_first (\<lambda>x. op_id x = operationID \<and> op_node_id x = nodeID) (db_operations d) of
             None \<Rightarrow> Inl ErrNotFound
           | Some x \<Rightarrow> Inr x)"

text \<open>A committed insertion is answered with the row as it reads back.\<close>

definition read_back :: "string \<Rightarrow> (store_error + string) \<times> db \<Rightarrow> (store_error + operation_row) \<times> db" where
  "read_back nodeID = (\<lambda>(r, d). (rbind r (\<lambda>i. GetNodeOperation nodeID i d), d))"

definition installation_of :: "node_row \<Rightarrow> string" where
  "installation_of n = (case na_installation_id (n_agent n) of None \<Rightarrow> '''' | Some i \<Rightarrow> i)"

definition CreateTargetedNodeOperation ::
  "env \<Rightarrow> string \<Rightarrow> string \<Rightarrow> int \<Rightarrow> string \<Rightarrow> string \<Rightarrow> gotime \<Rightarrow> db \<Rightarrow> (store_error + operation_row) \<times> db" where
  "CreateTargetedNodeOperation e nodeID operationType maxLines target requestedBy now d =
     read_back nodeID (transact (\<lambda>d.
       if \<not> ValidOperationType operationType then Inl ErrUnsupported
       else rbind (normalizeOperationLines operationType maxLines) (\<lambda>normalizedLines.
       rbind (normalizeOperationTarget operationType target) (\<lambda>normalizedTarget.
       case find_active_node nodeID d of
         None \<Rightarrow> Inl ErrNotFound
       | Some n \<Rightarrow>
           if installation_of n = '''' then Inl ErrPending
           else if n_adapter_type n = AdapterSingBoxVLESSReality \<and> operationType = ''tail_core_log''
           then Inl ErrUnsupported
           else rbind (ensureOperationQueueCapacity nodeID d) (\<lambda>_.
             insertNodeOperationTx e nodeID operationType normalizedLines normalizedTarget '''' 1
               requestedBy now d)))) d)"

definition CreateNodeOperation ::
  "env \<Rightarrow> string \<Rightarrow> string \<Rightarrow> int \<Rightarrow> string \<Rightarrow> gotime \<Rightarrow> db \<Rightarrow> (store_error + operation_row) \<times> db" where
  "CreateNodeOperation e nodeID operationType maxLines requestedBy now =
     CreateTargetedNodeOperation e nodeID operationType maxLines '''' requestedBy now"

definition RetryNodeOperation ::
  "env \<Rightarrow> string \<Rightarrow> string \<Rightarrow> string \<Rightarrow> gotime \<Rightarrow> db \<Rightarrow> (store_error + operation_row) \<times> db" where
  "RetryNodeOperation e nodeID operationID requestedBy now d =
     read_back nodeID (transact (\<lambda>d.
       case (sql_first (\<lambda>x. op_id x = operationID \<and> op_node_id x = nodeID) (db_operations d),
             find_active_node nodeID d) of
         (Some x, Some n) \<Rightarrow>
           if op_status x \<noteq> ''failed'' \<and> op_status x \<noteq> ''expired'' then Inl ErrConflict
           else if n_adapter_type n = AdapterSingBoxVLESSReality \<and> op_type x = ''tail_core_log''
           then Inl ErrUnsupported
           else rbind (ensureOperationQueueCapacity nodeID d) (\<lambda>_.
             insertNodeOperationTx e nodeID (op_type x) (op_max_lines x) (op_target x) operationID
               (op_attempt x + 1) requestedBy now d)
       | _ \<Rightarrow> Inl ErrNotFound) d)"

definition list_limit :: "int \<Rightarrow> int \<Rightarrow> int \<Rightarrow> int" where
  "list_limit limit upper def = (if limit < 1 \<or> limit > upper then def else limit)"

definition ListNodeOperations :: "string \<Rightarrow> int \<Rightarrow> db \<Rightarrow> store_error + operation_row list" where
  "ListNodeOperations nodeID limit d =
     (let rows = (if find_active_node nodeID d = None then []
            else take (nat (list_limit limit 100 50)) (rev (sort_key op_sequence
                   (filter (\<lambda>x. op_node_id x = nodeID) (db_operations d)))))
      in if rows = [] \<and> find_active_node nodeID d = None then Inl ErrNotFound else Inr rows)"

section \<open>Delivery and results\<close>

definition running_row :: "int \<Rightarrow> operation_row \<Rightarrow> operation_row" where
  "running_row now x = x\<lparr>op_status := ''running'',
     op_started_at := Some (case op_started_at x of None \<Rightarrow> now | Some t \<Rightarrow> t), op_updated_at := now\<rparr>"

definition mark_running :: "gotime \<Rightarrow> string \<Rightarrow> db \<Rightarrow> db" where
  "mark_running now operationID d = d\<lparr>db_operations :=
     sql_update (\<lambda>x. op_id x = operationID \<and> (op_status x = ''queued'' \<or> op_status x = ''running''))
       (running_row (unixMilli now)) (db_operations d)\<rparr>"

definition deliverable :: "string \<Rightarrow> int \<Rightarrow> gotime \<Rightarrow> operation_row \<Rightarrow> bool" where
  "deliverable nodeID after now x \<longleftrightarrow> op_node_id x = nodeID \<and> op_sequence x > after \<and>
     (op_status x = ''running'' \<or> op_status x = ''queued'' \<and> op_expires_at x > unixMilli now)"

definition ListPendingNodeOperations ::
  "agent_identity \<Rightarrow> int \<Rightarrow> gotime \<Rightarrow> int \<Rightarrow> db \<Rightarrow> (store_error + operation_row list) \<times> db" where
  "ListPendingNodeOperations identity after now limit = transact (\<lambda>d.
     case find_active_node (ai_node_id identity) d of
       None \<Rightarrow> Inl ErrNotFound
     | Some n \<Rightarrow>
         if installation_of n \<noteq> ai_installation_id identity then Inl ErrConflict
         else
           let d1 = expire_queued (\<lambda>x. op_node_id x = ai_node_id identity \<and> op_sequence x > after) now d;
               operations = take (nat (list_limit limit 20 20)) (sort_key op_sequence
                 (filter (deliverable (ai_node_id identity) after now) (db_operations d1)))
           in Inr (operations, fold (mark_running now) (map op_id operations) d1))"

record backup_result =
  br_local_path :: string
  br_sha256 :: string
  br_size_bytes :: int

record operation_result =
  or_sequence :: int
  or_status :: string
  or_output :: string
  or_error_code :: string
  or_error_message :: string
  or_rolled_back :: bool
  or_completed_at :: gotime
  or_backup :: "backup_result option"

definition validConfigBackupPath :: "string \<Rightarrow> bool" where
  "validConfigBackupPath value \<longleftrightarrow> path_Clean value = value \<and>
     (HasPrefix value ''/var/lib/hyfleet-backups/'' \<or> HasPrefix value ''/var/lib/hyfleet-backups-lab/'')"

definition lower_hex :: "char \<Rightarrow> bool" where
  "lower_hex c \<longleftrightarrow> c \<in> set ''0123456789abcdef''"

definition backup_acceptable :: "backup_result \<Rightarrow> bool" where
  "backup_acceptable b \<longleftrightarrow>
     \<not> (\<not> validConfigBackupPath (path_Clean (br_local_path b)) \<or>
        path_Clean (br_local_path b) \<noteq> br_local_path b \<or> length (br_local_path b) > 512 \<or>
        length (br_sha256 b) \<noteq> 64 \<or> \<not> list_all lower_hex (br_sha256 b) \<or> br_size_bytes b < 0)"

definition record_backup ::
  "env \<Rightarrow> string \<Rightarrow> string \<Rightarrow> gotime \<Rightarrow> backup_result option \<Rightarrow> db \<Rightarrow> store_error + db" where
  "record_backup e nodeID operationID completedAt backup d =
     (case backup of None \<Rightarrow> Inr d
      | Some b \<Rightarrow>
          if \<not> backup_acceptable b then Inl ErrUnsupported
          else
            let (i, d1) = NewID e d;
                row = \<lparr> cb_id = i, cb_node_id = nodeID, cb_operation_id = operationID,
                        cb_local_path = br_local_path b, cb_sha256 = br_sha256 b,
                        cb_size_bytes = br_size_bytes b, cb_created_at = unixMilli completedAt \<rparr> in
            if sql_exists (\<lambda>x. cb_id x = i \<or> cb_operation_id x = operationID) (db_backups d1)
            then Inl (ErrOther ''record config backup'')
            else Inr (d1\<lparr>db_backups := db_backups d1 @ [row]\<rparr>))"

definition result_row :: "operation_result \<Rightarrow> int \<Rightarrow> int \<Rightarrow> operation_row \<Rightarrow> operation_row" where
  "result_row result completedAt now x = x\<lparr>op_status := or_status result, op_output := or_output result,
     op_error_code := or_error_code result, op_error_message := or_error_message result,
     op_rolled_back := or_rolled_back result, op_completed_at := Some completedAt, op_updated_at := now\<rparr>"

definition same_result :: "operation_row \<Rightarrow> operation_result \<Rightarrow> bool" where
  "same_result x result \<longleftrightarrow> op_status x = or_status result \<and> op_output x = or_output result \<and>
     op_error_code x = or_error_code result \<and> op_error_message x = or_error_message result \<and>
     op_rolled_back x = or_rolled_back result"

definition settle_failure_alert ::
  "env \<Rightarrow> string \<Rightarrow> string \<Rightarrow> operation_result \<Rightarrow> gotime \<Rightarrow> db \<Rightarrow> store_error + db" where
  "settle_failure_alert e nodeID operationType result now d =
     (if or_status result = ''failed'' then
        upsertAlertTx e nodeID ''operation_failed'' ''warning''
          (if or_error_message result \<noteq> '''' then or_error_code result @ '': '' @ or_error_message result
           else or_error_code result) now d
      else if operationType \<noteq> '''' then
        (if sql_count (\<lambda>x. op_node_id x = nodeID \<and> unrecovered (db_operations d) x) (db_operations d) = 0
         then resolveAlertTx e nodeID ''operation_failed'' now d else Inr d)
      else Inr d)"

definition RecordNodeOperationResult ::
  "env \<Rightarrow> agent_identity \<Rightarrow> string \<Rightarrow> operation_result \<Rightarrow> gotime \<Rightarrow> db \<Rightarrow> (store_error + unit) \<times> db" where
  "RecordNodeOperationResult e identity operationID result now = transact (\<lambda>d.
     case (sql_first (\<lambda>x. op_id x = operationID \<and> op_node_id x = ai_node_id identity) (db_operations d),
           find_active_node (ai_node_id identity) d) of
       (Some x, Some n) \<Rightarrow>
         if installation_of n \<noteq> ai_installation_id identity \<or> op_sequence x \<noteq> or_sequence result
         then Inl ErrConflict
         else if op_status x = ''succeeded'' \<or> op_status x = ''failed'' then
           (if same_result x result then Inr ((), d) else Inl ErrConflict)
         else if op_status x = ''expired'' then Inl ErrExpired
         else if or_status result \<noteq> ''succeeded'' \<and> or_status result \<noteq> ''failed'' then Inl ErrUnsupported
         else
           let completedAt = (if or_completed_at result = zeroTime then now else or_completed_at result);
               d1 = d\<lparr>db_operations := sql_update (\<lambda>y. op_id y = operationID)
                       (result_row result (unixMilli completedAt) (unixMilli now)) (db_operations d)\<rparr> in
           rbind (record_backup e (ai_node_id identity) operationID completedAt (or_backup result) d1) (\<lambda>d2.
           rbind (settle_failure_alert e (ai_node_id identity) (op_type x) result now d2) (\<lambda>d3. Inr ((), d3)))
     | _ \<Rightarrow> Inl ErrNotFound)"

definition RetryNodeSync :: "env \<Rightarrow> string \<Rightarrow> gotime \<Rightarrow> db \<Rightarrow> (store_error + unit) \<times> db" where
  "RetryNodeSync e nodeID now = transact (\<lambda>d.
     case find_active_node nodeID d of
       None \<Rightarrow> Inl ErrNotFound
     | Some n \<Rightarrow>
         if installation_of n = '''' then Inl ErrPending
         else if n_adapter_type n \<noteq> ''native_hysteria2'' \<and> n_adapter_type n \<noteq> ''s_ui'' \<and>
                 n_adapter_type n \<noteq> AdapterSingBoxVLESSReality then Inl ErrUnsupported
         else rbind (bumpNodeSnapshot e nodeID now d) (\<lambda>(version, d1).
           let d2 = update_assignments (\<lambda>a. a_node_id a = nodeID) (pending_row version now) d1;
               d3 = update_nodes (\<lambda>x. n_id x = nodeID)
                      (\<lambda>x. x\<lparr>n_status := (if n_enabled n then ''pending'' else ''disabled''),
                             n_status_reason := '''', n_updated_at := unixMilli now\<rparr>) d2 in
           rbind (resolveAlertTx e nodeID ''sync_failed'' now d3) (\<lambda>d4. Inr ((), d4))))"

section \<open>The life of one operation\<close>

inductive op_status_step :: "string \<Rightarrow> string \<Rightarrow> bool" where
  deliver: "op_status_step ''queued'' ''running''"
| redeliver: "op_status_step ''running'' ''running''"
| expire: "op_status_step ''queued'' ''expired''"
| finish: "s = ''queued'' \<or> s = ''running'' \<Longrightarrow> t = ''succeeded'' \<or> t = ''failed'' \<Longrightarrow> op_status_step s t"

inductive_cases op_status_stepE: "op_status_step s t"

text \<open>Only queued and running operations move, so the three final states are final.\<close>

lemma op_status_step_source: "op_status_step s t \<Longrightarrow> s = ''queued'' \<or> s = ''running''"
  by (auto elim: op_status_stepE)

lemma op_status_final:
  assumes "op_status_step\<^sup>*\<^sup>* s t" and "s \<noteq> ''queued''" and "s \<noteq> ''running''"
  shows "t = s"
  using assms by (induction rule: converse_rtranclp_induct) (auto dest: op_status_step_source)

lemma op_status_valid:
  "op_status_step\<^sup>*\<^sup>* s t \<Longrightarrow> ValidOperationStatus s \<Longrightarrow> ValidOperationStatus t"
  by (induction rule: rtranclp_induct) (auto simp: ValidOperationStatus_def elim!: op_status_stepE)

text \<open>No operation comes back into the queue, and a running one is never queued or expired.\<close>

lemma op_status_pending:
  "op_status_step\<^sup>*\<^sup>* s t \<Longrightarrow> t = ''queued'' \<or> t = ''running'' \<Longrightarrow> s = ''queued'' \<or> s = ''running''"
  using op_status_final by blast

definition op_evolve :: "operation_row \<Rightarrow> operation_row \<Rightarrow> bool" where
  "op_evolve x y \<longleftrightarrow> op_id y = op_id x \<and> op_node_id y = op_node_id x \<and> op_sequence y = op_sequence x \<and>
     op_type y = op_type x \<and> op_attempt y = op_attempt x \<and> op_max_lines y = op_max_lines x \<and>
     op_target y = op_target x \<and> op_retry_of y = op_retry_of x \<and> op_expires_at y = op_expires_at x \<and>
     op_status_step\<^sup>*\<^sup>* (op_status x) (op_status y)"

lemma op_evolve_refl: "op_evolve x x"
  by (simp add: op_evolve_def)

lemma op_evolve_trans: "op_evolve x y \<Longrightarrow> op_evolve y z \<Longrightarrow> op_evolve x z"
  unfolding op_evolve_def by (metis rtranclp_trans)

lemma evolve_update:
  assumes "\<And>x. x \<in> set ops \<Longrightarrow> p x \<Longrightarrow> op_evolve x (f x)"
  shows "list_all2 op_evolve ops (sql_update p f ops)"
  using assms by (induction ops) (auto simp: op_evolve_refl)

lemma evolve_trans:
  "list_all2 op_evolve xs ys \<Longrightarrow> list_all2 op_evolve ys zs \<Longrightarrow> list_all2 op_evolve xs zs"
  by (rule list_all2_trans [OF op_evolve_trans])

lemma running_evolves: "op_status x = ''queued'' \<or> op_status x = ''running'' \<Longrightarrow> op_evolve x (running_row now x)"
  by (auto simp: op_evolve_def running_row_def intro!: r_into_rtranclp intro: deliver redeliver)

lemma expired_evolves: "op_status x = ''queued'' \<Longrightarrow> op_evolve x (expired_operation_row now x)"
  by (auto simp: op_evolve_def expired_operation_row_def intro!: r_into_rtranclp intro: expire)

lemma result_evolves:
  "op_status x = ''queued'' \<or> op_status x = ''running'' \<Longrightarrow> or_status r = ''succeeded'' \<or> or_status r = ''failed'' \<Longrightarrow>
     op_evolve x (result_row r c now x)"
  by (auto simp: op_evolve_def result_row_def intro!: r_into_rtranclp finish)

section \<open>The invariant of the queue\<close>

definition ops_ok :: "db \<Rightarrow> bool" where
  "ops_ok d \<longleftrightarrow> unique_by op_id (db_operations d) \<and> unique_by opkey (db_operations d) \<and>
     (\<forall>x\<in>set (db_operations d). ValidOperationStatus (op_status x) \<and> 1 \<le> op_sequence x) \<and>
     (\<forall>i. sql_count (pending_op i) (db_operations d) \<le> MaxPendingNodeOperations)"

lemma evolve_keys:
  "list_all2 op_evolve xs ys \<Longrightarrow> map op_id ys = map op_id xs \<and> map opkey ys = map opkey xs"
  by (induction rule: list_all2_induct) (auto simp: op_evolve_def opkey_def)

lemma evolve_valid:
  "list_all2 op_evolve xs ys \<Longrightarrow> \<forall>x\<in>set xs. ValidOperationStatus (op_status x) \<and> 1 \<le> op_sequence x \<Longrightarrow>
     \<forall>x\<in>set ys. ValidOperationStatus (op_status x) \<and> 1 \<le> op_sequence x"
  by (induction rule: list_all2_induct) (auto simp: op_evolve_def dest: op_status_valid)

lemma evolve_pending: "op_evolve x y \<Longrightarrow> pending_op i y \<Longrightarrow> pending_op i x"
  using op_status_pending by (fastforce simp: op_evolve_def pending_op_def)

lemma evolve_count:
  "list_all2 op_evolve xs ys \<Longrightarrow> sql_count (pending_op i) ys \<le> sql_count (pending_op i) xs"
  by (induction rule: list_all2_induct) (auto simp: sql_count_def dest: evolve_pending)

lemma ops_ok_evolve:
  assumes "ops_ok d" and "list_all2 op_evolve (db_operations d) (db_operations d')"
  shows "ops_ok d'"
  unfolding ops_ok_def
proof (intro conjI allI)
  show "unique_by op_id (db_operations d')" "unique_by opkey (db_operations d')"
    using assms evolve_keys [OF assms(2)] by (simp_all add: ops_ok_def unique_by_def)
  show "\<forall>x\<in>set (db_operations d'). ValidOperationStatus (op_status x) \<and> 1 \<le> op_sequence x"
    using assms(1) by (intro evolve_valid [OF assms(2)]) (simp add: ops_ok_def)
  show "sql_count (pending_op i) (db_operations d') \<le> MaxPendingNodeOperations" for i
    using assms(1) evolve_count [OF assms(2), of i] unfolding ops_ok_def by (meson order_trans)
qed

text \<open>What one call does to the table of operations: existing rows evolve, and at most one
  new queued row is added whose sequence number is larger than all of its node's.\<close>

definition ops_step :: "db \<Rightarrow> db \<Rightarrow> bool" where
  "ops_step d d' \<longleftrightarrow> list_all2 op_evolve (db_operations d) (db_operations d') \<or>
     (\<exists>r. db_operations d' = db_operations d @ [r] \<and> op_status r = ''queued'' \<and>
        (\<forall>x\<in>set (db_operations d). op_node_id x = op_node_id r \<longrightarrow> op_sequence x < op_sequence r))"

lemma ops_step_refl: "ops_step d d"
  by (simp add: ops_step_def list.rel_refl op_evolve_refl)

lemma ops_step_same: "db_operations d' = db_operations d \<Longrightarrow> ops_step d d'"
  by (simp add: ops_step_def list.rel_refl op_evolve_refl)

lemma fold_max_ge: "(\<forall>x\<in>set xs. x \<le> fold max xs (a :: int)) \<and> a \<le> fold max xs a"
proof (induction xs arbitrary: a)
  case (Cons x xs)
  from Cons [of "max x a"] show ?case by auto
qed simp

lemma next_sequence_greater:
  "x \<in> set (db_operations d) \<Longrightarrow> op_node_id x = i \<Longrightarrow> op_sequence x < next_sequence i d"
  using fold_max_ge [of "map op_sequence (filter (\<lambda>x. op_node_id x = i) (db_operations d))" 0]
  by (auto simp: next_sequence_def)

lemma next_sequence_pos: "1 \<le> next_sequence i d"
  using fold_max_ge [of "map op_sequence (filter (\<lambda>x. op_node_id x = i) (db_operations d))" 0]
  by (simp add: next_sequence_def)

lemma insertNodeOperationTx_Inr:
  assumes "insertNodeOperationTx e i ty ml tg ro att rb now d = Inr (oid, d')"
  obtains r where "db_operations d' = db_operations d @ [r]" "op_id r = oid" "op_node_id r = i"
    "op_sequence r = next_sequence i d" "op_status r = ''queued''" "op_type r = ty" "op_attempt r = att"
    "op_target r = tg" "op_max_lines r = ml" "op_expires_at r = unixMilli (now + operationTTL ty)"
    "op_retry_of r = (if ro = '''' then None else Some ro)"
    "\<forall>x\<in>set (db_operations d). op_id x \<noteq> oid \<and> opkey x \<noteq> opkey r"
    "d' = d\<lparr>db_next_id := Suc (db_next_id d), db_operations := db_operations d @ [r]\<rparr>"
proof -
  let ?r = "new_operation_row (env_new_id e (db_next_id d)) i (next_sequence i d) ty ml tg ro att rb now"
  have f: "op_id ?r = env_new_id e (db_next_id d)" "op_node_id ?r = i" "op_sequence ?r = next_sequence i d"
    "op_status ?r = ''queued''" "op_type ?r = ty" "op_attempt ?r = att" "op_target ?r = tg" "op_max_lines ?r = ml"
    "op_expires_at ?r = unixMilli (now + operationTTL ty)" "op_retry_of ?r = (if ro = '''' then None else Some ro)"
    by (simp_all add: new_operation_row_def)
  show ?thesis
    by (rule that [of ?r]) (use assms f in \<open>auto simp: insertNodeOperationTx_def NewID_def Let_def sql_exists_iff
      split: if_splits\<close>)
qed

lemma insert_step:
  assumes "insertNodeOperationTx e i ty ml tg ro att rb now d = Inr (oid, d')"
  shows "ops_step d d'"
  using insertNodeOperationTx_Inr [OF assms] next_sequence_greater [of _ d i] unfolding ops_step_def by metis

lemma insert_ok:
  assumes "ops_ok d" and "ensureOperationQueueCapacity i d = Inr u"
    and "insertNodeOperationTx e i ty ml tg ro att rb now d = Inr (oid, d')"
  shows "ops_ok d'"
proof -
  from insertNodeOperationTx_Inr [OF assms(3)] obtain r where
    r: "db_operations d' = db_operations d @ [r]" "op_id r = oid" "op_node_id r = i"
      "op_sequence r = next_sequence i d" "op_status r = ''queued''"
      "\<forall>x\<in>set (db_operations d). op_id x \<noteq> oid \<and> opkey x \<noteq> opkey r" by metis
  have c: "sql_count (pending_op i) (db_operations d) < MaxPendingNodeOperations"
    using assms(2) by (simp add: ensureOperationQueueCapacity_def split: if_splits)
  have "sql_count (pending_op j) (db_operations d') \<le> MaxPendingNodeOperations" for j
  proof (cases "j = i")
    case True
    with c r show ?thesis by (auto simp: sql_count_def)
  next
    case False
    with assms(1) r show ?thesis by (auto simp: sql_count_def pending_op_def ops_ok_def)
  qed
  then show ?thesis
    using assms(1) r next_sequence_pos [of i d]
    by (simp add: ops_ok_def unique_by_append1 ValidOperationStatus_def)
qed

lemma read_back_db: "snd (read_back i r) = snd r"
  by (cases r) (simp add: read_back_def)

section \<open>Every call is a step of the queue\<close>

lemma Create_cases:
  assumes "CreateTargetedNodeOperation e i ty ml tg rb now d = (r, d')"
  shows "d' = d \<or> (\<exists>ml' tg' oid. ensureOperationQueueCapacity i d = Inr () \<and>
    normalizeOperationLines ty ml = Inr ml' \<and> normalizeOperationTarget ty tg = Inr tg' \<and>
    insertNodeOperationTx e i ty ml' tg' '''' 1 rb now d = Inr (oid, d') \<and> r = GetNodeOperation i oid d')"
  using assms
  by (auto simp: CreateTargetedNodeOperation_def read_back_def transact_def rbind_Inr_conv
      split: sum.splits option.splits if_splits prod.splits)

lemma Retry_cases:
  assumes "RetryNodeOperation e i oid rb now d = (r, d')"
  shows "d' = d \<or> (\<exists>x noid. ensureOperationQueueCapacity i d = Inr () \<and>
    sql_first (\<lambda>x. op_id x = oid \<and> op_node_id x = i) (db_operations d) = Some x \<and>
    (op_status x = ''failed'' \<or> op_status x = ''expired'') \<and>
    insertNodeOperationTx e i (op_type x) (op_max_lines x) (op_target x) oid (op_attempt x + 1) rb now d =
      Inr (noid, d') \<and> r = GetNodeOperation i noid d')"
  using assms
  by (auto simp: RetryNodeOperation_def read_back_def transact_def rbind_Inr_conv
      split: sum.splits option.splits if_splits prod.splits)

lemma expire_evolves: "list_all2 op_evolve (db_operations d) (db_operations (expire_queued p now d))"
  by (simp add: expire_queued_def) (rule evolve_update, simp add: expired_evolves)

lemma mark_running_evolves: "list_all2 op_evolve (db_operations d) (db_operations (mark_running now i d))"
  by (simp add: mark_running_def) (rule evolve_update, blast intro: running_evolves)

lemma mark_running_fold_evolves:
  "list_all2 op_evolve (db_operations d) (db_operations (fold (mark_running now) is d))"
proof (induction "is" arbitrary: d)
  case Nil
  show ?case by (simp add: list.rel_refl op_evolve_refl)
next
  case (Cons i "is")
  from evolve_trans [OF mark_running_evolves Cons] show ?case by simp
qed

lemma ListPending_cases:
  assumes "ListPendingNodeOperations identity after now limit d = (r, d')"
  shows "d' = d \<or> (\<exists>ops. r = Inr ops \<and>
     ops = take (nat (list_limit limit 20 20)) (sort_key op_sequence
                 (filter (deliverable (ai_node_id identity) after now) (db_operations
       (expire_queued (\<lambda>x. op_node_id x = ai_node_id identity \<and> op_sequence x > after) now d)))) \<and>
     d' = fold (mark_running now) (map op_id ops)
       (expire_queued (\<lambda>x. op_node_id x = ai_node_id identity \<and> op_sequence x > after) now d))"
  using assms
  by (auto simp: ListPendingNodeOperations_def transact_def Let_def split: sum.splits option.splits if_splits)

lemma record_backup_frame:
  "record_backup e i oid c b d = Inr d' \<Longrightarrow> \<exists>bs k. d' = d\<lparr>db_backups := bs, db_next_id := k\<rparr>"
proof -
  assume "record_backup e i oid c b d = Inr d'"
  then have "d' = d\<lparr>db_backups := db_backups d', db_next_id := db_next_id d'\<rparr>"
    by (auto simp: record_backup_def NewID_def Let_def split: option.splits if_splits)
  then show ?thesis by blast
qed

lemma settle_failure_alert_effect:
  "alerts_ok d \<Longrightarrow> settle_failure_alert e i ty r now d = Inr d' \<Longrightarrow> alerts_ok d' \<and> alerts_only d d'"
  unfolding settle_failure_alert_def
  by (auto simp: alerts_only_refl split: if_split_asm dest: upsertAlertTx_effect resolveAlertTx_effect)

interpretation op_result: row_update op_id "result_row r c now" for r c now
  by unfold_locales (simp add: result_row_def)

lemma RecordResult_cases:
  assumes "RecordNodeOperationResult e identity oid result now d = (r, d')" and "alerts_ok d"
  shows "(d' = d \<and> (\<forall>u. r = Inr u \<longrightarrow> (\<exists>x. sql_first (\<lambda>x. op_id x = oid \<and> op_node_id x = ai_node_id identity) (db_operations d) = Some x \<and>
      same_result x result))) \<or>
    (\<exists>x n c d2. r = Inr () \<and>
       sql_first (\<lambda>x. op_id x = oid \<and> op_node_id x = ai_node_id identity) (db_operations d) = Some x \<and>
       find_active_node (ai_node_id identity) d = Some n \<and> installation_of n = ai_installation_id identity \<and>
       op_sequence x = or_sequence result \<and> op_status x \<noteq> ''succeeded'' \<and> op_status x \<noteq> ''failed'' \<and>
       op_status x \<noteq> ''expired'' \<and> (or_status result = ''succeeded'' \<or> or_status result = ''failed'') \<and>
       (case or_backup result of None \<Rightarrow> True | Some b \<Rightarrow> backup_acceptable b) \<and>
       (\<exists>bs k. d2 = d\<lparr>db_operations := sql_update (\<lambda>y. op_id y = oid) (result_row result c (unixMilli now)) (db_operations d),
          db_backups := bs, db_next_id := k\<rparr>) \<and> alerts_only d2 d' \<and> alerts_ok d')"
proof (cases "\<exists>x n. sql_first (\<lambda>x. op_id x = oid \<and> op_node_id x = ai_node_id identity) (db_operations d) = Some x \<and>
       find_active_node (ai_node_id identity) d = Some n \<and> installation_of n = ai_installation_id identity \<and>
       op_sequence x = or_sequence result \<and> op_status x \<noteq> ''succeeded'' \<and> op_status x \<noteq> ''failed'' \<and>
       op_status x \<noteq> ''expired'' \<and> (or_status result = ''succeeded'' \<or> or_status result = ''failed'')")
  case False
  with assms(1) show ?thesis
    by (auto simp: RecordNodeOperationResult_def transact_def Let_def split: sum.splits option.splits if_splits)
next
  case True
  then obtain x n where x: "sql_first (\<lambda>x. op_id x = oid \<and> op_node_id x = ai_node_id identity) (db_operations d) = Some x"
    and n: "find_active_node (ai_node_id identity) d = Some n" "installation_of n = ai_installation_id identity"
    and s: "op_sequence x = or_sequence result" "op_status x \<noteq> ''succeeded''" "op_status x \<noteq> ''failed''"
      "op_status x \<noteq> ''expired''" "or_status result = ''succeeded'' \<or> or_status result = ''failed''" by blast
  define c where "c = (if or_completed_at result = zeroTime then now else or_completed_at result)"
  let ?d1 = "d\<lparr>db_operations := sql_update (\<lambda>y. op_id y = oid) (result_row result (unixMilli c) (unixMilli now)) (db_operations d)\<rparr>"
  show ?thesis
  proof (cases "d' = d \<and> (\<exists>err. r = Inl err)")
    case True
    then show ?thesis by auto
  next
    case F: False
    from assms(1) F x n s obtain d2 where b: "record_backup e (ai_node_id identity) oid c (or_backup result) ?d1 = Inr d2"
      and st: "settle_failure_alert e (ai_node_id identity) (op_type x) result now d2 = Inr d'" and r: "r = Inr ()"
      unfolding RecordNodeOperationResult_def transact_def Let_def c_def [symmetric]
      by (auto simp: rbind_def split: sum.splits)
    from record_backup_frame [OF b] obtain bs k where d2: "d2 = ?d1\<lparr>db_backups := bs, db_next_id := k\<rparr>" by blast
    have ok2: "alerts_ok d2" using assms(2) by (simp add: d2 alerts_ok_def)
    have acc: "case or_backup result of None \<Rightarrow> True | Some b \<Rightarrow> backup_acceptable b"
      using b by (auto simp: record_backup_def split: option.splits if_splits)
    show ?thesis
      using x n s r d2 acc settle_failure_alert_effect [OF ok2 st] by (intro disjI2) force
  qed
qed

lemma first_op_unique:
  assumes "unique_by op_id (db_operations d)"
    and "sql_first (\<lambda>x. op_id x = oid \<and> op_node_id x = i) (db_operations d) = Some x"
    and "y \<in> set (db_operations d)" and "op_id y = oid"
  shows "y = x"
  using sql_first_SomeD [OF assms(2)] assms unique_byD [OF assms(1), of y x] by simp

lemma RecordResult_step:
  assumes "RecordNodeOperationResult e identity oid result now d = (r, d')" and "alerts_ok d" and "ops_ok d"
  shows "list_all2 op_evolve (db_operations d) (db_operations d')"
proof (cases "d' = d")
  case True
  then show ?thesis by (simp add: list.rel_refl op_evolve_refl)
next
  case False
  with RecordResult_cases [OF assms(1,2)] obtain x c d2 bs k where x: "sql_first (\<lambda>x. op_id x = oid \<and> op_node_id x = ai_node_id identity) (db_operations d) = Some x"
    and s: "op_status x \<noteq> ''succeeded''" "op_status x \<noteq> ''failed''" "op_status x \<noteq> ''expired''"
      "or_status result = ''succeeded'' \<or> or_status result = ''failed''"
    and d2: "d2 = d\<lparr>db_operations := sql_update (\<lambda>y. op_id y = oid) (result_row result c (unixMilli now)) (db_operations d),
          db_backups := bs, db_next_id := k\<rparr>" and a: "alerts_only d2 d'"
    by blast
  have "x \<in> set (db_operations d)" using sql_first_SomeD [OF x] by simp
  then have "ValidOperationStatus (op_status x)" using assms(3) by (simp add: ops_ok_def)
  then have sx: "op_status x = ''queued'' \<or> op_status x = ''running''"
    using s by (auto simp: ValidOperationStatus_def)
  have u: "unique_by op_id (db_operations d)" using assms(3) by (simp add: ops_ok_def)
  have "op_evolve y (result_row result c (unixMilli now) y)" if "y \<in> set (db_operations d)" "op_id y = oid" for y
    using first_op_unique [OF u x that] result_evolves [OF sx s(4)] by simp
  then show ?thesis using alerts_only_tables [OF a] by (simp add: d2 evolve_update)
qed

lemma Reconcile_step:
  assumes "alerts_ok d" and "unique_by n_id (db_nodes d)"
  shows "list_all2 op_evolve (db_operations d) (db_operations (snd (ReconcileAlerts e now off stuck d)))"
proof (cases "ReconcileAlerts e now off stuck d")
  case (Pair r d')
  show ?thesis
  proof (cases r)
    case (Inl err)
    with Pair have "d' = d" by (auto simp: ReconcileAlerts_def dest: transact_rollback)
    with Pair show ?thesis by (simp add: list.rel_refl op_evolve_refl)
  next
    case (Inr u)
    have "alerts_only (expire_queued (\<lambda>_. True) now d) d'"
    proof -
      from Pair Inr obtain cs where
        cs: "rmap (condition_of (expire_queued (\<lambda>_. True) now d)) (filter (\<lambda>n. n_archived_at n = None) (db_nodes d)) = Inr cs"
        and f: "rfold (run_check e now) (all_checks now (default_duration off (90 * second))
          (default_duration stuck (5 * minute)) cs) (expire_queued (\<lambda>_. True) now d) = Inr d'"
        by (auto simp: ReconcileAlerts_def transact_commit Let_def rbind_Inr_conv expire_queued_def)
      have "distinct (map ac_node_id cs)"
        using rmap_conditions_ids [OF cs] assms(2) by (simp add: unique_by_def distinct_map_filter)
      moreover have "alerts_ok (expire_queued (\<lambda>_. True) now d)"
        using assms(1) by (simp add: alerts_ok_def expire_queued_def)
      ultimately show ?thesis
        using alerts.run_all [OF _ distinct_check_keys f [unfolded run_check_alt]] by simp
    qed
    then show ?thesis using Pair alerts_only_tables expire_evolves by fastforce
  qed
qed

section \<open>Properties\<close>

lemma Create_ok_step:
  "ops_ok d \<Longrightarrow> ops_ok (snd (CreateTargetedNodeOperation e i ty ml tg rb now d))"
  "ops_step d (snd (CreateTargetedNodeOperation e i ty ml tg rb now d))"
  using Create_cases [of e i ty ml tg rb now d "fst (CreateTargetedNodeOperation e i ty ml tg rb now d)"
      "snd (CreateTargetedNodeOperation e i ty ml tg rb now d)"]
  by (auto intro: ops_step_same dest: insert_ok insert_step)

lemma Retry_ok_step:
  "ops_ok d \<Longrightarrow> ops_ok (snd (RetryNodeOperation e i oid rb now d))"
  "ops_step d (snd (RetryNodeOperation e i oid rb now d))"
  using Retry_cases [of e i oid rb now d "fst (RetryNodeOperation e i oid rb now d)"
      "snd (RetryNodeOperation e i oid rb now d)"]
  by (auto intro: ops_step_same dest: insert_ok insert_step)

lemma ListPending_step:
  "list_all2 op_evolve (db_operations d) (db_operations (snd (ListPendingNodeOperations identity after now limit d)))"
  using ListPending_cases [of identity after now limit d "fst (ListPendingNodeOperations identity after now limit d)"
      "snd (ListPendingNodeOperations identity after now limit d)"]
    evolve_trans [OF expire_evolves mark_running_fold_evolves]
  by (auto simp: list.rel_refl op_evolve_refl)

text \<open>C16: The operation queue is bounded and consistent: no call lets a node have more than 20 queued or
  running operations, ids and per-node sequence numbers stay unique, and only the five
  statuses occur, whichever calls run and whether they succeed or fail.\<close>

theorem operation_queue_invariant:
  assumes "ops_ok d" and "alerts_ok d" and "unique_by n_id (db_nodes d)"
  shows "ops_ok (snd (CreateTargetedNodeOperation e i ty ml tg rb now d)) \<and>
    ops_ok (snd (RetryNodeOperation e i oid rb now d)) \<and>
    ops_ok (snd (ListPendingNodeOperations identity after now limit d)) \<and>
    ops_ok (snd (RecordNodeOperationResult e identity oid result now d)) \<and>
    ops_ok (snd (ReconcileAlerts e now off stuck d))"
  by (intro conjI, rule Create_ok_step(1) [OF assms(1)], rule Retry_ok_step(1) [OF assms(1)],
      rule ops_ok_evolve [OF assms(1) ListPending_step],
      rule ops_ok_evolve [OF assms(1) RecordResult_step [OF prod.collapse [symmetric] assms(2,1)]],
      rule ops_ok_evolve [OF assms(1) Reconcile_step [OF assms(2,3)]])

definition sample_operation :: operation_row where
  "sample_operation = (new_operation_row ''o1'' ''n1'' 1 ''probe_core'' 0 '''' '''' 1 ''admin'' sample_now)
     \<lparr>op_status := ''running''\<rparr>"

definition sample_ops_db :: db where
  "sample_ops_db = sample_db\<lparr>db_operations := [sample_operation]\<rparr>"

lemma sample_ops_ok: "ops_ok sample_ops_db" "alerts_ok sample_ops_db" "unique_by n_id (db_nodes sample_ops_db)"
  by (simp_all add: ops_ok_def alerts_ok_def sample_ops_db_def sample_operation_def new_operation_row_def
      unique_by_def ValidOperationStatus_def sql_count_def MaxPendingNodeOperations_def sample_defs)

lemma operation_queue_invariant_witness:
  "ops_ok (snd (CreateTargetedNodeOperation sample_env ''n1'' ''ping'' 0 ''10.0.0.1'' ''admin'' sample_now sample_ops_db)) \<and>
   length (db_operations (snd (CreateTargetedNodeOperation sample_env ''n1'' ''ping'' 0 ''10.0.0.1'' ''admin'' sample_now
     sample_ops_db))) = 2"
proof
  show "ops_ok (snd (CreateTargetedNodeOperation sample_env ''n1'' ''ping'' 0 ''10.0.0.1'' ''admin'' sample_now sample_ops_db))"
    using operation_queue_invariant [OF sample_ops_ok] by blast
  show "length (db_operations (snd (CreateTargetedNodeOperation sample_env ''n1'' ''ping'' 0 ''10.0.0.1'' ''admin'' sample_now
     sample_ops_db))) = 2" by code_simp
qed

text \<open>C11: Operations move only along the allowed transitions (queued to running, a queued one may expire,
  queued or running to succeeded or failed; the final states are final): every call only lets
  existing operations evolve that way, keeping their identity and parameters, or appends one
  queued operation whose sequence number exceeds all earlier ones of its node.\<close>

theorem operation_transitions:
  assumes "ops_ok d" and "alerts_ok d" and "unique_by n_id (db_nodes d)"
  shows "ops_step d (snd (CreateTargetedNodeOperation e i ty ml tg rb now d)) \<and>
    ops_step d (snd (RetryNodeOperation e i oid rb now d)) \<and>
    list_all2 op_evolve (db_operations d) (db_operations (snd (ListPendingNodeOperations identity after now limit d))) \<and>
    list_all2 op_evolve (db_operations d) (db_operations (snd (RecordNodeOperationResult e identity oid result now d))) \<and>
    list_all2 op_evolve (db_operations d) (db_operations (snd (ReconcileAlerts e now off stuck d)))"
  by (intro conjI, rule Create_ok_step(2), rule Retry_ok_step(2), rule ListPending_step,
      rule RecordResult_step [OF prod.collapse [symmetric] assms(2,1)], rule Reconcile_step [OF assms(2,3)])

definition sample_result :: operation_result where
  "sample_result = \<lparr> or_sequence = 1, or_status = ''failed'', or_output = '''', or_error_code = ''probe_failed'',
     or_error_message = ''boom'', or_rolled_back = False, or_completed_at = zeroTime, or_backup = None \<rparr>"

lemma operation_transitions_witness:
  "list_all2 op_evolve (db_operations sample_ops_db)
     (db_operations (snd (RecordNodeOperationResult sample_env sample_identity ''o1'' sample_result sample_now sample_ops_db))) \<and>
   map op_status (db_operations (snd (RecordNodeOperationResult sample_env sample_identity ''o1'' sample_result sample_now sample_ops_db))) =
     [''failed'']"
proof
  show "list_all2 op_evolve (db_operations sample_ops_db)
     (db_operations (snd (RecordNodeOperationResult sample_env sample_identity ''o1'' sample_result sample_now sample_ops_db)))"
    using operation_transitions [OF sample_ops_ok] by blast
  show "map op_status (db_operations (snd (RecordNodeOperationResult sample_env sample_identity ''o1'' sample_result sample_now sample_ops_db))) =
     [''failed'']" by code_simp
qed

text \<open>C17: Reporting the result of an operation is idempotent: once a report was recorded, the same report
  (retried by an agent that missed the answer, at any later time) succeeds again and changes
  nothing.\<close>

theorem operation_result_idempotent:
  assumes "RecordNodeOperationResult e identity oid result now d = (Inr u, d')"
    and "ops_ok d" and "alerts_ok d"
  shows "RecordNodeOperationResult e identity oid result later d' = (Inr (), d')"
proof (cases "d' = d \<and> (\<exists>x. sql_first (\<lambda>x. op_id x = oid \<and> op_node_id x = ai_node_id identity) (db_operations d) = Some x \<and>
      same_result x result)")
  case True
  have st: "op_status x = ''succeeded'' \<or> op_status x = ''failed''"
    if "sql_first (\<lambda>x. op_id x = oid \<and> op_node_id x = ai_node_id identity) (db_operations d) = Some x" "same_result x result" for x
    using assms(1) that by (auto simp: RecordNodeOperationResult_def transact_commit same_result_def
        split: option.splits if_splits)
  from True assms(1) show ?thesis
    by (auto simp: RecordNodeOperationResult_def transact_commit split: option.splits if_splits dest: st)
next
  case False
  with RecordResult_cases [OF assms(1,3)] obtain x n c d2 bs k where
    x: "sql_first (\<lambda>x. op_id x = oid \<and> op_node_id x = ai_node_id identity) (db_operations d) = Some x"
    and n: "find_active_node (ai_node_id identity) d = Some n" "installation_of n = ai_installation_id identity"
    and s: "op_sequence x = or_sequence result" "or_status result = ''succeeded'' \<or> or_status result = ''failed''"
    and d2: "d2 = d\<lparr>db_operations := sql_update (\<lambda>y. op_id y = oid) (result_row result c (unixMilli now)) (db_operations d),
          db_backups := bs, db_next_id := k\<rparr>" and a: "alerts_only d2 d'"
    by blast
  let ?x = "result_row result c (unixMilli now) x"
  have ops: "db_operations d' = sql_update (\<lambda>y. op_id y = oid) (result_row result c (unixMilli now)) (db_operations d)"
    and nodes: "db_nodes d' = db_nodes d" using alerts_only_tables [OF a] by (simp_all add: d2)
  have "sql_first (\<lambda>x. op_id x = oid \<and> op_node_id x = i) (sql_update (\<lambda>y. op_id y = oid) (result_row result c t) xs) =
      map_option (result_row result c t) (sql_first (\<lambda>x. op_id x = oid \<and> op_node_id x = i) xs)" for xs i t
    by (induction xs) (auto simp: result_row_def)
  then have x': "sql_first (\<lambda>x. op_id x = oid \<and> op_node_id x = ai_node_id identity) (db_operations d') = Some ?x"
    using x by (simp add: ops)
  have n': "find_active_node (ai_node_id identity) d' = Some n" using n by (simp add: find_active_node_def nodes)
  have "op_sequence ?x = or_sequence result" "op_status ?x = or_status result" "same_result ?x result"
    using s by (simp_all add: result_row_def same_result_def)
  with x' n' n(2) s(2) show ?thesis by (auto simp: RecordNodeOperationResult_def transact_def)
qed

lemma operation_result_idempotent_witness:
  "RecordNodeOperationResult sample_env sample_identity ''o1'' sample_result (sample_now + 7)
     (snd (RecordNodeOperationResult sample_env sample_identity ''o1'' sample_result sample_now sample_ops_db)) =
   (Inr (), snd (RecordNodeOperationResult sample_env sample_identity ''o1'' sample_result sample_now sample_ops_db))"
proof (rule operation_result_idempotent [OF _ sample_ops_ok(1,2)])
  have "fst (RecordNodeOperationResult sample_env sample_identity ''o1'' sample_result sample_now sample_ops_db) = Inr ()"
    by code_simp
  then show "RecordNodeOperationResult sample_env sample_identity ''o1'' sample_result sample_now sample_ops_db =
    (Inr (), snd (RecordNodeOperationResult sample_env sample_identity ''o1'' sample_result sample_now sample_ops_db))"
    by (simp add: prod_eq_iff)
qed

text \<open>C22: What the agent fetches: at most 20 operations, in increasing order of sequence, all after the
  agent's cursor and none expired while queued; each of them is marked running in the same
  transaction.\<close>

theorem fetched_operations:
  assumes "ListPendingNodeOperations identity after now limit d = (Inr ops, d')" and "ops_ok d"
  shows "length ops \<le> 20 \<and> sorted (map op_sequence ops) \<and>
    (\<forall>x\<in>set ops. after < op_sequence x \<and> op_node_id x = ai_node_id identity \<and>
       (op_status x = ''running'' \<or> op_status x = ''queued'' \<and> unixMilli now < op_expires_at x)) \<and>
    (\<forall>x\<in>set ops. \<exists>y\<in>set (db_operations d'). op_id y = op_id x \<and> op_status y = ''running'')"
proof -
  let ?d1 = "expire_queued (\<lambda>x. op_node_id x = ai_node_id identity \<and> op_sequence x > after) now d"
  let ?del = "filter (deliverable (ai_node_id identity) after now) (db_operations ?d1)"
  from assms(1) have ops: "ops = take (nat (list_limit limit 20 20)) (sort_key op_sequence ?del)"
    and d': "d' = fold (mark_running now) (map op_id ops) ?d1"
    by (auto simp: ListPendingNodeOperations_def transact_commit Let_def split: option.splits if_splits)
  have len: "length ops \<le> 20" by (auto simp: ops list_limit_def)
  have srt: "sorted (map op_sequence ops)" by (simp add: ops take_map [symmetric] sorted_wrt_take)
  have sub: "x \<in> set (db_operations ?d1) \<and> deliverable (ai_node_id identity) after now x" if "x \<in> set ops" for x
    using that set_take_subset [of "nat (list_limit limit 20 20)" "sort_key op_sequence ?del"] by (auto simp: ops)
  have marked: "\<exists>y\<in>set (db_operations (fold (mark_running now) is d1)). op_id y = op_id x \<and> op_status y = ''running''"
    if "x \<in> set (db_operations d1)" "op_status x = ''running'' \<or> op_id x \<in> set is \<and> op_status x = ''queued''" for "is" d1 x
    using that
  proof (induction "is" arbitrary: d1 x)
    case Nil
    then show ?case by auto
  next
    case (Cons i "is")
    let ?y = "if op_id x = i \<and> (op_status x = ''queued'' \<or> op_status x = ''running'') then running_row (unixMilli now) x else x"
    have y: "?y \<in> set (db_operations (mark_running now i d1))"
      using Cons.prems(1) by (auto simp: mark_running_def set_sql_update)
    have "op_status ?y = ''running'' \<or> op_id ?y \<in> set is \<and> op_status ?y = ''queued''" "op_id ?y = op_id x"
      using Cons.prems(2) by (auto simp: running_row_def)
    with Cons.IH [OF y] show ?case by simp
  qed
  show ?thesis
    using len srt sub marked by (fastforce simp: deliverable_def d')
qed

lemma fetched_operations_witness:
  "\<exists>y\<in>set (db_operations (snd (ListPendingNodeOperations sample_identity 0 sample_now 5 sample_ops_db))).
     op_id y = ''o1'' \<and> op_status y = ''running''"
proof -
  have "fst (ListPendingNodeOperations sample_identity 0 sample_now 5 sample_ops_db) = Inr [sample_operation]"
    by code_simp
  then have "ListPendingNodeOperations sample_identity 0 sample_now 5 sample_ops_db =
      (Inr [sample_operation], snd (ListPendingNodeOperations sample_identity 0 sample_now 5 sample_ops_db))"
    by (simp add: prod_eq_iff)
  from fetched_operations [OF this sample_ops_ok(1)] show ?thesis
    by (simp add: sample_operation_def new_operation_row_def)
qed


definition sample_backup :: backup_result where
  "sample_backup = \<lparr> br_local_path = ''/var/lib/hyfleet-backups/a.json'', br_sha256 = replicate 64 (CHR ''a''),
     br_size_bytes = 12 \<rparr>"


end
