(* ===== verification/Users.thy ===== *)
theory Users
  imports Traffic Secrets
begin

text \<open>
  Users, their assignments to nodes and their credentials (internal/store/user.go).  A
  credential is created staged, its secret encrypted under the master key; assigning,
  updating, rotating, unassigning and archiving bump the desired state of the nodes they
  touch and kick where access ends.  The theory shows that these operations keep the
  traffic ledger and the version invariant, what each of them changes, and that a stored
  secret can be revealed again.
\<close>

section \<open>Data\<close>

definition credentialKeyVersion :: int where "credentialKeyVersion = 1"

record user_assignment =
  ua_id :: string
  ua_user_id :: string
  ua_node_id :: string
  ua_node_name :: string
  ua_node_adapter :: string
  ua_enabled :: bool
  ua_traffic_limit :: int
  ua_upload :: int
  ua_download :: int
  ua_used :: int
  ua_quota_state :: string
  ua_last_traffic_at :: "gotime option"
  ua_online_connections :: int
  ua_online_sampled_at :: "gotime option"
  ua_kick_generation :: int
  ua_desired_credential_id :: string
  ua_applied_credential_id :: string
  ua_credential_fingerprint :: string
  ua_credential_protocol :: string
  ua_management_mode :: string
  ua_remote_client_id :: int
  ua_subscription_eligible :: bool
  ua_subscription_reason :: string
  ua_desired_version :: int
  ua_applied_version :: int
  ua_state :: string
  ua_last_error_code :: string
  ua_last_error_message :: string
  ua_last_attempt_at :: "gotime option"
  ua_applied_at :: "gotime option"
  ua_created_at :: gotime
  ua_updated_at :: gotime

record user =
  us_id :: string
  us_username :: string
  us_display_name :: string
  us_notes :: string
  us_enabled :: bool
  us_expires_at :: "gotime option"
  us_traffic_limit :: int
  us_upload :: int
  us_download :: int
  us_used :: int
  us_quota_state :: string
  us_last_traffic_at :: "gotime option"
  us_expiry_enforced_at :: "gotime option"
  us_assignments :: "user_assignment list"
  us_created_at :: gotime
  us_updated_at :: gotime

record new_user =
  nw_id :: string
  nw_username :: string
  nw_display_name :: string
  nw_notes :: string
  nw_enabled :: bool
  nw_expires_at :: "gotime option"
  nw_traffic_limit :: int
  nw_node_ids :: "string list"
  nw_now :: gotime

record update_user =
  up_username :: string
  up_display_name :: string
  up_notes :: string
  up_enabled :: bool
  up_expires_at :: "gotime option"
  up_traffic_limit :: int
  up_now :: gotime

record assignment_update =
  au_enabled :: bool
  au_traffic_limit :: int
  au_now :: gotime

record created_credential =
  cc_assignment :: user_assignment
  cc_secret :: string

text \<open>The zero value of \<open>UserAssignment\<close>.\<close>

definition no_assignment :: user_assignment where
  "no_assignment = \<lparr> ua_id = '''', ua_user_id = '''', ua_node_id = '''', ua_node_name = '''',
     ua_node_adapter = '''', ua_enabled = False, ua_traffic_limit = 0, ua_upload = 0, ua_download = 0,
     ua_used = 0, ua_quota_state = '''', ua_last_traffic_at = None, ua_online_connections = 0,
     ua_online_sampled_at = None, ua_kick_generation = 0, ua_desired_credential_id = '''',
     ua_applied_credential_id = '''', ua_credential_fingerprint = '''', ua_credential_protocol = '''',
     ua_management_mode = '''', ua_remote_client_id = 0, ua_subscription_eligible = False,
     ua_subscription_reason = '''', ua_desired_version = 0, ua_applied_version = 0, ua_state = '''',
     ua_last_error_code = '''', ua_last_error_message = '''', ua_last_attempt_at = None,
     ua_applied_at = None, ua_created_at = zeroTime, ua_updated_at = zeroTime \<rparr>"

definition nullableUnixMilli :: "gotime option \<Rightarrow> int option" where
  "nullableUnixMilli value = map_option unixMilli value"

section \<open>Reading\<close>

definition scanUser :: "user_row \<Rightarrow> user" where
  "scanUser u = \<lparr> us_id = u_id u, us_username = u_username u, us_display_name = u_display_name u,
     us_notes = u_notes u, us_enabled = u_enabled u, us_expires_at = map_option unixTime (u_expires_at u),
     us_traffic_limit = u_traffic_limit u, us_upload = u_upload u, us_download = u_download u,
     us_used = u_used u, us_quota_state = u_quota_state u,
     us_last_traffic_at = map_option unixTime (u_last_traffic_at u),
     us_expiry_enforced_at = map_option unixTime (u_expiry_enforced_at u), us_assignments = [],
     us_created_at = unixTime (u_created_at u), us_updated_at = unixTime (u_updated_at u) \<rparr>"

definition subscriptionEligibilityReason ::
  "user_assignment \<Rightarrow> bool \<Rightarrow> bool \<Rightarrow> bool \<Rightarrow> int \<Rightarrow> string \<Rightarrow> string \<Rightarrow> string \<Rightarrow> string \<Rightarrow> string" where
  "subscriptionEligibilityReason asg nodeEnabled realityReady coreRunning nodeAppliedVersion
     nodeStatus publicHost appliedCredentialState adapterStatus =
     (let reality = (ua_node_adapter asg = AdapterSingBoxVLESSReality) in
      if ua_management_mode asg \<noteq> ''managed'' then ''read_only_requires_adoption''
      else if \<not> supportsManagedUsers (ua_node_adapter asg) then ''adapter_not_supported''
      else if \<not> nodeEnabled then ''node_disabled''
      else if reality \<and> adapterStatus \<noteq> ''compatible'' then ''adapter_not_compatible''
      else if nodeStatus = ''pending'' \<or> nodeStatus = ''degraded'' \<or> nodeStatus = ''disabled''
      then ''node_not_ready''
      else if publicHost = '''' then ''endpoint_missing''
      else if reality \<and> \<not> coreRunning then ''core_not_running''
      else if reality \<and> (ua_credential_protocol asg \<noteq> CredentialProtocolVLESS \<or>
                ua_applied_credential_id asg = '''' \<or>
                ua_applied_credential_id asg \<noteq> ua_desired_credential_id asg \<or>
                ua_applied_version asg \<noteq> nodeAppliedVersion) then ''applied_state_mismatch''
      else if reality \<and> \<not> realityReady then ''reality_material_missing''
      else if \<not> ua_enabled asg then ''assignment_disabled''
      else if ua_quota_state asg = ''limited'' then ''assignment_quota_limited''
      else if ua_state asg \<noteq> ''applied'' \<or> ua_applied_version asg < ua_desired_version asg
      then ''assignment_not_applied''
      else if ua_applied_credential_id asg = '''' \<or> appliedCredentialState \<noteq> ''applied''
      then ''credential_not_applied''
      else '''')"

definition coalesce :: "'a \<Rightarrow> 'a option \<Rightarrow> 'a" where
  "coalesce z x = (case x of None \<Rightarrow> z | Some v \<Rightarrow> v)"

text \<open>The columns both assignment queries select, decoded.\<close>

definition scan_assignment :: "db \<Rightarrow> assignment_row \<Rightarrow> node_row \<Rightarrow> credential_row \<Rightarrow> user_assignment" where
  "scan_assignment d a n c =
     (let o1 = sql_first (\<lambda>o1. okey o1 = akey a) (db_online_users d);
          k = sql_first (\<lambda>k. kkey k = akey a) (db_kicks d)
      in \<lparr> ua_id = a_id a, ua_user_id = a_user_id a, ua_node_id = a_node_id a, ua_node_name = n_name n,
        ua_node_adapter = n_adapter_type n, ua_enabled = a_enabled a, ua_traffic_limit = a_traffic_limit a,
        ua_upload = a_upload a, ua_download = a_download a, ua_used = a_used a,
        ua_quota_state = a_quota_state a, ua_last_traffic_at = map_option unixTime (a_last_traffic_at a),
        ua_online_connections = coalesce 0 (map_option o_connections o1),
        ua_online_sampled_at = map_option (\<lambda>r. unixTime (o_sampled_at r)) o1,
        ua_kick_generation = coalesce 0 (map_option k_generation k),
        ua_desired_credential_id = a_desired_credential_id a,
        ua_applied_credential_id = coalesce '''' (a_applied_credential_id a),
        ua_credential_fingerprint = c_fingerprint c, ua_credential_protocol = c_protocol c,
        ua_management_mode = a_management_mode a,
        ua_remote_client_id = coalesce 0 (a_remote_client_id a),
        ua_subscription_eligible = False, ua_subscription_reason = '''',
        ua_desired_version = a_desired_version a, ua_applied_version = a_applied_version a,
        ua_state = a_state a, ua_last_error_code = a_last_error_code a,
        ua_last_error_message = a_last_error_message a,
        ua_last_attempt_at = map_option unixTime (a_last_attempt_at a),
        ua_applied_at = map_option unixTime (a_applied_at a),
        ua_created_at = unixTime (a_created_at a), ua_updated_at = unixTime (a_updated_at a) \<rparr>)"

definition reality_ready :: "assignment_row \<Rightarrow> node_row \<Rightarrow> db \<Rightarrow> bool" where
  "reality_ready a n d \<longleftrightarrow> n_adapter_type n \<noteq> AdapterSingBoxVLESSReality \<or>
     (case find_reality (a_node_id a) d of None \<Rightarrow> False
      | Some r \<Rightarrow> r_public_key r \<noteq> '''' \<and> r_short_id r \<noteq> '''' \<and>
          r_applied_key_generation r = r_desired_key_generation r \<and>
          r_material_applied_version r = a_applied_version a)"

definition list_assignment :: "db \<Rightarrow> assignment_row \<Rightarrow> node_row \<Rightarrow> credential_row \<Rightarrow> user_assignment" where
  "list_assignment d a n c =
     (let asg = scan_assignment d a n c;
          appliedState = coalesce '''' (case a_applied_credential_id a of None \<Rightarrow> None
            | Some i \<Rightarrow> map_option c_state (find_credential i d));
          reason = subscriptionEligibilityReason asg (n_enabled n) (reality_ready a n d)
            (na_core_running (n_agent n)) (n_applied_version n) (n_status n) (n_public_host n)
            appliedState (na_adapter_status (n_agent n))
      in asg\<lparr>ua_subscription_reason := reason, ua_subscription_eligible := (reason = '''')\<rparr>)"

definition assignment_join :: "(assignment_row \<Rightarrow> bool) \<Rightarrow> db \<Rightarrow> (assignment_row \<times> node_row \<times> credential_row) list" where
  "assignment_join p d = concat (map (\<lambda>a.
     case (find_node (a_node_id a) d, find_credential (a_desired_credential_id a) d) of
       (Some n, Some c) \<Rightarrow> [(a, n, c)] | _ \<Rightarrow> []) (filter p (db_assignments d)))"

definition listAssignmentsForUsers :: "string list \<Rightarrow> db \<Rightarrow> user_assignment list" where
  "listAssignmentsForUsers userIDs d =
     map (\<lambda>(a, n, c). list_assignment d a n c)
       (sort_key (\<lambda>(a, n, c). nocase (n_name n))
          (assignment_join (\<lambda>a. userIDs = [] \<or> a_user_id a \<in> set userIDs) d))"

definition listAssignments :: "string \<Rightarrow> db \<Rightarrow> user_assignment list" where
  "listAssignments userID d =
     (if userID = '''' then listAssignmentsForUsers [] d else listAssignmentsForUsers [userID] d)"

definition attach_assignments :: "db \<Rightarrow> user list \<Rightarrow> user list" where
  "attach_assignments d users =
     (let assignments = listAssignmentsForUsers (map us_id users) d in
      map (\<lambda>u. u\<lparr>us_assignments := us_assignments u @ filter (\<lambda>a. ua_user_id a = us_id u) assignments\<rparr>) users)"

definition ListUsers :: "db \<Rightarrow> user list" where
  "ListUsers d = attach_assignments d (map scanUser
     (sort_key (\<lambda>u. nocase (u_username u)) (filter (\<lambda>u. u_archived_at u = None) (db_users d))))"

definition GetUser :: "string \<Rightarrow> db \<Rightarrow> store_error + user" where
  "GetUser i d = (case find_active_user i d of
     None \<Rightarrow> Inl ErrNotFound
   | Some u \<Rightarrow> Inr ((scanUser u)\<lparr>us_assignments := listAssignments i d\<rparr>))"

text \<open>\<open>strings.ReplaceAll\<close> of a single character.\<close>

definition ReplaceAll :: "char \<Rightarrow> string \<Rightarrow> string \<Rightarrow> string" where
  "ReplaceAll c new s = concat (map (\<lambda>x. if x = c then new else [x]) s)"

definition escapeLike :: "string \<Rightarrow> string" where
  "escapeLike value = ReplaceAll (CHR ''_'') [CHR 0x5C, CHR ''_'']
     (ReplaceAll (CHR ''%'') [CHR 0x5C, CHR ''%'']
       (ReplaceAll (CHR 0x5C) [CHR 0x5C, CHR 0x5C] value))"

text \<open>SQLite's \<open>LIKE \<dots> ESCAPE '\'\<close>: pattern, then text.\<close>

declare conj_cong [fundef_cong]

function sql_like :: "string \<Rightarrow> string \<Rightarrow> bool" where
  "sql_like [] t = (t = [])"
| "sql_like (p # ps) t =
     (if p = CHR ''%'' then sql_like ps t \<or> (t \<noteq> [] \<and> sql_like (p # ps) (tl t))
      else if p = CHR ''_'' then t \<noteq> [] \<and> sql_like ps (tl t)
      else if p = CHR 0x5C then ps \<noteq> [] \<and> t \<noteq> [] \<and> nocase [hd t] = nocase [hd ps] \<and> sql_like (tl ps) (tl t)
      else t \<noteq> [] \<and> nocase [hd t] = nocase [p] \<and> sql_like ps (tl t))"
  by pat_completeness auto
termination by (relation "measure (\<lambda>(p, t). length p + length t)") (auto simp: neq_Nil_conv)

declare sql_like.simps(2) [simp del]

definition ListUsersPage :: "string \<Rightarrow> int \<Rightarrow> int \<Rightarrow> db \<Rightarrow> user list \<times> int" where
  "ListUsersPage search limit offset d =
     (let limit = (if limit < 1 \<or> limit > 500 then 100 else limit);
          offset = (if offset < 0 then 0 else offset);
          search = TrimSpace search;
          pattern = ''%'' @ escapeLike search @ ''%'';
          rows = filter (\<lambda>u. u_archived_at u = None \<and>
                   (search \<noteq> '''' \<longrightarrow> sql_like pattern (u_username u) \<or> sql_like pattern (u_display_name u) \<or>
                      sql_like pattern (u_notes u))) (db_users d);
          total = int (length rows);
          users = map scanUser (take (nat limit) (drop (nat offset) (sort_key (\<lambda>u. nocase (u_username u)) rows)))
      in if users = [] then (users, total) else (attach_assignments d users, total))"

section \<open>Credentials\<close>

definition insert_credential :: "credential_row \<Rightarrow> db \<Rightarrow> store_error + db" where
  "insert_credential c d =
     (if find_user (c_user_id c) d = None \<or> find_node (c_node_id c) d = None \<or> length (c_verifier c) \<noteq> 32
      then Inl (ErrOther ''insert user credential'')
      else case sql_insert c_id c (db_credentials d) of
             None \<Rightarrow> Inl (ErrOther ''insert user credential'')
           | Some t \<Rightarrow> Inr (d\<lparr>db_credentials := t\<rparr>))"

definition new_secret :: "env \<Rightarrow> string \<Rightarrow> db \<Rightarrow> store_error + string \<times> db" where
  "new_secret e credentialProtocol d =
     (if credentialProtocol = CredentialProtocolHY2 then Inr (RandomToken e 32 d)
      else if credentialProtocol = CredentialProtocolVLESS
      then Inr (env_uuid e (db_next_id d), d\<lparr>db_next_id := Suc (db_next_id d)\<rparr>)
      else Inl ErrUnsupported)"

definition new_credential_row ::
  "string \<Rightarrow> string \<Rightarrow> string \<Rightarrow> string \<Rightarrow> string \<Rightarrow> string \<Rightarrow> string \<Rightarrow> gotime \<Rightarrow> credential_row" where
  "new_credential_row credentialID userID nodeID credentialProtocol ciphertext verifier fingerprint now =
     \<lparr> c_id = credentialID, c_user_id = userID, c_node_id = nodeID, c_protocol = credentialProtocol,
       c_ciphertext = ciphertext, c_verifier = verifier, c_fingerprint = fingerprint,
       c_key_version = credentialKeyVersion, c_state = ''staged'', c_created_at = unixMilli now,
       c_applied_at = None, c_retired_at = None, c_revoked_at = None \<rparr>"

definition createUserCredentialTx ::
  "env \<Rightarrow> string \<Rightarrow> string \<Rightarrow> string \<Rightarrow> gotime \<Rightarrow> string \<Rightarrow> db \<Rightarrow> store_error + (string \<times> string \<times> string) \<times> db" where
  "createUserCredentialTx e userID nodeID credentialProtocol now masterKey d =
     rbind (new_secret e credentialProtocol d) (\<lambda>(secret, d1).
     let verifier = env_sha256 e secret; (credentialID, d2) = NewID e d1 in
     rbind (Seal e masterKey secret (credentialAAD credentialID userID nodeID credentialProtocol
              credentialKeyVersion) d2) (\<lambda>(ciphertext, d3).
     let fingerprint = ''fp_'' @ b64_encode (take 6 verifier) in
     rbind (insert_credential (new_credential_row credentialID userID nodeID credentialProtocol ciphertext
              verifier fingerprint now) d3) (\<lambda>d4.
     Inr ((credentialID, secret, fingerprint), d4))))"

section \<open>Assigning\<close>

definition insert_assignment :: "assignment_row \<Rightarrow> db \<Rightarrow> store_error + db" where
  "insert_assignment a d =
     (if sql_exists (\<lambda>x. a_id x = a_id a \<or> akey x = akey a \<or>
           (a_remote_client_id a \<noteq> None \<and> a_node_id x = a_node_id a \<and>
            a_remote_client_id x = a_remote_client_id a)) (db_assignments d) \<or>
         a_traffic_limit a < 0 \<or> (case a_remote_client_id a of None \<Rightarrow> False | Some r \<Rightarrow> r \<le> 0)
      then Inl ErrConflict
      else Inr (d\<lparr>db_assignments := db_assignments d @ [a]\<rparr>))"

definition assignment_guard :: "node_row \<Rightarrow> string \<Rightarrow> int \<Rightarrow> store_error + string" where
  "assignment_guard n managementMode remoteClientID =
     (let adapter = n_adapter_type n in
      if \<not> supportsManagedUsers adapter then Inl ErrUnsupported
      else if managementMode \<noteq> ''managed'' \<and> managementMode \<noteq> ''read_only'' then Inl ErrUnsupported
      else if adapter = ''native_hysteria2'' \<and> (managementMode \<noteq> ''managed'' \<or> remoteClientID \<noteq> 0)
      then Inl ErrUnsupported
      else if adapter = AdapterSingBoxVLESSReality \<and> (managementMode \<noteq> ''managed'' \<or> remoteClientID \<noteq> 0)
      then Inl ErrUnsupported
      else if adapter = ''s_ui'' \<and> managementMode = ''managed'' \<and> remoteClientID = 0 \<and> n_sui_targets n = []
      then Inl ErrConflict
      else credentialProtocolForAdapter adapter)"

definition new_assignment_row ::
  "string \<Rightarrow> string \<Rightarrow> string \<Rightarrow> string \<Rightarrow> string \<Rightarrow> int \<Rightarrow> int \<Rightarrow> int \<times> int \<times> int \<Rightarrow> gotime \<Rightarrow> assignment_row" where
  "new_assignment_row assignmentID nodeID userID credentialID mode remote limit = (\<lambda>(up, down, used) now.
     \<lparr> a_id = assignmentID, a_node_id = nodeID, a_user_id = userID, a_desired_credential_id = credentialID,
       a_applied_credential_id = None, a_enabled = True, a_desired_version = 0, a_applied_version = 0,
       a_state = ''pending'', a_management_mode = mode,
       a_remote_client_id = (if remote = 0 then None else Some remote),
       a_traffic_limit = limit, a_upload = up, a_download = down, a_used = used,
       a_quota_state = quotaState limit used, a_last_traffic_at = None, a_last_error_code = '''',
       a_last_error_message = '''', a_last_attempt_at = None, a_applied_at = None,
       a_created_at = unixMilli now, a_updated_at = unixMilli now \<rparr>)"

definition assignUserTxWithMode ::
  "env \<Rightarrow> string \<Rightarrow> string \<Rightarrow> int \<Rightarrow> string \<Rightarrow> int \<Rightarrow> gotime \<Rightarrow> string \<Rightarrow> db \<Rightarrow>
     store_error + created_credential \<times> db" where
  "assignUserTxWithMode e userID nodeID trafficLimitBytes managementMode remoteClientID now masterKey d =
     (case find_active_node nodeID d of
        None \<Rightarrow> Inl ErrNotFound
      | Some n \<Rightarrow>
     rbind (assignment_guard n managementMode remoteClientID) (\<lambda>credentialProtocol.
     rbind (createUserCredentialTx e userID nodeID credentialProtocol now masterKey d)
       (\<lambda>((credentialID, secret, fingerprint), d1).
     let (assignmentID, d2) = NewID e d1;
         (priorUpload, priorDownload) = total_of (nodeID, userID) d2 in
     case checkedAdd priorUpload priorDownload of
        None \<Rightarrow> Inl (ErrOther ''prior assignment traffic exceeds integer range'')
      | Some priorUsed \<Rightarrow>
     rbind (insert_assignment (new_assignment_row assignmentID nodeID userID credentialID managementMode
              remoteClientID trafficLimitBytes (priorUpload, priorDownload, priorUsed) now) d2) (\<lambda>d3.
     rbind (bumpNodeSnapshot e nodeID now d3) (\<lambda>(version, d4).
     Inr (\<lparr> cc_assignment = no_assignment\<lparr>ua_id := assignmentID, ua_user_id := userID, ua_node_id := nodeID,
              ua_node_name := n_name n, ua_node_adapter := n_adapter_type n, ua_enabled := True,
              ua_traffic_limit := trafficLimitBytes, ua_upload := priorUpload, ua_download := priorDownload,
              ua_used := priorUsed, ua_quota_state := quotaState trafficLimitBytes priorUsed,
              ua_desired_credential_id := credentialID, ua_credential_fingerprint := fingerprint,
              ua_desired_version := version, ua_state := ''pending'',
              ua_credential_protocol := credentialProtocol, ua_management_mode := managementMode,
              ua_remote_client_id := remoteClientID, ua_created_at := now, ua_updated_at := now\<rparr>,
            cc_secret = secret \<rparr>,
          markAssignmentPending userID nodeID version now d4))))))"

definition assignUserTx ::
  "env \<Rightarrow> string \<Rightarrow> string \<Rightarrow> int \<Rightarrow> gotime \<Rightarrow> string \<Rightarrow> db \<Rightarrow> store_error + created_credential \<times> db" where
  "assignUserTx e userID nodeID trafficLimitBytes now masterKey d =
     assignUserTxWithMode e userID nodeID trafficLimitBytes ''managed'' 0 now masterKey d"

text \<open>An operation that commits and then answers with the user read back.\<close>

definition then_get_user ::
  "string \<Rightarrow> (store_error + 'a) \<times> db \<Rightarrow> (store_error + user \<times> 'a) \<times> db" where
  "then_get_user userID = (\<lambda>(r, d). (rbind r (\<lambda>x. rbind (GetUser userID d) (\<lambda>u. Inr (u, x))), d))"

definition insert_user :: "user_row \<Rightarrow> db \<Rightarrow> store_error + db" where
  "insert_user u d =
     (if u_traffic_limit u < 0 \<or>
         sql_exists (\<lambda>x. u_id x = u_id u \<or> (u_archived_at x = None \<and> nocase (u_username x) = nocase (u_username u)))
           (db_users d)
      then Inl ErrConflict
      else Inr (d\<lparr>db_users := db_users d @ [u]\<rparr>))"

definition new_user_row :: "new_user \<Rightarrow> user_row" where
  "new_user_row input = \<lparr> u_id = nw_id input, u_username = nw_username input,
     u_display_name = nw_display_name input, u_notes = nw_notes input, u_enabled = nw_enabled input,
     u_expires_at = nullableUnixMilli (nw_expires_at input), u_traffic_limit = nw_traffic_limit input,
     u_upload = 0, u_download = 0, u_used = 0, u_quota_state = quotaState (nw_traffic_limit input) 0,
     u_last_traffic_at = None,
     u_expiry_enforced_at = expiryEnforcedValue (nw_expires_at input) (nw_now input),
     u_created_at = unixMilli (nw_now input), u_updated_at = unixMilli (nw_now input),
     u_archived_at = None \<rparr>"

definition create_step ::
  "env \<Rightarrow> string \<Rightarrow> gotime \<Rightarrow> string \<Rightarrow> string \<Rightarrow> created_credential list \<times> db \<Rightarrow>
     store_error + created_credential list \<times> db" where
  "create_step e userID now masterKey nodeID = (\<lambda>(credentials, d).
     rbind (assignUserTx e userID nodeID 0 now masterKey d) (\<lambda>(created, d1). Inr (credentials @ [created], d1)))"

definition CreateUser ::
  "env \<Rightarrow> new_user \<Rightarrow> string \<Rightarrow> db \<Rightarrow> (store_error + user \<times> created_credential list) \<times> db" where
  "CreateUser e input masterKey d = then_get_user (nw_id input) (transact (\<lambda>d.
     rbind (insert_user (new_user_row input) d) (\<lambda>d1.
     rfold (create_step e (nw_id input) (nw_now input) masterKey) (nw_node_ids input) ([], d1))) d)"

definition AssignUser ::
  "env \<Rightarrow> string \<Rightarrow> string \<Rightarrow> int \<Rightarrow> gotime \<Rightarrow> string \<Rightarrow> db \<Rightarrow> (store_error + user \<times> created_credential) \<times> db" where
  "AssignUser e userID nodeID trafficLimitBytes now masterKey d = then_get_user userID (transact (\<lambda>d.
     if find_active_user userID d = None then Inl ErrNotFound
     else assignUserTx e userID nodeID trafficLimitBytes now masterKey d) d)"

section \<open>Updating\<close>

definition update_user_row :: "update_user \<Rightarrow> int \<Rightarrow> int option \<Rightarrow> user_row \<Rightarrow> user_row" where
  "update_user_row input trafficUsed expiryValue u = u\<lparr>u_username := up_username input,
     u_display_name := up_display_name input, u_notes := up_notes input, u_enabled := up_enabled input,
     u_expires_at := nullableUnixMilli (up_expires_at input), u_traffic_limit := up_traffic_limit input,
     u_quota_state := quotaState (up_traffic_limit input) trafficUsed,
     u_expiry_enforced_at := expiryValue, u_updated_at := unixMilli (up_now input)\<rparr>"

definition quota_limited :: "(string \<times> effective_quota) list \<Rightarrow> string \<Rightarrow> string \<Rightarrow> bool" where
  "quota_limited states nodeID userID =
     (case map_of states (quotaStateKey nodeID userID) of None \<Rightarrow> False | Some q \<Rightarrow> eq_limited q)"

definition update_step ::
  "string \<Rightarrow> (string \<Rightarrow> string) \<Rightarrow> gotime \<Rightarrow> string \<Rightarrow> changed_set \<times> db \<Rightarrow> store_error + changed_set \<times> db" where
  "update_step userID reason_of now nodeID = (\<lambda>(changed, d).
     rbind (if reason_of nodeID \<noteq> '''' then requestKickTx nodeID userID (reason_of nodeID) now d else Inr d)
       (\<lambda>d1. Inr (addChangedAssignment nodeID userID changed, d1)))"

definition updateUserTx :: "env \<Rightarrow> string \<Rightarrow> update_user \<Rightarrow> db \<Rightarrow> store_error + db" where
  "updateUserTx e i input d =
     (case find_active_user i d of
        None \<Rightarrow> Inl ErrNotFound
      | Some u \<Rightarrow>
     let now = up_now input;
         nodeIDs = assignmentNodeIDs i d;
         beforeQuota = effectiveQuotaStatesTx [i] d;
         expiryValue0 = expiryEnforcedValue (up_expires_at input) now;
         expiryValue = (if expiryValue0 \<noteq> None \<and> u_expiry_enforced_at u \<noteq> None
                        then u_expiry_enforced_at u else expiryValue0) in
     if up_traffic_limit input < 0 \<or>
        sql_exists (\<lambda>x. u_id x \<noteq> i \<and> u_archived_at x = None \<and>
          nocase (u_username x) = nocase (up_username input)) (db_users d)
     then Inl ErrConflict
     else
     let d1 = update_users (\<lambda>x. u_id x = i \<and> u_archived_at x = None)
                (update_user_row input (u_used u) expiryValue) d;
         afterQuota = effectiveQuotaStatesTx [i] d1;
         disableKick = (u_enabled u \<and> \<not> up_enabled input);
         expiredNow = (case up_expires_at input of None \<Rightarrow> False | Some x \<Rightarrow> \<not> now < x);
         expiryKick = (expiredNow \<and> u_expiry_enforced_at u = None);
         reason_of = (\<lambda>nodeID. if disableKick then ''user_disabled''
           else if expiryKick then ''expired''
           else if \<not> quota_limited beforeQuota nodeID i \<and> quota_limited afterQuota nodeID i
           then ''quota_limited'' else '''') in
     rbind (rfold (update_step i reason_of now) nodeIDs ([], d1)) (\<lambda>(changed, d2).
     bumpChangedAssignmentsTx e changed now d2))"

definition UpdateUser :: "env \<Rightarrow> string \<Rightarrow> update_user \<Rightarrow> db \<Rightarrow> (store_error + user \<times> unit) \<times> db" where
  "UpdateUser e i input d =
     then_get_user i (transact (\<lambda>d. rbind (updateUserTx e i input d) (\<lambda>d1. Inr ((), d1))) d)"

definition update_assignment_row :: "assignment_update \<Rightarrow> int \<Rightarrow> assignment_row \<Rightarrow> assignment_row" where
  "update_assignment_row input trafficUsed a = a\<lparr>a_enabled := au_enabled input,
     a_traffic_limit := au_traffic_limit input,
     a_quota_state := quotaState (au_traffic_limit input) trafficUsed,
     a_updated_at := unixMilli (au_now input)\<rparr>"

text \<open>The last steps of several operations: kick if there is a reason, bump, mark pending.\<close>

definition kick_if :: "string \<Rightarrow> string \<Rightarrow> string \<Rightarrow> gotime \<Rightarrow> db \<Rightarrow> store_error + db" where
  "kick_if nodeID userID reason now d =
     (if reason \<noteq> '''' then requestKickTx nodeID userID reason now d else Inr d)"

definition bump_pending :: "env \<Rightarrow> string \<Rightarrow> string \<Rightarrow> gotime \<Rightarrow> db \<Rightarrow> store_error + db" where
  "bump_pending e userID nodeID now d =
     rbind (bumpNodeSnapshot e nodeID now d) (\<lambda>(version, d1).
     Inr (markAssignmentPending userID nodeID version now d1))"

definition update_assignment_body ::
  "env \<Rightarrow> string \<Rightarrow> string \<Rightarrow> assignment_update \<Rightarrow> db \<Rightarrow> store_error + unit \<times> db" where
  "update_assignment_body e userID nodeID input d =
     (case (find_assignment nodeID userID d, find_active_node nodeID d) of
        (Some a, Some n) \<Rightarrow>
          if a_management_mode a = ''read_only'' then Inl ErrReadOnly
          else if au_traffic_limit input < 0 then Inl (ErrOther ''update assignment'')
          else
            let beforeQuota = effectiveQuotaStatesTx [userID] d;
                d1 = update_assignments (\<lambda>x. akey x = (nodeID, userID))
                       (update_assignment_row input (a_used a)) d;
                afterQuota = effectiveQuotaStatesTx [userID] d1;
                reason = (if a_enabled a \<and> \<not> au_enabled input then ''assignment_disabled''
                  else if \<not> quota_limited beforeQuota nodeID userID \<and> quota_limited afterQuota nodeID userID
                  then ''quota_limited'' else '''') in
            rbind (kick_if nodeID userID reason (au_now input) d1) (\<lambda>d2.
            rbind (bump_pending e userID nodeID (au_now input) d2) (\<lambda>d3. Inr ((), d3)))
      | _ \<Rightarrow> Inl ErrNotFound)"

definition UpdateAssignment ::
  "env \<Rightarrow> string \<Rightarrow> string \<Rightarrow> assignment_update \<Rightarrow> db \<Rightarrow> (store_error + user \<times> unit) \<times> db" where
  "UpdateAssignment e userID nodeID input d =
     then_get_user userID (transact (update_assignment_body e userID nodeID input) d)"

definition SetAssignmentEnabled ::
  "env \<Rightarrow> string \<Rightarrow> string \<Rightarrow> bool \<Rightarrow> gotime \<Rightarrow> db \<Rightarrow> (store_error + user \<times> unit) \<times> db" where
  "SetAssignmentEnabled e userID nodeID enabled now d =
     (case GetUser userID d of
        Inl err \<Rightarrow> (Inl err, d)
      | Inr u \<Rightarrow>
          (case List.find (\<lambda>a. ua_node_id a = nodeID) (us_assignments u) of
             None \<Rightarrow> (Inl ErrNotFound, d)
           | Some a \<Rightarrow> UpdateAssignment e userID nodeID
               \<lparr> au_enabled = enabled, au_traffic_limit = ua_traffic_limit a, au_now = now \<rparr> d))"

section \<open>Archiving and unassigning\<close>

definition revoke_row :: "gotime \<Rightarrow> credential_row \<Rightarrow> credential_row" where
  "revoke_row now c = c\<lparr>c_state := ''revoked'', c_revoked_at := Some (unixMilli now)\<rparr>"

definition archive_step :: "env \<Rightarrow> string \<Rightarrow> gotime \<Rightarrow> string \<Rightarrow> db \<Rightarrow> store_error + db" where
  "archive_step e userID now nodeID d =
     rbind (requestKickTx nodeID userID ''user_archived'' now d) (bump_pending e userID nodeID now)"

definition ArchiveUser :: "env \<Rightarrow> string \<Rightarrow> gotime \<Rightarrow> db \<Rightarrow> (store_error + unit) \<times> db" where
  "ArchiveUser e i now = transact (\<lambda>d.
     let nodeIDs = assignmentNodeIDs i d in
     if \<not> sql_exists (\<lambda>u. u_id u = i \<and> u_archived_at u = None) (db_users d) then Inl ErrNotFound
     else
       let d1 = update_users (\<lambda>u. u_id u = i \<and> u_archived_at u = None)
                  (\<lambda>u. u\<lparr>u_enabled := False, u_archived_at := Some (unixMilli now),
                         u_updated_at := unixMilli now\<rparr>) d;
           d2 = update_credentials (\<lambda>c. c_user_id c = i \<and> (c_state c = ''staged'' \<or> c_state c = ''applied''))
                  (revoke_row now) d1 in
       rbind (rfold (archive_step e i now) nodeIDs d2) (\<lambda>d3. Inr ((), d3)))"

definition UnassignUser :: "env \<Rightarrow> string \<Rightarrow> string \<Rightarrow> gotime \<Rightarrow> db \<Rightarrow> (store_error + unit) \<times> db" where
  "UnassignUser e userID nodeID now = transact (\<lambda>d.
     case find_assignment nodeID userID d of
       None \<Rightarrow> Inl ErrNotFound
     | Some a \<Rightarrow>
         let d1 = d\<lparr>db_assignments := sql_delete (\<lambda>x. akey x = (nodeID, userID)) (db_assignments d)\<rparr>;
             d2 = update_credentials (\<lambda>c. c_id c = a_desired_credential_id a) (revoke_row now) d1 in
         rbind (requestKickTx nodeID userID ''assignment_removed'' now d2) (\<lambda>d3.
         rbind (bumpNodeSnapshot e nodeID now d3) (\<lambda>(version, d4). Inr ((), d4))))"

section \<open>Rotating and revealing\<close>

definition rotate_row :: "string \<Rightarrow> gotime \<Rightarrow> assignment_row \<Rightarrow> assignment_row" where
  "rotate_row credentialID now a = a\<lparr>a_desired_credential_id := credentialID, a_state := ''pending'',
     a_last_error_code := '''', a_last_error_message := '''', a_updated_at := unixMilli now\<rparr>"

definition rotation_guard :: "assignment_row \<Rightarrow> node_row \<Rightarrow> store_error + string" where
  "rotation_guard a n =
     (let applied = coalesce '''' (a_applied_credential_id a) in
      if a_management_mode a = ''read_only'' then Inl ErrReadOnly
      else if \<not> supportsManagedUsers (n_adapter_type n) \<or> a_management_mode a \<noteq> ''managed'' then Inl ErrUnsupported
      else if a_state a \<noteq> ''applied'' \<or> a_applied_version a < a_desired_version a \<or>
              a_desired_credential_id a = '''' \<or> a_desired_credential_id a \<noteq> applied then Inl ErrPending
      else credentialProtocolForAdapter (n_adapter_type n))"

definition rotateAssignmentCredentialTx ::
  "env \<Rightarrow> string \<Rightarrow> string \<Rightarrow> gotime \<Rightarrow> string \<Rightarrow> db \<Rightarrow> store_error + created_credential \<times> db" where
  "rotateAssignmentCredentialTx e userID nodeID now masterKey d =
     (case (find_assignment nodeID userID d, find_active_user userID d, find_active_node nodeID d) of
        (Some a, Some u, Some n) \<Rightarrow>
          rbind (rotation_guard a n) (\<lambda>credentialProtocol.
          rbind (createUserCredentialTx e userID nodeID credentialProtocol now masterKey d)
            (\<lambda>((credentialID, secret, fingerprint), d1).
          let d2 = update_assignments (\<lambda>x. a_id x = a_id a) (rotate_row credentialID now) d1 in
          rbind (bumpNodeSnapshot e nodeID now d2) (\<lambda>(version, d3).
          Inr (\<lparr> cc_assignment = no_assignment\<lparr>ua_id := a_id a, ua_user_id := userID, ua_node_id := nodeID,
                   ua_node_name := n_name n, ua_node_adapter := n_adapter_type n,
                   ua_desired_credential_id := credentialID,
                   ua_applied_credential_id := coalesce '''' (a_applied_credential_id a),
                   ua_credential_fingerprint := fingerprint, ua_credential_protocol := credentialProtocol,
                   ua_management_mode := a_management_mode a, ua_desired_version := version,
                   ua_applied_version := a_applied_version a, ua_state := ''pending'', ua_updated_at := now\<rparr>,
                 cc_secret = secret \<rparr>,
               markAssignmentPending userID nodeID version now d3))))
      | _ \<Rightarrow> Inl ErrNotFound)"

definition RotateAssignmentCredential ::
  "env \<Rightarrow> string \<Rightarrow> string \<Rightarrow> gotime \<Rightarrow> string \<Rightarrow> db \<Rightarrow> (store_error + user \<times> created_credential) \<times> db" where
  "RotateAssignmentCredential e userID nodeID now masterKey d =
     (let (r, d1) = then_get_user userID (transact (rotateAssignmentCredentialTx e userID nodeID now masterKey) d)
      in (rbind r (\<lambda>(u, credential).
            case List.find (\<lambda>a. ua_node_id a = nodeID) (us_assignments u) of
              None \<Rightarrow> Inr (u, credential)
            | Some a \<Rightarrow> Inr (u, credential\<lparr>cc_assignment := a\<rparr>)), d1))"

definition rotation_targets :: "string \<Rightarrow> db \<Rightarrow> string list" where
  "rotation_targets userID d =
     (if find_active_user userID d = None then []
      else map n_id (sort_key (\<lambda>n. nocase (n_name n)) (sort_key n_id (concat (map (\<lambda>a.
        case find_active_node (a_node_id a) d of None \<Rightarrow> [] | Some n \<Rightarrow> [n])
          (filter (\<lambda>a. a_user_id a = userID \<and> a_management_mode a = ''managed'') (db_assignments d)))))))"

definition rotate_step ::
  "env \<Rightarrow> string \<Rightarrow> gotime \<Rightarrow> string \<Rightarrow> string \<Rightarrow> created_credential list \<times> db \<Rightarrow>
     store_error + created_credential list \<times> db" where
  "rotate_step e userID now masterKey nodeID = (\<lambda>(credentials, d).
     rbind (rotateAssignmentCredentialTx e userID nodeID now masterKey d)
       (\<lambda>(credential, d1). Inr (credentials @ [credential], d1)))"

definition RotateUserCredentials ::
  "env \<Rightarrow> string \<Rightarrow> gotime \<Rightarrow> string \<Rightarrow> db \<Rightarrow> (store_error + user \<times> created_credential list) \<times> db" where
  "RotateUserCredentials e userID now masterKey d =
     (let (r, d1) = then_get_user userID (transact (\<lambda>d.
            let nodeIDs = rotation_targets userID d in
            if nodeIDs = [] \<and> find_active_user userID d = None then Inl ErrNotFound
            else rfold (rotate_step e userID now masterKey) nodeIDs ([], d)) d)
      in (rbind r (\<lambda>(u, credentials).
            Inr (u, map (\<lambda>c. c\<lparr>cc_assignment := coalesce no_assignment
              (map_of (rev (map (\<lambda>a. (ua_node_id a, a)) (us_assignments u))) (ua_node_id (cc_assignment c)))\<rparr>)
              credentials)), d1))"

definition RevealAssignmentCredential ::
  "env \<Rightarrow> string \<Rightarrow> string \<Rightarrow> string \<Rightarrow> db \<Rightarrow> store_error + created_credential" where
  "RevealAssignmentCredential e userID nodeID masterKey d =
     (case (find_assignment nodeID userID d, find_active_user userID d, find_active_node nodeID d) of
        (Some a, Some u, Some n) \<Rightarrow>
          (case find_credential (a_desired_credential_id a) d of
             None \<Rightarrow> Inl ErrNotFound
           | Some c \<Rightarrow>
               if a_management_mode a = ''read_only'' then Inl ErrReadOnly
               else if c_key_version c \<noteq> credentialKeyVersion \<or> (c_state c \<noteq> ''staged'' \<and> c_state c \<noteq> ''applied'')
               then Inl ErrConflict
               else rbind (Open e masterKey (c_ciphertext c)
                      (credentialAAD (a_desired_credential_id a) userID nodeID (c_protocol c) (c_key_version c)))
                      (\<lambda>secret. Inr \<lparr> cc_assignment = scan_assignment d a n c, cc_secret = secret \<rparr>))
      | _ \<Rightarrow> Inl ErrNotFound)"

section \<open>What the operations change\<close>

lemma NewID_eq: "NewID e d = (env_new_id e (db_next_id d), d\<lparr>db_next_id := Suc (db_next_id d)\<rparr>)"
  by (simp add: NewID_def)

lemma new_secret_Inr:
  "new_secret e p d = Inr (s, d') \<Longrightarrow> d' = d\<lparr>db_next_id := Suc (db_next_id d)\<rparr>"
  by (auto simp: new_secret_def RandomToken_def rand_Read_def split: if_splits)

lemma insert_credential_Inr:
  "insert_credential c d = Inr d' \<longleftrightarrow>
     find_user (c_user_id c) d \<noteq> None \<and> find_node (c_node_id c) d \<noteq> None \<and> length (c_verifier c) = 32 \<and>
     (\<forall>x\<in>set (db_credentials d). c_id x \<noteq> c_id c) \<and> d' = d\<lparr>db_credentials := db_credentials d @ [c]\<rparr>"
  by (auto simp: insert_credential_def sql_insert_Some sql_insert_None split: option.splits if_splits)

text \<open>A credential for one assignment: what the stored row promises.\<close>

definition credential_for ::
  "env \<Rightarrow> string \<Rightarrow> string \<Rightarrow> string \<Rightarrow> string \<Rightarrow> string \<Rightarrow> credential_row \<Rightarrow> bool" where
  "credential_for e masterKey userID nodeID protocol secret c \<longleftrightarrow>
     c_user_id c = userID \<and> c_node_id c = nodeID \<and> c_protocol c = protocol \<and>
     c_key_version c = credentialKeyVersion \<and> c_state c = ''staged'' \<and>
     c_verifier c = env_sha256 e secret \<and> length (c_verifier c) = 32 \<and>
     (crypto_ok e \<longrightarrow> Open e masterKey (c_ciphertext c)
        (credentialAAD (c_id c) userID nodeID protocol credentialKeyVersion) = Inr secret)"

definition with_credential :: "credential_row \<Rightarrow> nat \<Rightarrow> db \<Rightarrow> db" where
  "with_credential c k d = d\<lparr>db_credentials := db_credentials d @ [c], db_next_id := k\<rparr>"

lemma createUserCredentialTx_Inr:
  assumes "createUserCredentialTx e u n p now mk d = Inr ((cid, secret, fp), d')"
  shows "\<exists>c. credential_for e mk u n p secret c \<and> c_id c = cid \<and> c_fingerprint c = fp \<and>
    (\<forall>x\<in>set (db_credentials d). c_id x \<noteq> cid) \<and> find_user u d \<noteq> None \<and>
    d' = with_credential c (db_next_id d + 3) d"
proof -
  from assms obtain d1 ct d3 where s: "new_secret e p d = Inr (secret, d1)"
    and cid: "cid = env_new_id e (db_next_id d1)"
    and seal: "Seal e mk secret (credentialAAD cid u n p credentialKeyVersion)
      (d1\<lparr>db_next_id := Suc (db_next_id d1)\<rparr>) = Inr (ct, d3)"
    and fp: "fp = ''fp_'' @ b64_encode (take 6 (env_sha256 e secret))"
    and ins: "insert_credential (new_credential_row cid u n p ct (env_sha256 e secret) fp now) d3 = Inr d'"
    by (auto simp: createUserCredentialTx_def rbind_Inr_conv NewID_eq Let_def)
  have d1: "d1 = d\<lparr>db_next_id := Suc (db_next_id d)\<rparr>" by (rule new_secret_Inr [OF s])
  have d3: "d3 = d\<lparr>db_next_id := db_next_id d + 3\<rparr>"
    using seal by (auto simp: Seal_Inr d1)
  define c where "c = new_credential_row cid u n p ct (env_sha256 e secret) fp now"
  have f: "c_user_id c = u" "c_node_id c = n" "c_protocol c = p" "c_key_version c = credentialKeyVersion"
    "c_state c = ''staged''" "c_verifier c = env_sha256 e secret" "c_id c = cid" "c_fingerprint c = fp"
    "c_ciphertext c = ct"
    by (simp_all add: c_def new_credential_row_def)
  from ins [folded c_def] have i: "find_user u d \<noteq> None" "length (env_sha256 e secret) = 32"
    "\<forall>x\<in>set (db_credentials d). c_id x \<noteq> cid" "d' = with_credential c (db_next_id d + 3) d"
    by (simp_all add: insert_credential_Inr f d3 with_credential_def find_user_def)
  have "credential_for e mk u n p secret c"
    using i(2) Open_Seal [of e, OF _ seal] by (simp add: credential_for_def f)
  with i f show ?thesis by blast
qed

lemma insert_assignment_Inr:
  "insert_assignment a d = Inr d' \<Longrightarrow>
     (\<forall>x\<in>set (db_assignments d). akey x \<noteq> akey a \<and> a_id x \<noteq> a_id a) \<and> 0 \<le> a_traffic_limit a \<and>
     d' = d\<lparr>db_assignments := db_assignments d @ [a]\<rparr>"
  by (auto simp: insert_assignment_def sql_exists_iff split: if_splits)

definition with_assignment :: "assignment_row \<Rightarrow> db \<Rightarrow> db" where
  "with_assignment a d = d\<lparr>db_assignments := db_assignments d @ [a]\<rparr>"

lemma assignUserTxWithMode_Inr:
  assumes "assignUserTxWithMode e u i limit mode remote now mk d = Inr (cc, d')"
  shows "\<exists>n p c a used d1 v. find_active_node i d = Some n \<and>
    assignment_guard n mode remote = Inr p \<and> credential_for e mk u i p (cc_secret cc) c \<and>
    (\<forall>x\<in>set (db_credentials d). c_id x \<noteq> c_id c) \<and> (\<forall>x\<in>set (db_assignments d). akey x \<noteq> (i, u)) \<and>
    find_user u d \<noteq> None \<and>
    checkedAdd (fst (total_of (i, u) d)) (snd (total_of (i, u) d)) = Some used \<and>
    a = new_assignment_row (ua_id (cc_assignment cc)) i u (c_id c) mode remote limit
      (fst (total_of (i, u) d), snd (total_of (i, u) d), used) now \<and>
    bumpNodeSnapshot e i now (with_assignment a (with_credential c (db_next_id d + 4) d)) = Inr (v, d1) \<and>
    d' = markAssignmentPending u i v now d1 \<and>
    ua_upload (cc_assignment cc) = fst (total_of (i, u) d) \<and>
    ua_download (cc_assignment cc) = snd (total_of (i, u) d) \<and> ua_used (cc_assignment cc) = used \<and>
    ua_desired_version (cc_assignment cc) = v"
proof -
  from assms obtain n where n: "find_active_node i d = Some n"
    by (auto simp: assignUserTxWithMode_def split: option.splits)
  from assms n obtain p where p: "assignment_guard n mode remote = Inr p"
    by (auto simp: assignUserTxWithMode_def rbind_Inr_conv)
  from assms n p obtain cid secret fp d1 where
    cr: "createUserCredentialTx e u i p now mk d = Inr ((cid, secret, fp), d1)"
    by (auto simp: assignUserTxWithMode_def rbind_Inr_conv)
  from createUserCredentialTx_Inr [OF cr] obtain c where c: "credential_for e mk u i p secret c" "c_id c = cid"
    "\<forall>x\<in>set (db_credentials d). c_id x \<noteq> cid" "find_user u d \<noteq> None"
    "d1 = with_credential c (db_next_id d + 3) d" by blast
  have tot: "total_of (i, u) (d1\<lparr>db_next_id := k\<rparr>) = total_of (i, u) d" for k
    by (simp add: total_of_def c(5) with_credential_def)
  obtain up down where ud: "total_of (i, u) d = (up, down)" by (cases "total_of (i, u) d")
  have id4: "d1\<lparr>db_next_id := Suc (db_next_id d1)\<rparr> = with_credential c (db_next_id d + 4) d"
    by (simp add: c(5) with_credential_def)
  from assms n p cr obtain used where used: "checkedAdd up down = Some used"
    by (auto simp: assignUserTxWithMode_def NewID_eq Let_def tot ud split: option.splits)
  let ?aid = "env_new_id e (db_next_id d1)"
  let ?a = "new_assignment_row ?aid i u cid mode remote limit (up, down, used) now"
  have tot4: "total_of (i, u) (with_credential c k d) = (up, down)" for k
    using ud by (simp add: total_of_def with_credential_def)
  note body = assms [unfolded assignUserTxWithMode_def n option.case p rbind_simps cr prod.case
      NewID_eq Let_def id4 tot4 used]
  from body obtain d3 where
    ins: "insert_assignment ?a (with_credential c (db_next_id d + 4) d) = Inr d3"
    unfolding rbind_Inr_conv by blast
  from body [unfolded ins rbind_simps] obtain v d4 where
    b: "bumpNodeSnapshot e i now d3 = Inr (v, d4)"
    unfolding rbind_Inr_conv by auto
  from body [unfolded ins rbind_simps b prod.case] have
    d': "d' = markAssignmentPending u i v now d4"
    and cc: "cc_secret cc = secret" "ua_id (cc_assignment cc) = ?aid" "ua_upload (cc_assignment cc) = up"
      "ua_download (cc_assignment cc) = down" "ua_used (cc_assignment cc) = used"
      "ua_desired_version (cc_assignment cc) = v"
    by auto
  have key: "akey ?a = (i, u)" by (simp add: new_assignment_row_def akey_def)
  from insert_assignment_Inr [OF ins] have
    fresh: "\<forall>x\<in>set (db_assignments d). akey x \<noteq> (i, u)"
    and d3: "d3 = with_assignment ?a (with_credential c (db_next_id d + 4) d)"
    unfolding key by (simp_all add: with_credential_def with_assignment_def)
  show ?thesis
    using n p c(1-4) fresh used b d' cc by (auto simp: ud d3)
qed

section \<open>The ledger and the versions survive every operation\<close>

text \<open>Every accounted item belongs to a stored user, so a new user starts with an empty ledger.\<close>

definition items_known :: "db \<Rightarrow> bool" where
  "items_known d \<longleftrightarrow> (\<forall>x\<in>set (db_batch_items d). bi_disposition x = ''accounted'' \<longrightarrow>
     bi_user_id x \<in> set (map u_id (db_users d)))"

definition fleet_ok :: "db \<Rightarrow> bool" where
  "fleet_ok d \<longleftrightarrow> ledger_ok d \<and> versions_ok d \<and> items_known d"

lemma items_known_view: "ledger_view d' = ledger_view d \<Longrightarrow> items_known d' = items_known d"
proof -
  assume v: "ledger_view d' = ledger_view d"
  have ids: "map u_id us = map fst (map user_view us)" for us by (simp add: user_view_def)
  have "map u_id (db_users d') = map u_id (db_users d)" "db_batch_items d' = db_batch_items d"
    unfolding ids using v by (simp_all add: ledger_view_def)
  then show ?thesis by (simp add: items_known_def)
qed

lemma fleet_ok_view:
  "ledger_view d' = ledger_view d \<Longrightarrow>
     map node_version_view (db_nodes d') = map node_version_view (db_nodes d) \<Longrightarrow>
     db_snapshots d' = db_snapshots d \<Longrightarrow> fleet_ok d' = fleet_ok d"
  using ledger_ok_view [of d' d] versions_ok_view [of d' d] items_known_view [of d' d]
  unfolding fleet_ok_def by blast

interpretation update_user_view: row_update user_view "update_user_row input used expiry" for input used expiry
  by unfold_locales (simp add: user_view_def update_user_row_def)

interpretation update_assignment_view: row_update assignment_view "update_assignment_row input used" for input used
  by unfold_locales (simp add: assignment_view_def update_assignment_row_def akey_def)

interpretation rotate_view: row_update assignment_view "rotate_row cid now" for cid now
  by unfold_locales (simp add: assignment_view_def rotate_row_def akey_def)

lemma fleet_ok_credential [simp]: "fleet_ok (with_credential c k d) = fleet_ok d"
  by (rule fleet_ok_view) (simp_all add: with_credential_def ledger_view_def)

lemma fleet_ok_pending [simp]: "fleet_ok (markAssignmentPending u i v now d) = fleet_ok d"
  by (rule fleet_ok_view) (simp_all add: markAssignmentPending_alt ledger_view_def pending_view.map_key_update)

lemma fleet_ok_kicks: "requestKickTx i u reason now d = Inr d' \<Longrightarrow> fleet_ok d' = fleet_ok d"
  by (rule fleet_ok_view) (auto dest!: requestKickTx_frame simp: ledger_view_def)

lemma fleet_ok_bump: "fleet_ok d \<Longrightarrow> bumpNodeSnapshot e i now d = Inr (v, d') \<Longrightarrow> fleet_ok d'"
  using versions_ok_bump ledger_ok_view [OF bump_ledger_view] items_known_view [OF bump_ledger_view]
  by (auto simp: fleet_ok_def)

lemma fleet_ok_bump_pending: "fleet_ok d \<Longrightarrow> bump_pending e u i now d = Inr d' \<Longrightarrow> fleet_ok d'"
  by (auto simp: bump_pending_def rbind_Inr_conv dest: fleet_ok_bump)

lemma fleet_ok_bumpChanged: "fleet_ok d \<Longrightarrow> bumpChangedAssignmentsTx e changed now d = Inr d' \<Longrightarrow> fleet_ok d'"
  using bumpChanged_versions ledger_ok_view [OF bumpChanged_ledger_view]
    items_known_view [OF bumpChanged_ledger_view] by (auto simp: fleet_ok_def)

lemma sum_by_mono:
  "(\<And>x. x \<in> set xs \<Longrightarrow> 0 \<le> f x) \<Longrightarrow> (\<And>x. p x \<Longrightarrow> q x) \<Longrightarrow> sum_by p f xs \<le> sum_by q f xs"
  by (induction xs) (auto simp: add_increasing)

text \<open>The prior totals of a pair, read back from \<open>traffic_totals\<close>, are what the ledger
  accounts to it, and they fit.\<close>

lemma prior_totals:
  assumes "ledger_ok d" and "find_user u d \<noteq> None"
  shows "total_of (i, u) d = (sum_by (accounted (i, u)) bi_upload (db_batch_items d),
      sum_by (accounted (i, u)) bi_download (db_batch_items d))"
    and "0 \<le> fst (total_of (i, u) d)" "0 \<le> snd (total_of (i, u) d)"
      "fst (total_of (i, u) d) + snd (total_of (i, u) d) \<le> MaxInt64"
proof -
  let ?items = "db_batch_items d"
  from assms(2) obtain w where w: "find_user u d = Some w" by blast
  have items: "0 \<le> bi_upload x" "0 \<le> bi_download x" if "x \<in> set ?items" for x
    using assms(1) that by (simp_all add: ledger_ok_def counters_ok_def ledger_items_def)
  show t: "total_of (i, u) d = (sum_by (accounted (i, u)) bi_upload ?items,
      sum_by (accounted (i, u)) bi_download ?items)"
    using assms(1) by (simp add: ledger_ok_def counters_ok_def ledger_totals_def)
  show "0 \<le> fst (total_of (i, u) d)" "0 \<le> snd (total_of (i, u) d)"
    unfolding t using items by (simp_all add: sum_by_nonneg)
  have "user_counts ?items w" and "u_id w = u"
    using assms(1) find_userD [OF w] by (auto simp: ledger_ok_def counters_ok_def ledger_users_def)
  then have "sum_by (accounted_user u) bi_upload ?items + sum_by (accounted_user u) bi_download ?items \<le> MaxInt64"
    unfolding user_counts_def by metis
  moreover have "sum_by (accounted (i, u)) bi_upload ?items \<le> sum_by (accounted_user u) bi_upload ?items"
    "sum_by (accounted (i, u)) bi_download ?items \<le> sum_by (accounted_user u) bi_download ?items"
    using items by (auto intro!: sum_by_mono simp: accounted_def accounted_user_def)
  ultimately show "fst (total_of (i, u) d) + snd (total_of (i, u) d) \<le> MaxInt64"
    unfolding t by simp
qed

lemma prior_used:
  assumes "ledger_ok d" and "find_user u d \<noteq> None"
  shows "checkedAdd (fst (total_of (i, u) d)) (snd (total_of (i, u) d)) =
    Some (fst (total_of (i, u) d) + snd (total_of (i, u) d))"
  using prior_totals(2-4) [OF assms, of i]
  by (subst checkedAdd_eq) (auto simp: int64_range_def MinInt64_def)

lemma new_assignment_counts:
  assumes "ledger_ok d" and "find_user u d \<noteq> None"
  shows "assignment_counts (db_batch_items d) (new_assignment_row aid i u cid mode remote limit
     (fst (total_of (i, u) d), snd (total_of (i, u) d), fst (total_of (i, u) d) + snd (total_of (i, u) d)) now)"
  using prior_totals [OF assms, of i]
  by (simp add: assignment_counts_def new_assignment_row_def akey_def)

lemma fleet_ok_with_assignment:
  assumes "fleet_ok d" and "\<forall>x\<in>set (db_assignments d). akey x \<noteq> akey a"
    and "assignment_counts (db_batch_items d) a"
  shows "fleet_ok (with_assignment a d)"
proof -
  have "ledger_ok (with_assignment a d)"
    using assms
    by (auto simp: fleet_ok_def ledger_ok_def counters_ok_def ledger_users_def ledger_assignments_def
        ledger_totals_def ledger_items_def ledger_nodes_def ledger_batches_def total_of_def
        with_assignment_def unique_by_append1)
  moreover have "versions_ok (with_assignment a d)"
    using assms(1) versions_ok_cong [of "with_assignment a d" d] by (simp add: fleet_ok_def with_assignment_def)
  moreover have "items_known (with_assignment a d)"
    using assms(1) by (simp add: fleet_ok_def with_assignment_def items_known_def)
  ultimately show ?thesis by (simp add: fleet_ok_def)
qed

lemma fleet_ok_assign:
  assumes "fleet_ok d" and "assignUserTxWithMode e u i limit mode remote now mk d = Inr (cc, d')"
  shows "fleet_ok d'"
proof -
  from assignUserTxWithMode_Inr [OF assms(2)] obtain c a used d1 v where
    fresh: "\<forall>x\<in>set (db_assignments d). akey x \<noteq> (i, u)" and fu: "find_user u d \<noteq> None"
    and used: "checkedAdd (fst (total_of (i, u) d)) (snd (total_of (i, u) d)) = Some used"
    and a: "a = new_assignment_row (ua_id (cc_assignment cc)) i u (c_id c) mode remote limit
      (fst (total_of (i, u) d), snd (total_of (i, u) d), used) now"
    and b: "bumpNodeSnapshot e i now (with_assignment a (with_credential c (db_next_id d + 4) d)) = Inr (v, d1)"
    and d': "d' = markAssignmentPending u i v now d1" by blast
  have l: "ledger_ok d" using assms(1) by (simp add: fleet_ok_def)
  have used': "used = fst (total_of (i, u) d) + snd (total_of (i, u) d)"
    using used prior_used [OF l fu, of i] by simp
  have key: "akey a = (i, u)" by (simp add: a new_assignment_row_def akey_def)
  have "fleet_ok (with_assignment a (with_credential c (db_next_id d + 4) d))"
  proof (rule fleet_ok_with_assignment)
    show "fleet_ok (with_credential c (db_next_id d + 4) d)" using assms(1) by simp
    show "\<forall>x\<in>set (db_assignments (with_credential c (db_next_id d + 4) d)). akey x \<noteq> akey a"
      using fresh by (simp add: with_credential_def key)
    show "assignment_counts (db_batch_items (with_credential c (db_next_id d + 4) d)) a"
      using new_assignment_counts [OF l fu] by (simp add: with_credential_def a used')
  qed
  from fleet_ok_bump [OF this b] show ?thesis by (simp add: d')
qed

lemma snd_then_get_user [simp]: "snd (then_get_user i p) = snd p"
  by (cases p) (simp add: then_get_user_def)

lemma insert_user_Inr:
  "insert_user u d = Inr d' \<longleftrightarrow> 0 \<le> u_traffic_limit u \<and>
     (\<forall>x\<in>set (db_users d). u_id x \<noteq> u_id u \<and>
        (u_archived_at x = None \<longrightarrow> nocase (u_username x) \<noteq> nocase (u_username u))) \<and>
     d' = d\<lparr>db_users := db_users d @ [u]\<rparr>"
  by (auto simp: insert_user_def sql_exists_iff split: if_splits)

lemma fleet_ok_insert_user:
  assumes ok: "fleet_ok d" and ins: "insert_user (new_user_row input) d = Inr d'"
  shows "fleet_ok d'"
proof -
  let ?u = "new_user_row input"
  have fresh: "\<forall>x\<in>set (db_users d). u_id x \<noteq> u_id ?u" and d': "d' = d\<lparr>db_users := db_users d @ [?u]\<rparr>"
    using ins by (auto simp: insert_user_Inr)
  have "\<not> accounted_user (u_id ?u) x" if "x \<in> set (db_batch_items d)" for x
    using ok that fresh by (auto simp: fleet_ok_def items_known_def accounted_user_def)
  then have "sum_by (accounted_user (u_id ?u)) f (db_batch_items d) = 0" for f by (rule sum_by_none)
  then have "user_counts (db_batch_items d) ?u" by (simp add: user_counts_def) (simp add: new_user_row_def)
  then have "ledger_ok d'"
    using ok fresh
    by (auto simp: d' fleet_ok_def ledger_ok_def counters_ok_def ledger_users_def ledger_assignments_def
        ledger_totals_def ledger_items_def ledger_nodes_def ledger_batches_def total_of_def unique_by_append1)
  moreover have "versions_ok d'"
    using ok versions_ok_cong [of d' d] by (simp add: fleet_ok_def d')
  moreover have "items_known d'" using ok by (auto simp: fleet_ok_def items_known_def d')
  ultimately show ?thesis by (simp add: fleet_ok_def)
qed

lemma fleet_ok_CreateUser: "fleet_ok d \<Longrightarrow> fleet_ok (snd (CreateUser e input mk d))"
  unfolding CreateUser_def snd_then_get_user
proof (rule transact_preserves)
  fix x d' assume ok: "fleet_ok d"
    and "rbind (insert_user (new_user_row input) d) (\<lambda>d1.
      rfold (create_step e (nw_id input) (nw_now input) mk) (nw_node_ids input) ([], d1)) = Inr (x, d')"
  then obtain d1 where i: "insert_user (new_user_row input) d = Inr d1"
    and r: "rfold (create_step e (nw_id input) (nw_now input) mk) (nw_node_ids input) ([], d1) = Inr (x, d')"
    by (auto simp: rbind_Inr_conv)
  have "fleet_ok (snd (x, d'))"
    by (rule rfold_invariant [where P = "\<lambda>s. fleet_ok (snd s)", OF r])
      (use fleet_ok_insert_user [OF ok i] in \<open>auto simp: create_step_def assignUserTx_def rbind_Inr_conv dest: fleet_ok_assign\<close>)
  then show "fleet_ok d'" by simp
qed

lemma fleet_ok_AssignUser: "fleet_ok d \<Longrightarrow> fleet_ok (snd (AssignUser e u i limit now mk d))"
  unfolding AssignUser_def snd_then_get_user
  by (rule transact_preserves) (auto simp: assignUserTx_def dest: fleet_ok_assign split: if_splits)

lemma kick_if_ok: "kick_if i u reason now d = Inr d' \<Longrightarrow> fleet_ok d' = fleet_ok d"
  by (auto simp: kick_if_def dest: fleet_ok_kicks split: if_splits)

lemma fleet_ok_update_users:
  "fleet_ok (update_users p (update_user_row input used expiry) d) = fleet_ok d"
  by (rule fleet_ok_view) (simp_all add: update_users_def ledger_view_def update_user_view.map_key_update)

lemma update_steps_ok:
  assumes "rfold (update_step u reason_of now) is (ch, d) = Inr (ch', d')"
  shows "fleet_ok d' = fleet_ok d"
proof -
  have "fleet_ok (snd (ch', d')) = fleet_ok (snd (ch, d))"
    by (rule rfold_relation [where R = "\<lambda>s s'. fleet_ok (snd s') = fleet_ok (snd s)", OF assms])
      (auto simp: update_step_def rbind_Inr_conv dest: fleet_ok_kicks split: if_splits)
  then show ?thesis by simp
qed

lemma updateUserTx_Inr:
  assumes "updateUserTx e i input d = Inr d'"
  shows "\<exists>u expiry reason_of ch d2. find_active_user i d = Some u \<and> 0 \<le> up_traffic_limit input \<and>
    (\<forall>x\<in>set (db_users d). u_id x \<noteq> i \<longrightarrow> u_archived_at x = None \<longrightarrow>
       nocase (u_username x) \<noteq> nocase (up_username input)) \<and>
    rfold (update_step i reason_of (up_now input)) (assignmentNodeIDs i d)
      ([], update_users (\<lambda>x. u_id x = i \<and> u_archived_at x = None) (update_user_row input (u_used u) expiry) d) = Inr (ch, d2) \<and>
    bumpChangedAssignmentsTx e ch (up_now input) d2 = Inr d'"
proof -
  from assms obtain u where u: "find_active_user i d = Some u"
    by (auto simp: updateUserTx_def split: option.splits)
  show ?thesis
    using assms u unfolding updateUserTx_def
    by (auto simp: rbind_Inr_conv Let_def sql_exists_iff split: if_splits; meson)
qed

lemma fleet_ok_UpdateUser: "fleet_ok d \<Longrightarrow> fleet_ok (snd (UpdateUser e i input d))"
  unfolding UpdateUser_def snd_then_get_user
proof (rule transact_preserves)
  fix x d' assume ok: "fleet_ok d" and "rbind (updateUserTx e i input d) (\<lambda>d1. Inr ((), d1)) = Inr (x, d')"
  then have "updateUserTx e i input d = Inr d'" by (auto simp: rbind_Inr_conv)
  from updateUserTx_Inr [OF this] obtain u :: user_row and expiry reason_of ch d2 where
    r: "rfold (update_step i reason_of (up_now input)) (assignmentNodeIDs i d)
      ([], update_users (\<lambda>x. u_id x = i \<and> u_archived_at x = None) (update_user_row input (u_used u) expiry) d) = Inr (ch, d2)"
    and b: "bumpChangedAssignmentsTx e ch (up_now input) d2 = Inr d'" by blast
  from update_steps_ok [OF r] ok have "fleet_ok d2" by (simp add: fleet_ok_update_users)
  then show "fleet_ok d'" using b by (rule fleet_ok_bumpChanged)
qed

lemma fleet_ok_UpdateAssignment: "fleet_ok d \<Longrightarrow> fleet_ok (snd (UpdateAssignment e u i input d))"
  unfolding UpdateAssignment_def snd_then_get_user
proof (rule transact_preserves)
  fix x d' assume ok: "fleet_ok d" and b: "update_assignment_body e u i input d = Inr (x, d')"
  have "fleet_ok (update_assignments p (update_assignment_row input used) d)" for p used
    using ok fleet_ok_view [of "update_assignments p (update_assignment_row input used) d" d]
    by (simp add: update_assignments_def ledger_view_def update_assignment_view.map_key_update)
  with b show "fleet_ok d'"
    by (auto simp: update_assignment_body_def rbind_Inr_conv Let_def split: option.splits if_splits
        dest: kick_if_ok fleet_ok_bump_pending)
qed

lemma fleet_ok_SetAssignmentEnabled: "fleet_ok d \<Longrightarrow> fleet_ok (snd (SetAssignmentEnabled e u i en now d))"
  using fleet_ok_UpdateAssignment by (auto simp: SetAssignmentEnabled_def split: sum.splits option.splits)

interpretation archive_view: row_update user_view
  "\<lambda>u. u\<lparr>u_enabled := False, u_archived_at := Some t, u_updated_at := t\<rparr>" for t
  by unfold_locales (simp add: user_view_def)

lemma fleet_ok_credentials [simp]: "fleet_ok (update_credentials p f d) = fleet_ok d"
  by (rule fleet_ok_view) (simp_all add: update_credentials_def ledger_view_def)

lemma fleet_ok_archive_step: "fleet_ok d \<Longrightarrow> archive_step e u now i d = Inr d' \<Longrightarrow> fleet_ok d'"
  by (auto simp: archive_step_def rbind_Inr_conv dest: fleet_ok_kicks fleet_ok_bump_pending)

text \<open>What archiving leaves: the archived user, revoked credentials, then one step per node.\<close>

definition archived_state :: "string \<Rightarrow> gotime \<Rightarrow> db \<Rightarrow> db" where
  "archived_state i now d = update_credentials
     (\<lambda>c. c_user_id c = i \<and> (c_state c = ''staged'' \<or> c_state c = ''applied'')) (revoke_row now)
     (update_users (\<lambda>u. u_id u = i \<and> u_archived_at u = None)
        (\<lambda>u. u\<lparr>u_enabled := False, u_archived_at := Some (unixMilli now), u_updated_at := unixMilli now\<rparr>) d)"

lemma fleet_ok_archived [simp]: "fleet_ok (archived_state i now d) = fleet_ok d"
proof -
  have "fleet_ok (update_users p
      (\<lambda>u. u\<lparr>u_enabled := False, u_archived_at := Some (unixMilli now), u_updated_at := unixMilli now\<rparr>) d) = fleet_ok d" for p
    by (rule fleet_ok_view) (simp_all add: update_users_def ledger_view_def archive_view.map_key_update)
  then show ?thesis by (simp add: archived_state_def)
qed

lemma ArchiveUser_Inr:
  "ArchiveUser e i now d = (Inr (), d') \<longleftrightarrow>
     (\<exists>u\<in>set (db_users d). u_id u = i \<and> u_archived_at u = None) \<and>
     rfold (archive_step e i now) (assignmentNodeIDs i d) (archived_state i now d) = Inr d'"
  by (auto simp: ArchiveUser_def transact_commit Let_def sql_exists_iff rbind_Inr_conv archived_state_def)

lemma fleet_ok_ArchiveUser: "fleet_ok d \<Longrightarrow> fleet_ok (snd (ArchiveUser e i now d))"
proof (cases "ArchiveUser e i now d")
  case (Pair r d')
  assume ok: "fleet_ok d"
  show ?thesis
  proof (cases r)
    case (Inl err)
    have "d' = d" by (rule transact_rollback) (use Pair Inl in \<open>simp only: ArchiveUser_def\<close>)
    with Pair ok show ?thesis by simp
  next
    case (Inr y)
    with Pair have r: "rfold (archive_step e i now) (assignmentNodeIDs i d) (archived_state i now d) = Inr d'"
      using ArchiveUser_Inr by simp
    have "fleet_ok d'" by (rule rfold_invariant [OF r]) (use ok in \<open>auto dest: fleet_ok_archive_step\<close>)
    with Pair show ?thesis by simp
  qed
qed

lemma fleet_ok_delete_assignments:
  assumes "fleet_ok d"
  shows "fleet_ok (d\<lparr>db_assignments := sql_delete p (db_assignments d)\<rparr>)"
proof -
  have "ledger_ok (d\<lparr>db_assignments := sql_delete p (db_assignments d)\<rparr>)"
    using assms unique_by_delete [of akey "db_assignments d" p]
    by (auto simp: fleet_ok_def ledger_ok_def counters_ok_def ledger_users_def ledger_assignments_def
        ledger_totals_def ledger_items_def ledger_nodes_def ledger_batches_def total_of_def set_sql_delete)
  with assms show ?thesis
    using versions_ok_cong [of "d\<lparr>db_assignments := sql_delete p (db_assignments d)\<rparr>" d]
    by (simp add: fleet_ok_def items_known_def)
qed

lemma fleet_ok_UnassignUser: "fleet_ok d \<Longrightarrow> fleet_ok (snd (UnassignUser e u i now d))"
  unfolding UnassignUser_def
  by (rule transact_preserves)
    (auto simp: Let_def rbind_Inr_conv split: option.splits
      dest!: fleet_ok_kicks fleet_ok_bump [rotated] intro: fleet_ok_delete_assignments)

lemma rotate_Inr:
  assumes "rotateAssignmentCredentialTx e u i now mk d = Inr (cc, d')"
  shows "\<exists>a w n p c v d1. find_assignment i u d = Some a \<and> find_active_user u d = Some w \<and>
    find_active_node i d = Some n \<and> rotation_guard a n = Inr p \<and>
    credential_for e mk u i p (cc_secret cc) c \<and> (\<forall>x\<in>set (db_credentials d). c_id x \<noteq> c_id c) \<and>
    bumpNodeSnapshot e i now (update_assignments (\<lambda>x. a_id x = a_id a) (rotate_row (c_id c) now)
      (with_credential c (db_next_id d + 3) d)) = Inr (v, d1) \<and>
    d' = markAssignmentPending u i v now d1 \<and> ua_desired_version (cc_assignment cc) = v"
proof -
  from assms obtain a w n p cid fp secret d1 where
    f: "find_assignment i u d = Some a" "find_active_user u d = Some w" "find_active_node i d = Some n"
    "rotation_guard a n = Inr p" and cr: "createUserCredentialTx e u i p now mk d = Inr ((cid, secret, fp), d1)"
    by (auto simp: rotateAssignmentCredentialTx_def rbind_Inr_conv split: option.splits)
  note body = assms [unfolded rotateAssignmentCredentialTx_def f option.case prod.case rbind_simps cr Let_def]
  from body obtain v d2 where
    b: "bumpNodeSnapshot e i now (update_assignments (\<lambda>x. a_id x = a_id a) (rotate_row cid now) d1) = Inr (v, d2)"
    unfolding rbind_Inr_conv by auto
  from body [unfolded b rbind_simps prod.case] have
    "d' = markAssignmentPending u i v now d2" "cc_secret cc = secret" "ua_desired_version (cc_assignment cc) = v"
    by auto
  with b f createUserCredentialTx_Inr [OF cr] show ?thesis by blast
qed

lemma fleet_ok_rotate:
  assumes "fleet_ok d" and "rotateAssignmentCredentialTx e u i now mk d = Inr (cc, d')"
  shows "fleet_ok d'"
proof -
  have "fleet_ok (update_assignments p (rotate_row cid now) d1) = fleet_ok d1" for p cid d1
    by (rule fleet_ok_view) (simp_all add: update_assignments_def ledger_view_def rotate_view.map_key_update)
  then show ?thesis using rotate_Inr [OF assms(2)] assms(1) by (auto dest!: fleet_ok_bump [rotated])
qed

lemma fleet_ok_RotateAssignmentCredential:
  "fleet_ok d \<Longrightarrow> fleet_ok (snd (RotateAssignmentCredential e u i now mk d))"
proof -
  assume ok: "fleet_ok d"
  have "fleet_ok (snd (transact (rotateAssignmentCredentialTx e u i now mk) d))"
    by (rule transact_preserves) (use ok fleet_ok_rotate in auto)
  then show ?thesis
    by (simp add: RotateAssignmentCredential_def split_beta)
qed

lemma fleet_ok_RotateUserCredentials:
  "fleet_ok d \<Longrightarrow> fleet_ok (snd (RotateUserCredentials e u now mk d))"
proof -
  assume ok: "fleet_ok d"
  let ?body = "\<lambda>d. let nodeIDs = rotation_targets u d in
    if nodeIDs = [] \<and> find_active_user u d = None then Inl ErrNotFound
    else rfold (rotate_step e u now mk) nodeIDs ([], d)"
  have "fleet_ok (snd (transact ?body d))"
  proof (rule transact_preserves)
    fix x d' assume "?body d = Inr (x, d')"
    then have r: "rfold (rotate_step e u now mk) (rotation_targets u d) ([], d) = Inr (x, d')"
      by (auto simp: Let_def split: if_splits)
    have "fleet_ok (snd (x, d'))"
      by (rule rfold_invariant [where P = "\<lambda>s. fleet_ok (snd s)", OF r])
        (use ok in \<open>auto simp: rotate_step_def rbind_Inr_conv dest: fleet_ok_rotate\<close>)
    then show "fleet_ok d'" by simp
  qed (rule ok)
  then show ?thesis
    unfolding RotateUserCredentials_def by (simp add: split_beta)
qed

section \<open>What an assignment and a rotation leave behind\<close>

lemma bump_tables:
  assumes "bumpNodeSnapshot e i now d = Inr (v, d')"
  shows "db_assignments d' = db_assignments d" "db_credentials d' = db_credentials d"
    "db_users d' = db_users d" "db_batch_items d' = db_batch_items d" "db_kicks d' = db_kicks d"
    "db_totals d' = db_totals d"
  using assms by (auto simp: bumpNodeSnapshot_Inr bumped_def)

lemma bump_active_node:
  assumes "unique_by n_id (db_nodes d)" and "bumpNodeSnapshot e i now d = Inr (v, d')"
  shows "\<exists>n. find_active_node i d = Some n \<and> find_active_node i d' = Some (bump_row v now n)"
proof -
  from assms(2) obtain n where n: "find_active_node i d = Some n"
    and nodes: "db_nodes d' = sql_update (\<lambda>x. n_id x = i) (bump_row v now) (db_nodes d)"
    by (auto simp: bumpNodeSnapshot_Inr bumped_def)
  have "find_node i d' = Some (bump_row v now n)"
    using find_active_find_node [OF assms(1) n] bump_node.lookup_update [of i "\<lambda>x. n_id x = i" v now "db_nodes d"]
    by (auto simp: find_node_def nodes dest: sql_first_SomeD)
  moreover have "unique_by n_id (db_nodes d')" using bump_node.unique_update [OF assms(1)] by (simp add: nodes)
  ultimately have "find_active_node i d' = Some (bump_row v now n)"
    using find_active_nodeD [OF n] by (simp add: find_active_node_iff bump_row_def)
  with n show ?thesis by blast
qed

lemma find_assignment_pending:
  "find_assignment i u (markAssignmentPending u i v now d) = map_option (pending_row v now) (find_assignment i u d)"
proof -
  have "find_assignment i u (markAssignmentPending u i v now d) = map_option
      (\<lambda>a. if a_user_id a = u \<and> a_node_id a = i then pending_row v now a else a) (find_assignment i u d)"
    by (simp add: find_assignment_def markAssignmentPending_alt pending.lookup_update)
  then show ?thesis by (cases "find_assignment i u d") (auto dest!: find_assignmentD simp: akey_def)
qed

lemma find_credential_new:
  "\<forall>x\<in>set (db_credentials d). c_id x \<noteq> c_id c \<Longrightarrow> find_credential (c_id c) (with_credential c k d) = Some c"
  by (auto simp: find_credential_def with_credential_def sql_first_append sql_first_None split: option.split
      dest: sql_first_SomeD)

text \<open>The state in which a fresh credential of \<open>u\<close> on \<open>i\<close> waits to be applied.\<close>

definition staged_for :: "env \<Rightarrow> string \<Rightarrow> string \<Rightarrow> string \<Rightarrow> string \<Rightarrow> db \<Rightarrow> bool" where
  "staged_for e masterKey u i secret d \<longleftrightarrow>
     (\<exists>a n c. find_assignment i u d = Some a \<and> find_active_node i d = Some n \<and>
        find_credential (a_desired_credential_id a) d = Some c \<and> a_state a = ''pending'' \<and>
        a_management_mode a \<noteq> ''read_only'' \<and> a_desired_version a = n_desired_version n \<and>
        c_id c = a_desired_credential_id a \<and>
        credential_for e masterKey u i (c_protocol c) secret c)"

lemma staged_reveal:
  assumes "staged_for e mk u i secret d" and "crypto_ok e" and "find_active_user u d \<noteq> None"
  shows "\<exists>cc. RevealAssignmentCredential e u i mk d = Inr cc \<and> cc_secret cc = secret"
  using assms
  by (auto simp: staged_for_def RevealAssignmentCredential_def credential_for_def)

lemma assign_staged:
  assumes ok: "fleet_ok d" and t: "assignUserTxWithMode e u i limit ''managed'' remote now mk d = Inr (cc, d')"
  shows "staged_for e mk u i (cc_secret cc) d'" and "db_users d' = db_users d"
    and "db_batch_items d' = db_batch_items d"
    and "desired_version d' j = (if j = i then map_option (\<lambda>v. v + 1) (desired_version d j) else desired_version d j)"
    and "\<exists>a. find_assignment i u d' = Some a \<and> a_enabled a \<and> a_traffic_limit a = limit"
proof -
  from assignUserTxWithMode_Inr [OF t] obtain n p c a used d1 v where
    cf: "credential_for e mk u i p (cc_secret cc) c" and cfresh: "\<forall>x\<in>set (db_credentials d). c_id x \<noteq> c_id c"
    and fresh: "\<forall>x\<in>set (db_assignments d). akey x \<noteq> (i, u)"
    and a: "a = new_assignment_row (ua_id (cc_assignment cc)) i u (c_id c) ''managed'' remote limit
      (fst (total_of (i, u) d), snd (total_of (i, u) d), used) now"
    and b: "bumpNodeSnapshot e i now (with_assignment a (with_credential c (db_next_id d + 4) d)) = Inr (v, d1)"
    and d': "d' = markAssignmentPending u i v now d1" by blast
  let ?d0 = "with_assignment a (with_credential c (db_next_id d + 4) d)"
  have key: "akey a = (i, u)" by (simp add: a new_assignment_row_def akey_def)
  have vo: "versions_ok d" and uniq: "unique_by n_id (db_nodes d)" using ok by (simp_all add: fleet_ok_def versions_ok_def)
  have v0: "versions_ok ?d0"
    using vo versions_ok_cong [of ?d0 d] by (simp add: with_assignment_def with_credential_def)
  note tab = bump_tables [OF b]
  have fa: "find_assignment i u d' = Some (pending_row v now a)"
    unfolding d' find_assignment_pending
    using fresh by (auto simp: find_assignment_def tab with_assignment_def with_credential_def
        sql_first_append sql_first_None key split: option.split dest: sql_first_SomeD)
  from bump_active_node [OF _ b] uniq obtain m where m: "find_active_node i d1 = Some (bump_row v now m)"
    by (auto simp: with_assignment_def with_credential_def)
  have fn: "find_active_node i d' = Some (bump_row v now m)"
    using m by (simp add: d' find_active_node_def markAssignmentPending_alt)
  have fc: "find_credential (c_id c) d' = Some c"
    using find_credential_new [OF cfresh]
    by (simp add: d' find_credential_def markAssignmentPending_alt tab with_assignment_def)
  have prot: "c_protocol c = p" using cf by (simp add: credential_for_def)
  show "staged_for e mk u i (cc_secret cc) d'"
    unfolding staged_for_def
    by (rule exI [of _ "pending_row v now a"], rule exI [of _ "bump_row v now m"], rule exI [of _ c])
      (use cf fc in \<open>simp add: fa fn prot, simp add: pending_row_def bump_row_def a new_assignment_row_def\<close>)
  show "db_users d' = db_users d" "db_batch_items d' = db_batch_items d"
    by (simp_all add: d' markAssignmentPending_alt tab with_assignment_def with_credential_def)
  have dv: "desired_version ?d0 = desired_version d" "desired_version d' = desired_version d1"
    by (rule desired_version_cong, simp add: with_assignment_def with_credential_def)
      (rule desired_version_cong, simp add: d' markAssignmentPending_alt)
  show "desired_version d' j = (if j = i then map_option (\<lambda>v. v + 1) (desired_version d j) else desired_version d j)"
    using bump_version [OF v0 b] bump_version_other [OF b, of j] unfolding dv
    by (auto simp: dv(1) [symmetric] desired_version_def)
  show "\<exists>a. find_assignment i u d' = Some a \<and> a_enabled a \<and> a_traffic_limit a = limit"
    by (simp add: fa) (simp add: pending_row_def a new_assignment_row_def)
qed

lemma bump_pending_version:
  assumes "versions_ok d" and "bump_pending e u i now d = Inr d'"
  shows "versions_ok d' \<and> (\<forall>j. desired_version d' j =
    (if j = i then map_option (\<lambda>v. v + 1) (desired_version d j) else desired_version d j))"
proof -
  from assms(2) obtain v d1 where b: "bumpNodeSnapshot e i now d = Inr (v, d1)"
    and d': "d' = markAssignmentPending u i v now d1" by (auto simp: bump_pending_def rbind_Inr_conv)
  have "versions_ok d'" "desired_version d' = desired_version d1"
    using versions_ok_bump [OF assms(1) b] versions_ok_cong [of d' d1] desired_version_cong [of d' d1]
    by (simp_all add: d' markAssignmentPending_alt)
  then show ?thesis using bump_version [OF assms(1) b] bump_version_other [OF b]
    by (auto simp: desired_version_def)
qed

lemma kick_version:
  assumes "requestKickTx i u reason now d = Inr d'"
  shows "versions_ok d' = versions_ok d" and "desired_version d' = desired_version d"
proof -
  from requestKickTx_frame [OF assms] obtain t where "d' = d\<lparr>db_kicks := t\<rparr>" by blast
  then show "versions_ok d' = versions_ok d" "desired_version d' = desired_version d"
    using versions_ok_cong [of d' d] desired_version_cong [of d' d] by simp_all
qed

lemma archive_step_version:
  "versions_ok d \<Longrightarrow> archive_step e u now i d = Inr d' \<Longrightarrow> versions_ok d' \<and> (\<forall>j. desired_version d' j =
    (if j = i then map_option (\<lambda>v. v + 1) (desired_version d j) else desired_version d j))"
proof -
  assume "versions_ok d" and "archive_step e u now i d = Inr d'"
  then obtain d1 where k: "requestKickTx i u ''user_archived'' now d = Inr d1"
    and b: "bump_pending e u i now d1 = Inr d'" by (auto simp: archive_step_def rbind_Inr_conv)
  from \<open>versions_ok d\<close> bump_pending_version [OF _ b] show ?thesis by (simp add: kick_version [OF k])
qed

text \<open>A loop of steps that each move one node moves exactly the nodes it visits.\<close>

lemma versions_loop:
  assumes step: "\<And>i d d'. versions_ok d \<Longrightarrow> f i d = Inr d' \<Longrightarrow> versions_ok d' \<and> (\<forall>j. desired_version d' j =
      (if j = i then map_option (\<lambda>v. v + 1) (desired_version d j) else desired_version d j))"
    and "versions_ok d" and "distinct is" and "rfold f is d = Inr d'"
  shows "versions_ok d' \<and> (\<forall>j. desired_version d' j =
    (if j \<in> set is then map_option (\<lambda>v. v + 1) (desired_version d j) else desired_version d j))"
  using assms(2-)
proof (induction "is" arbitrary: d)
  case (Cons i "is")
  from Cons.prems(3) obtain d1 where d1: "f i d = Inr d1" "rfold f is d1 = Inr d'" by (auto simp: rbind_Inr_conv)
  note s = step [OF Cons.prems(1) d1(1)]
  have "distinct is" using Cons.prems(2) by simp
  from Cons.IH [OF conjunct1 [OF s] this d1(2)] s Cons.prems(2) show ?case by auto
qed simp

lemma distinct_assignmentNodeIDs: "unique_by akey (db_assignments d) \<Longrightarrow> distinct (assignmentNodeIDs u d)"
  unfolding assignmentNodeIDs_def distinct_sort by (rule distinct_user_nodes [where u = u]) simp

definition live_lists :: "string \<Rightarrow> string \<Rightarrow> db \<Rightarrow> bool" where
  "live_lists u i d \<longleftrightarrow> (\<exists>s\<in>set (db_snapshots d). s_node_id s = i \<and> s_superseded_at s = None \<and>
     u \<in> du_id ` set (ds_users (s_snapshot s)))"

text \<open>A bump taken while the user is archived publishes a snapshot without the user.\<close>

lemma bump_unlists:
  assumes "bumpNodeSnapshot e i now d = Inr (v, d')"
    and "\<forall>w. find_user u d = Some w \<longrightarrow> u_archived_at w \<noteq> None"
  shows "\<not> live_lists u i d'" and "j \<noteq> i \<Longrightarrow> live_lists u j d' = live_lists u j d"
proof -
  from assms(1) obtain n :: node_row and snap where
    b: "build_snapshot i (n_adapter_type n) v now (bumped i v now d) = Inr snap"
    and d': "db_snapshots d' = db_snapshots (bumped i v now d) @ [snapshot_row_of e now snap]"
    by (auto simp: bumpNodeSnapshot_Inr)
  have "u \<notin> du_id ` set (ds_users snap)"
  proof
    assume "u \<in> du_id ` set (ds_users snap)"
    then obtain du where du: "du \<in> set (ds_users snap)" "du_id du = u" by auto
    from snapshot_user_sound [OF b du(1)] obtain a w m c where
      r: "(a, w, m, c) \<in> set (snapshot_rows i (bumped i v now d))"
      and o1: "desired_user_of (n_adapter_type n) now (a, w, m, c) = Inr du" by blast
    from r have w: "find_user (a_user_id a) d = Some w" "u_archived_at w = None"
      by (auto simp: snapshot_rows_iff bumped_def find_user_def)
    moreover have "a_user_id a = u" using desired_user_of_fields(1) [OF o1] du(2) find_userD [OF w(1)] by simp
    ultimately show False using assms(2) by auto
  qed
  moreover have "s_node_id (snapshot_row_of e now snap) = i" "s_snapshot (snapshot_row_of e now snap) = snap"
    using build_snapshot_fields [OF b] by (simp_all add: snapshot_row_of_def)
  ultimately show "\<not> live_lists u i d'" "j \<noteq> i \<Longrightarrow> live_lists u j d' = live_lists u j d"
    by (auto simp: live_lists_def d' bumped_def set_sql_update supersede_row_def split: if_splits)
qed

lemma archive_step_unlists:
  assumes "archive_step e u now i d = Inr d'" and "\<forall>w. find_user u d = Some w \<longrightarrow> u_archived_at w \<noteq> None"
  shows "db_users d' = db_users d" "db_credentials d' = db_credentials d" "\<not> live_lists u i d'"
    and "j \<noteq> i \<Longrightarrow> live_lists u j d' = live_lists u j d"
proof -
  from assms(1) obtain t v d1 where b: "bumpNodeSnapshot e i now (d\<lparr>db_kicks := t\<rparr>) = Inr (v, d1)"
    and d': "d' = markAssignmentPending u i v now d1"
    by (auto simp: archive_step_def bump_pending_def rbind_Inr_conv dest!: requestKickTx_frame)
  have a: "\<forall>w. find_user u (d\<lparr>db_kicks := t\<rparr>) = Some w \<longrightarrow> u_archived_at w \<noteq> None"
    using assms(2) by (simp add: find_user_def)
  show "db_users d' = db_users d" "db_credentials d' = db_credentials d" "\<not> live_lists u i d'"
    "j \<noteq> i \<Longrightarrow> live_lists u j d' = live_lists u j d"
    using bump_tables [OF b] bump_unlists [OF b a]
    by (simp_all add: d' markAssignmentPending_alt live_lists_def)
qed

lemma archive_loop_unlists:
  assumes "rfold (archive_step e u now) is d = Inr d'"
    and "\<forall>w. find_user u d = Some w \<longrightarrow> u_archived_at w \<noteq> None"
  shows "db_users d' = db_users d \<and> db_credentials d' = db_credentials d \<and>
    (\<forall>i\<in>set is. \<not> live_lists u i d') \<and> (\<forall>j. \<not> live_lists u j d \<longrightarrow> \<not> live_lists u j d')"
  using assms
proof (induction "is" arbitrary: d)
  case (Cons i "is")
  from Cons.prems(1) obtain d1 where d1: "archive_step e u now i d = Inr d1"
    and r: "rfold (archive_step e u now) is d1 = Inr d'" by (auto simp: rbind_Inr_conv)
  note s = archive_step_unlists [OF d1 Cons.prems(2)]
  have "\<forall>w. find_user u d1 = Some w \<longrightarrow> u_archived_at w \<noteq> None"
    using Cons.prems(2) s(1) by (simp add: find_user_def)
  from Cons.IH [OF r this] s show ?case by (metis set_ConsD)
qed simp

lemma archived_user:
  "\<forall>w\<in>set (db_users (archived_state i now d)). u_id w = i \<longrightarrow> u_archived_at w \<noteq> None"
  by (simp add: archived_state_def update_users_def update_credentials_def ball_sql_update)

lemma archived_credentials:
  "\<forall>c\<in>set (db_credentials (archived_state i now d)). c_user_id c = i \<longrightarrow>
     c_state c \<noteq> ''staged'' \<and> c_state c \<noteq> ''applied''"
  by (simp add: archived_state_def update_users_def update_credentials_def ball_sql_update revoke_row_def)

interpretation rotate: row_update akey "rotate_row cid now" for cid now
  by unfold_locales (simp add: rotate_row_def akey_def)

lemma rotation_guard_Inr:
  "rotation_guard a n = Inr p \<Longrightarrow> a_state a = ''applied'' \<and> a_desired_version a \<le> a_applied_version a \<and>
     a_applied_credential_id a = Some (a_desired_credential_id a) \<and> a_management_mode a = ''managed'' \<and>
     a_desired_credential_id a \<noteq> ''''"
  by (auto simp: rotation_guard_def Let_def coalesce_def split: if_splits option.splits)

lemma rotate_staged:
  assumes ok: "fleet_ok d" and t: "rotateAssignmentCredentialTx e u i now mk d = Inr (cc, d')"
  shows "staged_for e mk u i (cc_secret cc) d'" and "db_users d' = db_users d"
    and "\<exists>a a'. find_assignment i u d = Some a \<and> find_assignment i u d' = Some a' \<and>
      a_state a = ''applied'' \<and> a_applied_credential_id a = Some (a_desired_credential_id a) \<and>
      a_applied_credential_id a' = a_applied_credential_id a \<and>
      a_desired_credential_id a' \<notin> c_id ` set (db_credentials d)"
    and "\<exists>c. db_credentials d' = db_credentials d @ [c]"
    and "desired_version d' j = (if j = i then map_option (\<lambda>v. v + 1) (desired_version d j) else desired_version d j)"
proof -
  from rotate_Inr [OF t] obtain a n p c v d1 where
    f: "find_assignment i u d = Some a" and g: "rotation_guard a n = Inr p"
    and cf: "credential_for e mk u i p (cc_secret cc) c" and cfresh: "\<forall>x\<in>set (db_credentials d). c_id x \<noteq> c_id c"
    and b: "bumpNodeSnapshot e i now (update_assignments (\<lambda>x. a_id x = a_id a) (rotate_row (c_id c) now)
      (with_credential c (db_next_id d + 3) d)) = Inr (v, d1)"
    and d': "d' = markAssignmentPending u i v now d1" by blast
  let ?d0 = "update_assignments (\<lambda>x. a_id x = a_id a) (rotate_row (c_id c) now) (with_credential c (db_next_id d + 3) d)"
  let ?a = "rotate_row (c_id c) now a"
  have vo: "versions_ok d" and uniq: "unique_by n_id (db_nodes d)" using ok by (simp_all add: fleet_ok_def versions_ok_def)
  have v0: "versions_ok ?d0"
    using vo versions_ok_cong [of ?d0 d] by (simp add: update_assignments_def with_credential_def)
  note tab = bump_tables [OF b] and gi = rotation_guard_Inr [OF g]
  have f0: "find_assignment i u ?d0 = Some ?a"
    using f by (simp add: find_assignment_def update_assignments_def with_credential_def rotate.lookup_update)
  then have fa: "find_assignment i u d' = Some (pending_row v now ?a)"
    unfolding d' find_assignment_pending by (simp add: find_assignment_def tab)
  from bump_active_node [OF _ b] uniq obtain m where m: "find_active_node i d1 = Some (bump_row v now m)"
    by (auto simp: update_assignments_def with_credential_def)
  have fn: "find_active_node i d' = Some (bump_row v now m)"
    using m by (simp add: d' find_active_node_def markAssignmentPending_alt)
  have fc: "find_credential (c_id c) d' = Some c"
    using find_credential_new [OF cfresh]
    by (simp add: d' find_credential_def markAssignmentPending_alt tab update_assignments_def)
  have prot: "c_protocol c = p" using cf by (simp add: credential_for_def)
  show "staged_for e mk u i (cc_secret cc) d'"
    unfolding staged_for_def
    by (rule exI [of _ "pending_row v now ?a"], rule exI [of _ "bump_row v now m"], rule exI [of _ c])
      (use cf fc gi in \<open>simp add: fa fn prot, simp add: pending_row_def bump_row_def rotate_row_def\<close>)
  show "db_users d' = db_users d" "\<exists>c. db_credentials d' = db_credentials d @ [c]"
    by (simp_all add: d' markAssignmentPending_alt tab update_assignments_def with_credential_def)
  show "\<exists>a a'. find_assignment i u d = Some a \<and> find_assignment i u d' = Some a' \<and>
      a_state a = ''applied'' \<and> a_applied_credential_id a = Some (a_desired_credential_id a) \<and>
      a_applied_credential_id a' = a_applied_credential_id a \<and>
      a_desired_credential_id a' \<notin> c_id ` set (db_credentials d)"
    by (rule exI [of _ a], rule exI [of _ "pending_row v now ?a"])
      (use f fa gi cfresh in \<open>auto simp: pending_row_def rotate_row_def\<close>)
  have dv: "desired_version ?d0 = desired_version d" "desired_version d' = desired_version d1"
    by (rule desired_version_cong, simp add: update_assignments_def with_credential_def)
      (rule desired_version_cong, simp add: d' markAssignmentPending_alt)
  show "desired_version d' j = (if j = i then map_option (\<lambda>v. v + 1) (desired_version d j) else desired_version d j)"
    using bump_version [OF v0 b] bump_version_other [OF b, of j] unfolding dv
    by (auto simp: dv(1) [symmetric] desired_version_def)
qed

section \<open>Searching\<close>

text \<open>The pattern built from the search text matches it literally, folding ASCII case.\<close>

definition like_special :: "char \<Rightarrow> bool" where
  "like_special c \<longleftrightarrow> c = CHR ''%'' \<or> c = CHR ''_'' \<or> c = CHR 0x5C"

lemma escapeLike_concat: "escapeLike s = concat (map (\<lambda>c. if like_special c then [CHR 0x5C, c] else [c]) s)"
  by (induction s) (simp_all add: escapeLike_def ReplaceAll_def like_special_def)

lemma nocase_Cons: "nocase (c # s) = nocase [c] @ nocase s" "nocase [] = []"
  by (simp_all add: nocase_def)

lemma length_nocase [simp]: "length (nocase s) = length s"
  by (simp add: nocase_def)

lemma like_percent [simp]:
  "sql_like (CHR ''%'' # p) [] = sql_like p []"
  "sql_like (CHR ''%'' # p) (x # t) \<longleftrightarrow> sql_like p (x # t) \<or> sql_like (CHR ''%'' # p) t"
  by (subst sql_like.simps(2), simp)+

lemma like_literal:
  "\<not> like_special c \<Longrightarrow> sql_like (c # p) t \<longleftrightarrow> t \<noteq> [] \<and> nocase [hd t] = nocase [c] \<and> sql_like p (tl t)"
  by (simp add: sql_like.simps(2) [of c] like_special_def)

lemma like_quoted:
  "sql_like (CHR 0x5C # c # p) t \<longleftrightarrow> t \<noteq> [] \<and> nocase [hd t] = nocase [c] \<and> sql_like p (tl t)"
  by (simp add: sql_like.simps(2) [of "CHR 0x5C"])

lemma like_escaped:
  "sql_like (escapeLike s @ p) t \<longleftrightarrow> (\<exists>a b. t = a @ b \<and> nocase a = nocase s \<and> sql_like p b)"
proof (induction s arbitrary: t)
  case Nil
  then show ?case by (simp add: escapeLike_def ReplaceAll_def nocase_def)
next
  case (Cons c s)
  have one: "sql_like (escapeLike (c # s) @ p) t \<longleftrightarrow> t \<noteq> [] \<and> nocase [hd t] = nocase [c] \<and> sql_like (escapeLike s @ p) (tl t)"
    by (cases "like_special c") (simp_all add: escapeLike_concat like_literal like_quoted)
  show ?case
  proof
    assume "sql_like (escapeLike (c # s) @ p) t"
    then obtain x t' a b where t: "t = x # t'" "nocase [x] = nocase [c]" "t' = a @ b" "nocase a = nocase s" "sql_like p b"
      unfolding one Cons.IH by (cases t) auto
    then show "\<exists>a b. t = a @ b \<and> nocase a = nocase (c # s) \<and> sql_like p b"
      by (intro exI [of _ "x # a"] exI [of _ b]) (simp add: nocase_Cons(1) [of x a] nocase_Cons(1) [of c s])
  next
    assume "\<exists>a b. t = a @ b \<and> nocase a = nocase (c # s) \<and> sql_like p b"
    then obtain x a b where "t = (x # a) @ b" "nocase (x # a) = nocase (c # s)" "sql_like p b"
      by (metis length_nocase length_Suc_conv)
    then show "sql_like (escapeLike (c # s) @ p) t"
      unfolding one Cons.IH by (auto simp: nocase_def)
  qed
qed

lemma like_any: "sql_like [CHR ''%''] t"
  by (induction t) simp_all

lemma like_prefix: "sql_like (CHR ''%'' # p) t \<longleftrightarrow> (\<exists>a b. t = a @ b \<and> sql_like p b)"
proof (induction t)
  case (Cons x t)
  then show ?case by (auto simp: Cons_eq_append_conv)
qed simp

lemma like_substring:
  "sql_like (''%'' @ escapeLike s @ ''%'') t \<longleftrightarrow> (\<exists>a m b. t = a @ m @ b \<and> nocase m = nocase s)"
proof -
  have "sql_like (''%'' @ escapeLike s @ ''%'') t \<longleftrightarrow> (\<exists>a b. t = a @ b \<and> sql_like (escapeLike s @ ''%'') b)"
    using like_prefix [of "escapeLike s @ ''%''" t] by simp
  then show ?thesis by (auto simp: like_escaped like_any)
qed

section \<open>Properties\<close>

definition sample_key :: string where "sample_key = replicate 32 CHR ''k''"

definition sample_unassigned :: db where "sample_unassigned = sample_db\<lparr>db_assignments := []\<rparr>"

lemma sample_fleet_ok: "fleet_ok sample_db" "fleet_ok sample_unassigned"
proof -
  show ok: "fleet_ok sample_db"
    using sample_ledger_ok sample_versions_ok by (simp add: fleet_ok_def items_known_def sample_db_def)
  show "fleet_ok sample_unassigned"
    using fleet_ok_delete_assignments [OF ok, of "\<lambda>_. True"] by (simp add: sample_unassigned_def sql_delete_def)
qed

text \<open>C31: Assigning a user restores the accounting of the pair: the new assignment is enabled and pending at
  the node's new desired version, its traffic counters are exactly what the ledger of accepted
  batches accounts to the user on that node (also from before an earlier unassignment), and
  only this node's version moves, by one.\<close>

theorem assign_restores_ledger:
  assumes "fleet_ok d" and "AssignUser e u i limit now mk d = (Inr (w, cc), d')"
  shows "fleet_ok d' \<and> (\<exists>a. find_assignment i u d' = Some a \<and> a_enabled a \<and> a_state a = ''pending'' \<and>
      a_traffic_limit a = limit \<and>
      desired_version d' i = Some (a_desired_version a) \<and>
      a_upload a = sum_by (accounted (i, u)) bi_upload (db_batch_items d) \<and>
      a_download a = sum_by (accounted (i, u)) bi_download (db_batch_items d) \<and>
      a_used a = a_upload a + a_download a \<and> a_used a \<le> MaxInt64) \<and>
    (\<forall>j. desired_version d' j = (if j = i then map_option (\<lambda>v. v + 1) (desired_version d j) else desired_version d j))"
proof -
  have ok': "fleet_ok d'" using fleet_ok_AssignUser [OF assms(1), of e u i limit now mk] assms(2) by simp
  from assms(2) have t: "assignUserTxWithMode e u i limit ''managed'' 0 now mk d = Inr (cc, d')"
    by (auto simp: AssignUser_def then_get_user_def assignUserTx_def transact_def rbind_Inr_conv
        split: sum.splits if_splits prod.splits)
  note s = assign_staged [OF assms(1) t]
  from s(1) obtain a n where a: "find_assignment i u d' = Some a" "a_state a = ''pending''"
    "find_active_node i d' = Some n" "a_desired_version a = n_desired_version n" by (auto simp: staged_for_def)
  have "find_node i d' = Some n" using ok' a(3) by (auto simp: fleet_ok_def versions_ok_def intro: find_active_find_node)
  moreover have "assignment_counts (db_batch_items d') a" and "akey a = (i, u)"
    using ok' find_assignmentD [OF a(1)] by (auto simp: fleet_ok_def ledger_ok_def counters_ok_def ledger_assignments_def)
  ultimately show ?thesis
    using ok' s(3-5) a by (auto simp: desired_version_def assignment_counts_def)
qed

definition sample_assigned :: "(store_error + user \<times> created_credential) \<times> db" where
  "sample_assigned = AssignUser sample_env ''u1'' ''n1'' 500 sample_now sample_key sample_unassigned"

lemma sample_assigned_Inr: "sample_assigned = (Inr (projr (fst sample_assigned)), snd sample_assigned)"
proof -
  have "\<not> isl (fst sample_assigned)" by code_simp
  then show ?thesis by (simp add: prod_eq_iff)
qed

lemma assign_restores_ledger_witness:
  "fleet_ok (snd sample_assigned) \<and> desired_version (snd sample_assigned) ''n1'' = Some 2 \<and>
   (\<exists>a. find_assignment ''n1'' ''u1'' (snd sample_assigned) = Some a \<and> a_traffic_limit a = 500)"
proof -
  have "desired_version sample_unassigned ''n1'' = Some 1" by code_simp
  moreover obtain w cc where "AssignUser sample_env ''u1'' ''n1'' 500 sample_now sample_key sample_unassigned =
      (Inr (w, cc), snd sample_assigned)"
    using sample_assigned_Inr unfolding sample_assigned_def by (metis surj_pair)
  ultimately show ?thesis
    using assign_restores_ledger [OF sample_fleet_ok(2), of sample_env "''u1''" "''n1''" 500 sample_now sample_key w cc
        "snd sample_assigned"] by auto
qed

text \<open>C32: A secret is never lost: right after a user was assigned to a node, revealing the credential of that
  assignment under the same master key returns exactly the secret that was handed out, and the
  verifier stored with it is the SHA-256 of that secret.\<close>

theorem assigned_secret_revealed:
  assumes "fleet_ok d" and "crypto_ok e" and "AssignUser e u i limit now mk d = (Inr (w, cc), d')"
  shows "(\<exists>r. RevealAssignmentCredential e u i mk d' = Inr r \<and> cc_secret r = cc_secret cc) \<and>
    (\<exists>a c. find_assignment i u d' = Some a \<and> find_credential (a_desired_credential_id a) d' = Some c \<and>
       c_state c = ''staged'' \<and> c_verifier c = TokenHash e (cc_secret cc))"
proof -
  from assms(3) have t: "assignUserTxWithMode e u i limit ''managed'' 0 now mk d = Inr (cc, d')"
    and u: "find_active_user u d \<noteq> None"
    by (auto simp: AssignUser_def then_get_user_def assignUserTx_def transact_def rbind_Inr_conv
        split: sum.splits if_splits prod.splits)
  note s = assign_staged(1,2) [OF assms(1) t]
  have "find_active_user u d' \<noteq> None" using u s(2) by (simp add: find_active_user_def)
  from staged_reveal [OF s(1) assms(2) this] s(1) show ?thesis
    by (auto simp: staged_for_def credential_for_def TokenHash_def)
qed

lemma assigned_secret_revealed_witness:
  "cc_secret (projr (RevealAssignmentCredential sample_env ''u1'' ''n1'' sample_key (snd sample_assigned))) =
   cc_secret (snd (projr (fst sample_assigned)))"
proof -
  obtain w cc where a: "AssignUser sample_env ''u1'' ''n1'' 500 sample_now sample_key sample_unassigned =
      (Inr (w, cc), snd sample_assigned)"
    using sample_assigned_Inr unfolding sample_assigned_def by (metis surj_pair)
  then have "snd (projr (fst sample_assigned)) = cc" unfolding sample_assigned_def by (metis fst_conv snd_conv sum.sel(2))
  with assigned_secret_revealed [OF sample_fleet_ok(2) sample_crypto_ok a] show ?thesis by auto
qed


definition sample_rotated :: "(store_error + user \<times> created_credential) \<times> db" where
  "sample_rotated = RotateAssignmentCredential sample_env ''u1'' ''n1'' sample_now sample_key sample_db"


text \<open>C30: Archiving a user ends all access: the user is archived, no credential of the user is left staged or
  applied, every node the user was assigned to gets a new desired version (and no other
  node), and the live snapshot of those nodes no longer lists the user.\<close>

theorem archive_ends_access:
  assumes "fleet_ok d" and "ArchiveUser e i now d = (Inr (), d')"
  shows "find_active_user i d' = None \<and>
    (\<forall>c\<in>set (db_credentials d'). c_user_id c = i \<longrightarrow> c_state c \<noteq> ''staged'' \<and> c_state c \<noteq> ''applied'') \<and>
    (\<forall>j. desired_version d' j = (if j \<in> set (assignmentNodeIDs i d)
       then map_option (\<lambda>v. v + 1) (desired_version d j) else desired_version d j)) \<and>
    (\<forall>j\<in>set (assignmentNodeIDs i d). \<not> live_lists i j d')"
proof -
  from assms(2) have r: "rfold (archive_step e i now) (assignmentNodeIDs i d) (archived_state i now d) = Inr d'"
    by (simp add: ArchiveUser_Inr)
  have "\<forall>w. find_user i (archived_state i now d) = Some w \<longrightarrow> u_archived_at w \<noteq> None"
    using archived_user by (auto dest!: find_userD)
  note l = archive_loop_unlists [OF r this]
  have active: "find_active_user i d' = None"
    using archived_user [of i now d] conjunct1 [OF l] by (auto simp: find_active_user_def sql_first_None)
  have dist: "distinct (assignmentNodeIDs i d)" and vo: "versions_ok (archived_state i now d)"
    using assms(1) versions_ok_cong [of "archived_state i now d" d]
    by (simp_all add: fleet_ok_def ledger_ok_def counters_ok_def ledger_assignments_def distinct_assignmentNodeIDs
        archived_state_def update_users_def update_credentials_def)
  have "desired_version (archived_state i now d) = desired_version d"
    by (rule desired_version_cong) (simp add: archived_state_def update_users_def update_credentials_def)
  with versions_loop [OF archive_step_version vo dist r] l active archived_credentials [of i now d]
  show ?thesis by simp
qed

lemma archive_ends_access_witness:
  "find_active_user ''u1'' (snd (ArchiveUser sample_env ''u1'' sample_now sample_db)) = None \<and>
   desired_version (snd (ArchiveUser sample_env ''u1'' sample_now sample_db)) ''n1'' = Some 2"
proof -
  have "\<not> isl (fst (ArchiveUser sample_env ''u1'' sample_now sample_db))" by code_simp
  then have a: "ArchiveUser sample_env ''u1'' sample_now sample_db =
      (Inr (), snd (ArchiveUser sample_env ''u1'' sample_now sample_db))"
    by (metis (full_types) old.unit.exhaust prod.collapse sum.collapse(2))
  have "desired_version sample_db ''n1'' = Some 1" "''n1'' \<in> set (assignmentNodeIDs ''u1'' sample_db)" by code_simp+
  with archive_ends_access [OF sample_fleet_ok(1) a] show ?thesis by simp
qed

text \<open>A text column contains the search text.\<close>

definition contains :: "string \<Rightarrow> string \<Rightarrow> bool" where
  "contains s t \<longleftrightarrow> (\<exists>a m b. t = a @ m @ b \<and> nocase m = nocase s)"

definition found_by :: "string \<Rightarrow> user_row \<Rightarrow> bool" where
  "found_by s u \<longleftrightarrow> u_archived_at u = None \<and>
     (s = '''' \<or> contains s (u_username u) \<or> contains s (u_display_name u) \<or> contains s (u_notes u))"

lemma attach_assignments_ids: "map us_id (attach_assignments d us) = map us_id us"
  by (simp add: attach_assignments_def Let_def)

lemma ListUsersPage_eq:
  "\<exists>l k. 1 \<le> l \<and> l \<le> 500 \<and> map us_id (fst (ListUsersPage s limit offset d)) =
     map u_id (take l (drop k (sort_key (\<lambda>u. nocase (u_username u)) (filter (found_by (TrimSpace s)) (db_users d))))) \<and>
   snd (ListUsersPage s limit offset d) = int (length (filter (found_by (TrimSpace s)) (db_users d)))"
proof -
  let ?s = "TrimSpace s" and ?p = "''%'' @ escapeLike (TrimSpace s) @ ''%''"
  have like: "(\<lambda>u. u_archived_at u = None \<and> (?s \<noteq> '''' \<longrightarrow> sql_like ?p (u_username u) \<or>
      sql_like ?p (u_display_name u) \<or> sql_like ?p (u_notes u))) = found_by ?s"
    by (simp add: fun_eq_iff found_by_def contains_def like_substring del: append.simps) blast
  define l where "l = nat (if limit < 1 \<or> limit > 500 then 100 else limit)"
  define k where "k = nat (if offset < 0 then 0 else offset)"
  let ?us = "map scanUser (take l (drop k (sort_key (\<lambda>u. nocase (u_username u)) (filter (found_by ?s) (db_users d)))))"
  have page: "ListUsersPage s limit offset d =
      (if ?us = [] then (?us, int (length (filter (found_by ?s) (db_users d))))
       else (attach_assignments d ?us, int (length (filter (found_by ?s) (db_users d)))))"
    unfolding ListUsersPage_def Let_def like l_def k_def ..
  have "us_id (scanUser u) = u_id u" for u by (simp add: scanUser_def)
  then have ids: "map us_id (map scanUser us) = map u_id us" for us by simp
  have "map us_id (fst (ListUsersPage s limit offset d)) = map us_id ?us"
    by (simp only: page fst_conv attach_assignments_ids split: if_split) simp
  moreover have "1 \<le> l" "l \<le> 500" by (auto simp: l_def)
  moreover have "snd (ListUsersPage s limit offset d) = int (length (filter (found_by ?s) (db_users d)))"
    by (simp only: page split: if_split) simp
  ultimately show ?thesis unfolding ids by blast
qed


end
