(* ===== verification/Agent_Registry.thy ===== *)
theory Agent_Registry
  imports Users
begin

text \<open>
  Agents of nodes (internal/store/agent.go and the capability helpers of reality.go):
  enrollment with a one-time token and its replay capsule, authentication, heartbeats, the
  snapshot an agent fetches and the acknowledgement of an applied or failed snapshot.
\<close>

section \<open>Data\<close>

definition MajorVersion :: int where "MajorVersion = 1"

record enrollment_token =
  en_id :: string
  en_node_id :: string
  en_token :: string
  en_expires_at :: gotime

record enrollment_facts =
  ef_installation_id :: string
  ef_request_id :: string
  ef_agent_version :: string
  ef_os_name :: string
  ef_os_version :: string
  ef_architecture :: string
  ef_adapter_type :: string
  ef_core_name :: string
  ef_capabilities :: "string list"

text \<open>\<open>HeartbeatRequest\<close> with its nested structs flattened; a nil list of capabilities is
  \<open>None\<close>.\<close>

record heartbeat =
  hb_installation_id :: string
  hb_applied_version :: int
  hb_capabilities :: "string list option"
  hb_agent_version :: string
  hb_agent_protocol :: int
  hb_core_name :: string
  hb_core_version :: string
  hb_core_running :: bool
  hb_adapter_version :: string
  hb_adapter_status :: string
  hb_adapter_error_code :: string
  hb_adapter_last_probed_at :: "gotime option"
  hb_host :: host_metrics
  hb_usage_enabled :: bool
  hb_usage_available :: bool
  hb_usage_outbox_batches :: int
  hb_usage_last_sampled_at :: "gotime option"
  hb_usage_last_error_code :: string
  hb_sampled_at :: gotime

record desired_envelope =
  de_snapshot :: desired_snapshot
  de_sha256 :: string
  de_created_at :: gotime

record reality_material =
  rm_key_generation :: int
  rm_public_key :: string
  rm_short_id :: string

section \<open>Capabilities\<close>

definition normalizeAgentCapabilities :: "string list \<Rightarrow> string list" where
  "normalizeAgentCapabilities capabilities =
     sort (remdups (filter (\<lambda>c. c \<noteq> '''' \<and> length c \<le> 64) capabilities))"

definition containsAllCapabilities :: "string list \<Rightarrow> string list \<Rightarrow> bool" where
  "containsAllCapabilities capabilities required = list_all (\<lambda>c. c \<in> set capabilities) required"

definition replace_capabilities :: "string \<Rightarrow> string list \<Rightarrow> gotime \<Rightarrow> db \<Rightarrow> db" where
  "replace_capabilities nodeID capabilities now d = d\<lparr>db_capabilities :=
     sql_delete (\<lambda>c. cap_node_id c = nodeID) (db_capabilities d) @
     map (\<lambda>c. \<lparr> cap_node_id = nodeID, cap_capability = c, cap_reported_at = unixMilli now \<rparr>) capabilities\<rparr>"

definition ListAgentCapabilities :: "string \<Rightarrow> db \<Rightarrow> store_error + string list" where
  "ListAgentCapabilities nodeID d =
     (if find_active_node nodeID d = None then Inl ErrNotFound
      else Inr (sort (map cap_capability (filter (\<lambda>c. cap_node_id c = nodeID) (db_capabilities d)))))"

definition HasAgentCapabilities :: "string \<Rightarrow> string list \<Rightarrow> db \<Rightarrow> store_error + bool" where
  "HasAgentCapabilities nodeID required d =
     rbind (ListAgentCapabilities nodeID d) (\<lambda>capabilities. Inr (list_all (\<lambda>c. c \<in> set capabilities) required))"

section \<open>Enrollment\<close>

definition insert_token :: "token_row \<Rightarrow> db \<Rightarrow> store_error + db" where
  "insert_token t d =
     (if sql_exists (\<lambda>x. et_id x = et_id t \<or> et_token_hash x = et_token_hash t) (db_tokens d)
      then Inl (ErrOther ''insert enrollment token'')
      else Inr (d\<lparr>db_tokens := db_tokens d @ [t]\<rparr>))"

definition new_token_row :: "env \<Rightarrow> enrollment_token \<Rightarrow> string \<Rightarrow> gotime \<Rightarrow> token_row" where
  "new_token_row e result adminID now = \<lparr> et_id = en_id result, et_node_id = en_node_id result,
     et_token_hash = TokenHash e (en_token result), et_expires_at = unixMilli (en_expires_at result),
     et_consumed_at = None, et_bound_installation_id = None, et_bound_request_id = None,
     et_response_ciphertext = None, et_response_expires_at = None, et_created_by = adminID,
     et_created_at = unixMilli now \<rparr>"

definition create_token_body ::
  "env \<Rightarrow> enrollment_token \<Rightarrow> string \<Rightarrow> gotime \<Rightarrow> db \<Rightarrow> store_error + enrollment_token \<times> db" where
  "create_token_body e result adminID now d =
     (if find_active_node (en_node_id result) d = None then Inl ErrNotFound
      else rbind (insert_token (new_token_row e result adminID now) (d\<lparr>db_tokens :=
             sql_delete (\<lambda>t. et_node_id t = en_node_id result \<and> et_consumed_at t = None) (db_tokens d)\<rparr>))
           (\<lambda>d1. Inr (result, d1)))"

text \<open>The token and the id are drawn before the transaction begins.\<close>

definition CreateEnrollmentToken ::
  "env \<Rightarrow> string \<Rightarrow> string \<Rightarrow> gotime \<Rightarrow> duration \<Rightarrow> db \<Rightarrow> (store_error + enrollment_token) \<times> db" where
  "CreateEnrollmentToken e nodeID adminID now lifetime d =
     (let (token, d1) = RandomToken e 32 d; (i, d2) = NewID e d1;
          result = \<lparr> en_id = i, en_node_id = nodeID, en_token = token, en_expires_at = now + lifetime \<rparr> in
      transact (create_token_body e result adminID now) d2)"

definition find_token :: "string \<Rightarrow> db \<Rightarrow> (token_row \<times> node_row) option" where
  "find_token hash d = (case sql_first (\<lambda>t. et_token_hash t = hash) (db_tokens d) of None \<Rightarrow> None
     | Some t \<Rightarrow> map_option (\<lambda>n. (t, n)) (find_active_node (et_node_id t) d))"

definition replay_enrollment ::
  "env \<Rightarrow> token_row \<Rightarrow> enrollment_facts \<Rightarrow> string \<Rightarrow> gotime \<Rightarrow> store_error + enroll_response" where
  "replay_enrollment e t facts masterKey now =
     (case (et_bound_installation_id t, et_bound_request_id t, et_response_expires_at t, et_response_ciphertext t) of
        (Some inst, Some req, Some expires, Some ciphertext) \<Rightarrow>
          if inst \<noteq> ef_installation_id facts \<or> req \<noteq> ef_request_id facts \<or> expires < unixMilli now \<or>
             ciphertext = '''' then Inl ErrConflict
          else rbind (Open e masterKey ciphertext
                 (enrollmentAAD (et_id t) (et_node_id t) (ef_installation_id facts) (ef_request_id facts)))
               (\<lambda>plaintext. case env_enroll_decode e plaintext of
                  None \<Rightarrow> Inl (ErrOther ''decode enrollment replay capsule'')
                | Some response \<Rightarrow> Inr response)
      | _ \<Rightarrow> Inl ErrConflict)"

definition bind_agent_row :: "env \<Rightarrow> enrollment_facts \<Rightarrow> string \<Rightarrow> gotime \<Rightarrow> node_row \<Rightarrow> node_row" where
  "bind_agent_row e facts credential now n = n\<lparr>n_agent := (n_agent n)\<lparr>
       na_installation_id := Some (ef_installation_id facts),
       na_credential_hash := Some (TokenHash e credential), na_version := ef_agent_version facts,
       na_protocol_version := MajorVersion, na_os_name := ef_os_name facts, na_os_version := ef_os_version facts,
       na_architecture := ef_architecture facts, na_core_name := ef_core_name facts, na_core_version := '''',
       na_core_running := False, na_last_seen_at := None, na_last_applied_at := None,
       na_adapter_status := ''unknown'', na_adapter_version := '''', na_adapter_error_code := '''',
       na_adapter_last_probed_at := None, na_adapter_last_discovered_at := None\<rparr>,
     n_status := ''pending'', n_status_reason := '''', n_applied_version := 0, n_updated_at := unixMilli now\<rparr>"

definition desired_credentials :: "string \<Rightarrow> db \<Rightarrow> string list" where
  "desired_credentials nodeID d =
     map a_desired_credential_id (filter (\<lambda>a. a_node_id a = nodeID) (db_assignments d))"

definition unapply_credential_row :: "string list \<Rightarrow> gotime \<Rightarrow> credential_row \<Rightarrow> credential_row" where
  "unapply_credential_row desired now c =
     (if c_id c \<in> set desired then c\<lparr>c_state := ''staged'', c_applied_at := None, c_retired_at := None\<rparr>
      else c\<lparr>c_state := ''retired'', c_retired_at := Some (coalesce (unixMilli now) (c_retired_at c))\<rparr>)"

definition unapply_assignment_row :: "gotime \<Rightarrow> assignment_row \<Rightarrow> assignment_row" where
  "unapply_assignment_row now a = a\<lparr>a_applied_credential_id := None, a_applied_version := 0,
     a_state := ''pending'', a_last_error_code := '''', a_last_error_message := '''', a_last_attempt_at := None,
     a_applied_at := None, a_updated_at := unixMilli now\<rparr>"

definition unapply_reality_row :: "gotime \<Rightarrow> reality_row \<Rightarrow> reality_row" where
  "unapply_reality_row now r = r\<lparr>r_applied_key_generation := 0, r_material_applied_version := 0,
     r_material_reported_at := None, r_updated_at := unixMilli now\<rparr>"

text \<open>A new agent starts from nothing: whatever the previous one had applied is forgotten.\<close>

definition reset_applied :: "env \<Rightarrow> string \<Rightarrow> enrollment_facts \<Rightarrow> string \<Rightarrow> gotime \<Rightarrow> db \<Rightarrow> db" where
  "reset_applied e nodeID facts credential now d =
     (let d1 = update_nodes (\<lambda>n. n_id n = nodeID) (bind_agent_row e facts credential now) d;
          d2 = update_credentials (\<lambda>c. c_node_id c = nodeID \<and> c_state c = ''applied'')
                 (unapply_credential_row (desired_credentials nodeID d1) now) d1;
          d3 = update_assignments (\<lambda>a. a_node_id a = nodeID) (unapply_assignment_row now) d2;
          d4 = d3\<lparr>db_reality := sql_update (\<lambda>r. r_node_id r = nodeID) (unapply_reality_row now) (db_reality d3)\<rparr>
      in replace_capabilities nodeID (normalizeAgentCapabilities (ef_capabilities facts)) now d4)"

definition consume_token_row :: "enrollment_facts \<Rightarrow> string \<Rightarrow> gotime \<Rightarrow> token_row \<Rightarrow> token_row" where
  "consume_token_row facts ciphertext now t = t\<lparr>et_consumed_at := Some (unixMilli now),
     et_bound_installation_id := Some (ef_installation_id facts),
     et_bound_request_id := Some (ef_request_id facts), et_response_ciphertext := Some ciphertext,
     et_response_expires_at := Some (unixMilli (now + 5 * minute))\<rparr>"

definition enroll_body ::
  "env \<Rightarrow> string \<Rightarrow> enrollment_facts \<Rightarrow> string \<Rightarrow> gotime \<Rightarrow> db \<Rightarrow> store_error + enroll_response \<times> db" where
  "enroll_body e token facts masterKey now d =
     (case find_token (TokenHash e token) d of
        None \<Rightarrow> Inl ErrUnauthorized
      | Some (t, n) \<Rightarrow>
     if et_consumed_at t \<noteq> None then
       rbind (replay_enrollment e t facts masterKey now) (\<lambda>response. Inr (response, d))
     else if et_expires_at t < unixMilli now then Inl ErrExpired
     else if n_adapter_type n \<noteq> ef_adapter_type facts then Inl ErrConflict
     else if n_adapter_type n = AdapterSingBoxVLESSReality \<and>
       \<not> containsAllCapabilities (normalizeAgentCapabilities (ef_capabilities facts))
           [''desired_state_v2'', ''credential_material_v1'', ''sing_box_vless_reality'']
     then Inl ErrUnsupported
     else
       let nodeID = et_node_id t;
           (secret, d1) = RandomToken e 32 d;
           credential = ''hya_'' @ nodeID @ ''.'' @ secret;
           response = \<lparr> er_node_id = nodeID, er_node_credential = credential, er_protocol = MajorVersion,
             er_heartbeat_seconds = 15, er_desired_seconds = 10, er_server_time = now \<rparr> in
       rbind (Seal e masterKey (env_enroll_encode e response)
                (enrollmentAAD (et_id t) nodeID (ef_installation_id facts) (ef_request_id facts)) d1)
         (\<lambda>(ciphertext, d2).
       let d3 = reset_applied e nodeID facts credential now d2 in
       Inr (response, d3\<lparr>db_tokens := sql_update (\<lambda>x. et_id x = et_id t \<and> et_consumed_at x = None)
              (consume_token_row facts ciphertext now) (db_tokens d3)\<rparr>)))"

text \<open>A replay returns without a commit; it changes nothing.\<close>

definition EnrollAgent ::
  "env \<Rightarrow> string \<Rightarrow> enrollment_facts \<Rightarrow> string \<Rightarrow> gotime \<Rightarrow> db \<Rightarrow> (store_error + enroll_response) \<times> db" where
  "EnrollAgent e token facts masterKey now = transact (enroll_body e token facts masterKey now)"

section \<open>Authentication\<close>

text \<open>\<open>strings.Cut\<close> at the first separator; \<open>None\<close> when it does not occur.\<close>

fun Cut :: "char \<Rightarrow> string \<Rightarrow> (string \<times> string) option" where
  "Cut c [] = None"
| "Cut c (x # s) = (if x = c then Some ([], s) else map_option (\<lambda>(a, b). (x # a, b)) (Cut c s))"

definition AuthenticateAgent :: "env \<Rightarrow> string \<Rightarrow> db \<Rightarrow> store_error + agent_identity" where
  "AuthenticateAgent e credential d =
     (if \<not> HasPrefix credential ''hya_'' then Inl ErrUnauthorized
      else case Cut (CHR ''.'') (drop 4 credential) of
        None \<Rightarrow> Inl ErrUnauthorized
      | Some (nodePart, _) \<Rightarrow>
          if nodePart = '''' then Inl ErrUnauthorized
          else case find_active_node nodePart d of
            None \<Rightarrow> Inl ErrUnauthorized
          | Some n \<Rightarrow>
              let expected = coalesce '''' (na_credential_hash (n_agent n)) in
              if length expected \<noteq> 32 \<or> TokenHash e credential \<noteq> expected then Inl ErrUnauthorized
              else Inr \<lparr> ai_node_id = n_id n,
                ai_installation_id = coalesce '''' (na_installation_id (n_agent n)),
                ai_adapter_type = n_adapter_type n, ai_enabled = n_enabled n \<rparr>)"

section \<open>Heartbeats\<close>

definition heartbeat_status :: "agent_identity \<Rightarrow> heartbeat \<Rightarrow> string \<times> string" where
  "heartbeat_status identity hb =
     (if \<not> ai_enabled identity then (''disabled'', '''')
      else if hb_adapter_status hb = ''incompatible'' \<or> hb_adapter_status hb = ''unavailable'' \<or>
              hb_adapter_status hb = ''not_configured''
      then (''degraded'', hb_adapter_error_code hb)
      else (''online'', ''''))"

definition heartbeat_row :: "agent_identity \<Rightarrow> heartbeat \<Rightarrow> gotime \<Rightarrow> node_row \<Rightarrow> node_row" where
  "heartbeat_row identity hb now n = n\<lparr>
     n_status := fst (heartbeat_status identity hb), n_status_reason := snd (heartbeat_status identity hb),
     n_agent := (n_agent n)\<lparr>na_version := hb_agent_version hb, na_protocol_version := hb_agent_protocol hb,
       na_core_name := hb_core_name hb, na_core_version := hb_core_version hb, na_core_running := hb_core_running hb,
       na_adapter_status := (if hb_adapter_status hb = '''' then na_adapter_status (n_agent n) else hb_adapter_status hb),
       na_adapter_version := (if hb_adapter_version hb = '''' then na_adapter_version (n_agent n) else hb_adapter_version hb),
       na_adapter_error_code := (if hb_adapter_status hb = '''' then na_adapter_error_code (n_agent n) else hb_adapter_error_code hb),
       na_adapter_last_probed_at := (case nullableUnixMilli (hb_adapter_last_probed_at hb) of
          None \<Rightarrow> na_adapter_last_probed_at (n_agent n) | Some t \<Rightarrow> Some t),
       na_last_seen_at := Some (unixMilli now)\<rparr>,
     n_host := Some (hb_host hb),
     n_usage := \<lparr> nu_enabled = hb_usage_enabled hb, nu_available = hb_usage_available hb,
       nu_outbox_batches = hb_usage_outbox_batches hb, nu_error_code = hb_usage_last_error_code hb,
       nu_sampled_at = nullableUnixMilli (hb_usage_last_sampled_at hb) \<rparr>,
     n_updated_at := unixMilli now\<rparr>"

text \<open>The CHECK constraints the UPDATE can violate.\<close>

definition heartbeat_storable :: "heartbeat \<Rightarrow> bool" where
  "heartbeat_storable hb \<longleftrightarrow> 0 \<le> hb_usage_outbox_batches hb \<and>
     hb_adapter_status hb \<in> {'''', ''unknown'', ''compatible'', ''incompatible'', ''unavailable'', ''not_configured''}"

definition reality_upgrade :: "string list" where
  "reality_upgrade = [''traffic_stats_v1'', ''traffic_outbox_v1'', ''online_snapshot_v1'',
     ''kick_generation_v1'', ''reality_user_control_v1'']"

text \<open>Bump the node, and mark the node itself and all its assignments pending.\<close>

definition mark_node_pending :: "string \<Rightarrow> int \<Rightarrow> gotime \<Rightarrow> db \<Rightarrow> db" where
  "mark_node_pending nodeID version now d =
     update_assignments (\<lambda>a. a_node_id a = nodeID)
       (\<lambda>a. a\<lparr>a_desired_version := version, a_state := ''pending'', a_last_error_code := '''',
              a_last_error_message := '''', a_updated_at := unixMilli now\<rparr>) d"

definition node_pending_row :: "gotime \<Rightarrow> node_row \<Rightarrow> node_row" where
  "node_pending_row now n = n\<lparr>n_status := (if n_enabled n then ''pending'' else ''disabled''),
     n_status_reason := '''', n_updated_at := unixMilli now\<rparr>"

definition record_capabilities ::
  "env \<Rightarrow> agent_identity \<Rightarrow> string list \<Rightarrow> gotime \<Rightarrow> int \<Rightarrow> db \<Rightarrow> store_error + int \<times> db" where
  "record_capabilities e identity reported now desiredVersion d =
     (let nodeID = ai_node_id identity;
          capabilities = normalizeAgentCapabilities reported;
          had = (ai_adapter_type identity = AdapterSingBoxVLESSReality \<and>
                 sql_exists (\<lambda>c. cap_node_id c = nodeID \<and> cap_capability c = ''reality_user_control_v1'')
                   (db_capabilities d));
          d1 = replace_capabilities nodeID capabilities now d in
      if ai_adapter_type identity = AdapterSingBoxVLESSReality \<and> \<not> had \<and>
         containsAllCapabilities capabilities reality_upgrade
      then rbind (bumpNodeSnapshot e nodeID now d1) (\<lambda>(version, d2).
           Inr (version, mark_node_pending nodeID version now
                  (update_nodes (\<lambda>n. n_id n = nodeID) (node_pending_row now) d2)))
      else Inr (desiredVersion, d1))"

definition truncate_minute :: "gotime \<Rightarrow> gotime" where
  "truncate_minute t = t - t mod minute"

definition mkey :: "metric_row \<Rightarrow> string \<times> int" where
  "mkey r = (m_node_id r, m_bucket_at r)"

definition record_metrics :: "string \<Rightarrow> heartbeat \<Rightarrow> db \<Rightarrow> db" where
  "record_metrics nodeID hb d =
     (let r = \<lparr> m_node_id = nodeID, m_bucket_at = unixMilli (truncate_minute (hb_sampled_at hb)),
                m_host = hb_host hb, m_sampled_at = unixMilli (hb_sampled_at hb) \<rparr>
      in d\<lparr>db_metrics := sql_upsert mkey r (\<lambda>x. x\<lparr>m_host := m_host r, m_sampled_at := m_sampled_at r\<rparr>) (db_metrics d)\<rparr>)"

definition clear_capsule :: "agent_identity \<Rightarrow> db \<Rightarrow> db" where
  "clear_capsule identity d = d\<lparr>db_tokens := sql_update (\<lambda>t. et_node_id t = ai_node_id identity \<and>
       et_bound_installation_id t = Some (ai_installation_id identity) \<and> et_response_ciphertext t \<noteq> None)
     (\<lambda>t. t\<lparr>et_response_ciphertext := None, et_response_expires_at := None\<rparr>) (db_tokens d)\<rparr>"

definition heartbeat_body ::
  "env \<Rightarrow> agent_identity \<Rightarrow> heartbeat \<Rightarrow> gotime \<Rightarrow> db \<Rightarrow> store_error + int \<times> db" where
  "heartbeat_body e identity hb now d =
     (case sql_first (\<lambda>n. n_id n = ai_node_id identity \<and>
             na_installation_id (n_agent n) = Some (ai_installation_id identity)) (db_nodes d) of
        None \<Rightarrow> Inl ErrConflict
      | Some n \<Rightarrow>
     if \<not> heartbeat_storable hb then Inl (ErrOther ''update heartbeat'')
     else
     let d1 = update_nodes (\<lambda>x. n_id x = ai_node_id identity \<and>
                na_installation_id (n_agent x) = Some (ai_installation_id identity)) (heartbeat_row identity hb now) d in
     rbind (case hb_capabilities hb of None \<Rightarrow> Inr (n_desired_version n, d1)
            | Some reported \<Rightarrow> record_capabilities e identity reported now (n_desired_version n) d1)
       (\<lambda>(desiredVersion, d2).
     Inr (desiredVersion, clear_capsule identity (record_metrics (ai_node_id identity) hb d2))))"

definition RecordHeartbeat ::
  "env \<Rightarrow> agent_identity \<Rightarrow> heartbeat \<Rightarrow> gotime \<Rightarrow> db \<Rightarrow> (store_error + int) \<times> db" where
  "RecordHeartbeat e identity hb now d =
     (if ai_installation_id identity \<noteq> hb_installation_id hb then (Inl ErrConflict, d)
      else transact (heartbeat_body e identity hb now) d)"

section \<open>Snapshots and acknowledgements\<close>

definition GetDesiredSnapshot :: "string \<Rightarrow> int \<Rightarrow> db \<Rightarrow> store_error + desired_envelope" where
  "GetDesiredSnapshot nodeID version d =
     (case sql_first (\<lambda>s. skey s = (nodeID, version)) (db_snapshots d) of
        None \<Rightarrow> Inl ErrNotFound
      | Some s \<Rightarrow> Inr \<lparr> de_snapshot = s_snapshot s, de_sha256 = b64_encode (s_sha256 s),
                        de_created_at = unixTime (s_created_at s) \<rparr>)"

definition validAppliedRealityMaterial :: "reality_material option \<Rightarrow> bool" where
  "validAppliedRealityMaterial material =
     (case material of None \<Rightarrow> False
      | Some r \<Rightarrow> 1 \<le> rm_key_generation r \<and> length (rm_short_id r) = 16 \<and>
          (case b64_decode (rm_public_key r) of None \<Rightarrow> False | Some key \<Rightarrow> length key = 32) \<and>
          list_all (\<lambda>c. c \<in> set ''0123456789abcdef'') (rm_short_id r))"

definition store_material ::
  "string \<Rightarrow> int \<Rightarrow> reality_material option \<Rightarrow> gotime \<Rightarrow> db \<Rightarrow> store_error + db" where
  "store_material nodeID version material now d =
     (case material of
        None \<Rightarrow> Inl ErrConflict
      | Some m \<Rightarrow>
     if \<not> validAppliedRealityMaterial material then Inl ErrConflict
     else case find_reality nodeID d of
        None \<Rightarrow> Inl (ErrOther ''read desired Reality key generation'')
      | Some r \<Rightarrow>
     if rm_key_generation m \<noteq> r_desired_key_generation r then Inl ErrVersionConflict
     else if r_applied_key_generation r = rm_key_generation m \<and> (r_public_key r \<noteq> '''' \<or> r_short_id r \<noteq> '''') \<and>
             (r_public_key r \<noteq> rm_public_key m \<or> r_short_id r \<noteq> rm_short_id m)
     then Inl ErrConflict
     else Inr (d\<lparr>db_reality := sql_update (\<lambda>x. r_node_id x = nodeID \<and> r_desired_key_generation x = rm_key_generation m)
       (\<lambda>x. x\<lparr>r_applied_key_generation := rm_key_generation m, r_public_key := rm_public_key m,
              r_short_id := rm_short_id m, r_material_applied_version := version,
              r_material_reported_at := Some (unixMilli now), r_updated_at := unixMilli now\<rparr>) (db_reality d)\<rparr>))"

definition applied_node_row :: "bool \<Rightarrow> int \<Rightarrow> gotime \<Rightarrow> node_row \<Rightarrow> node_row" where
  "applied_node_row enabled version now n = n\<lparr>n_applied_version := version,
     n_status := (if enabled then ''online'' else ''disabled''), n_status_reason := '''',
     n_agent := (n_agent n)\<lparr>na_last_applied_at := Some (unixMilli now)\<rparr>, n_updated_at := unixMilli now\<rparr>"

definition retire_row :: "gotime \<Rightarrow> credential_row \<Rightarrow> credential_row" where
  "retire_row now c = c\<lparr>c_state := ''retired'', c_retired_at := Some (unixMilli now)\<rparr>"

definition apply_credential_row :: "gotime \<Rightarrow> credential_row \<Rightarrow> credential_row" where
  "apply_credential_row now c = c\<lparr>c_state := ''applied'', c_applied_at := Some (coalesce (unixMilli now) (c_applied_at c))\<rparr>"

definition applied_assignment_row :: "int \<Rightarrow> gotime \<Rightarrow> assignment_row \<Rightarrow> assignment_row" where
  "applied_assignment_row version now a = a\<lparr>a_applied_credential_id := Some (a_desired_credential_id a),
     a_applied_version := version, a_state := ''applied'', a_last_error_code := '''', a_last_error_message := '''',
     a_last_attempt_at := Some (unixMilli now), a_applied_at := Some (unixMilli now), a_updated_at := unixMilli now\<rparr>"

definition record_applied :: "agent_identity \<Rightarrow> int \<Rightarrow> gotime \<Rightarrow> db \<Rightarrow> db" where
  "record_applied identity version now d =
     (let nodeID = ai_node_id identity;
          desired = desired_credentials nodeID d;
          d1 = update_nodes (\<lambda>n. n_id n = nodeID) (applied_node_row (ai_enabled identity) version now) d;
          d2 = update_credentials (\<lambda>c. c_node_id c = nodeID \<and> c_state c = ''applied'' \<and> c_id c \<notin> set desired)
                 (retire_row now) d1;
          d3 = update_credentials (\<lambda>c. c_node_id c = nodeID \<and> c_state c = ''staged'' \<and> c_id c \<in> set desired)
                 (apply_credential_row now) d2
      in update_assignments (\<lambda>a. a_node_id a = nodeID \<and> a_desired_version a \<le> version)
           (applied_assignment_row version now) d3)"

definition record_failed :: "string \<Rightarrow> int \<Rightarrow> string \<Rightarrow> string \<Rightarrow> gotime \<Rightarrow> db \<Rightarrow> db" where
  "record_failed nodeID version errorCode message0 now d =
     (let message = take 240 message0;
          reason = (if message \<noteq> '''' then errorCode @ '': '' @ message else errorCode);
          d1 = update_nodes (\<lambda>n. n_id n = nodeID)
                 (\<lambda>n. n\<lparr>n_status := ''degraded'', n_status_reason := reason, n_updated_at := unixMilli now\<rparr>) d
      in update_assignments (\<lambda>a. a_node_id a = nodeID \<and> a_desired_version a \<le> version)
           (\<lambda>a. a\<lparr>a_state := ''failed'', a_last_error_code := errorCode, a_last_error_message := message,
                  a_last_attempt_at := Some (unixMilli now), a_updated_at := unixMilli now\<rparr>) d1)"

definition acknowledge_body ::
  "agent_identity \<Rightarrow> int \<Rightarrow> string \<Rightarrow> string \<Rightarrow> string \<Rightarrow> string \<Rightarrow> reality_material option \<Rightarrow> gotime \<Rightarrow>
     db \<Rightarrow> store_error + unit \<times> db" where
  "acknowledge_body identity version hash status errorCode message reality now d =
     (case (sql_first (\<lambda>s. skey s = (ai_node_id identity, version)) (db_snapshots d),
            find_active_node (ai_node_id identity) d) of
        (Some s, Some n) \<Rightarrow>
          if version \<noteq> n_desired_version n \<or> hash \<noteq> s_sha256 s then Inl ErrVersionConflict
          else if ai_adapter_type identity \<noteq> n_adapter_type n then Inl ErrVersionConflict
          else if ai_installation_id identity \<noteq> '''' \<and>
                  ai_installation_id identity \<noteq> coalesce '''' (na_installation_id (n_agent n))
          then Inl ErrVersionConflict
          else if n_adapter_type n \<noteq> AdapterSingBoxVLESSReality \<and> reality \<noteq> None then Inl ErrConflict
          else
            rbind (if n_adapter_type n = AdapterSingBoxVLESSReality \<and> status = ''applied''
                   then store_material (ai_node_id identity) version reality now d else Inr d)
              (\<lambda>d1. Inr ((), if status = ''applied'' then record_applied identity version now d1
                else record_failed (ai_node_id identity) version errorCode message now d1))
      | _ \<Rightarrow> Inl ErrVersionConflict)"

definition AcknowledgeDesiredWithMaterial ::
  "agent_identity \<Rightarrow> int \<Rightarrow> string \<Rightarrow> string \<Rightarrow> string \<Rightarrow> string \<Rightarrow> reality_material option \<Rightarrow> gotime \<Rightarrow>
     db \<Rightarrow> (store_error + unit) \<times> db" where
  "AcknowledgeDesiredWithMaterial identity version hash status errorCode message reality now =
     transact (acknowledge_body identity version hash status errorCode message reality now)"

definition AcknowledgeDesired ::
  "agent_identity \<Rightarrow> int \<Rightarrow> string \<Rightarrow> string \<Rightarrow> string \<Rightarrow> string \<Rightarrow> gotime \<Rightarrow> db \<Rightarrow> (store_error + unit) \<times> db" where
  "AcknowledgeDesired identity version hash status errorCode message now =
     AcknowledgeDesiredWithMaterial identity version hash status errorCode message None now"

section \<open>The fleet invariant\<close>

lemma map_view_update: "(\<And>r. v (f r) = v r) \<Longrightarrow> map v (sql_update p f t) = map v t"
  by (simp add: sql_update_def)

lemma fleet_ok_update_nodes:
  assumes "\<And>n. node_view (f n) = node_view n" and "\<And>n. node_version_view (f n) = node_version_view n"
  shows "fleet_ok (update_nodes p f d) = fleet_ok d"
  by (rule fleet_ok_view) (simp_all add: update_nodes_def ledger_view_def map_view_update assms)

lemma fleet_ok_update_assignments:
  assumes "\<And>a. assignment_view (f a) = assignment_view a"
  shows "fleet_ok (update_assignments p f d) = fleet_ok d"
  by (rule fleet_ok_view) (simp_all add: update_assignments_def ledger_view_def map_view_update assms)

lemma fleet_ok_tables [simp]:
  "fleet_ok (d\<lparr>db_tokens := t\<rparr>) = fleet_ok d" "fleet_ok (d\<lparr>db_reality := r\<rparr>) = fleet_ok d"
  "fleet_ok (d\<lparr>db_capabilities := c\<rparr>) = fleet_ok d" "fleet_ok (d\<lparr>db_metrics := m\<rparr>) = fleet_ok d"
  "fleet_ok (d\<lparr>db_next_id := k\<rparr>) = fleet_ok d" "fleet_ok (d\<lparr>db_kicks := ks\<rparr>) = fleet_ok d"
  by (rule fleet_ok_view; simp add: ledger_view_def)+

lemma fleet_ok_rows [simp]:
  "fleet_ok (update_nodes p (bind_agent_row e facts credential now) d) = fleet_ok d"
  "fleet_ok (update_nodes p (heartbeat_row identity hb now) d) = fleet_ok d"
  "fleet_ok (update_nodes p (node_pending_row now) d) = fleet_ok d"
  "fleet_ok (update_nodes p (applied_node_row en v now) d) = fleet_ok d"
  "fleet_ok (update_nodes p (\<lambda>n. n\<lparr>n_status := st, n_status_reason := re, n_updated_at := ti\<rparr>) d) = fleet_ok d"
  by (rule fleet_ok_update_nodes; simp add: node_view_def node_version_view_def bind_agent_row_def
      heartbeat_row_def node_pending_row_def applied_node_row_def)+

lemma fleet_ok_assignment_rows [simp]:
  "fleet_ok (update_assignments p (unapply_assignment_row now) d) = fleet_ok d"
  "fleet_ok (update_assignments p (applied_assignment_row v now) d) = fleet_ok d"
  "fleet_ok (update_assignments p (\<lambda>a. a\<lparr>a_state := st, a_last_error_code := ec, a_last_error_message := em,
     a_last_attempt_at := la, a_updated_at := ti\<rparr>) d) = fleet_ok d"
  "fleet_ok (mark_node_pending i v now d) = fleet_ok d"
  unfolding mark_node_pending_def
  by (rule fleet_ok_update_assignments; simp add: assignment_view_def akey_def unapply_assignment_row_def
      applied_assignment_row_def)+

lemma create_token_body_Inr:
  "create_token_body e result admin now d = Inr (r, d') \<Longrightarrow> r = result \<and>
     find_active_node (en_node_id result) d \<noteq> None \<and>
     (\<exists>t. d' = d\<lparr>db_tokens := t @ [new_token_row e result admin now]\<rparr> \<and>
       (\<forall>x\<in>set t. et_id x \<noteq> en_id result \<and> et_token_hash x \<noteq> TokenHash e (en_token result) \<and>
         (et_node_id x = en_node_id result \<longrightarrow> et_consumed_at x \<noteq> None)))"
  by (auto simp: create_token_body_def insert_token_def rbind_Inr_conv sql_exists_iff set_sql_delete
      new_token_row_def split: if_splits intro!: exI [of _ "sql_delete p t" for p t])

lemma fleet_ok_CreateEnrollmentToken:
  assumes "fleet_ok d"
  shows "fleet_ok (snd (CreateEnrollmentToken e i admin now lifetime d))"
proof -
  have "fleet_ok (snd (transact (create_token_body e result admin now) d2))" if "fleet_ok d2" for result d2
    using that by (rule transact_preserves [rotated]) (use that in \<open>auto dest!: create_token_body_Inr\<close>)
  with assms show ?thesis
    by (simp add: CreateEnrollmentToken_def RandomToken_def rand_Read_def NewID_def)
qed

lemma fleet_ok_reset_applied [simp]: "fleet_ok (reset_applied e i facts credential now d) = fleet_ok d"
  by (simp add: reset_applied_def Let_def replace_capabilities_def)

definition enroll_response_for :: "string \<Rightarrow> string \<Rightarrow> gotime \<Rightarrow> enroll_response" where
  "enroll_response_for nodeID secret now = \<lparr> er_node_id = nodeID,
     er_node_credential = ''hya_'' @ nodeID @ ''.'' @ secret, er_protocol = MajorVersion,
     er_heartbeat_seconds = 15, er_desired_seconds = 10, er_server_time = now \<rparr>"

definition enrolled_state ::
  "env \<Rightarrow> token_row \<Rightarrow> enrollment_facts \<Rightarrow> string \<Rightarrow> string \<Rightarrow> gotime \<Rightarrow> db \<Rightarrow> db" where
  "enrolled_state e t facts credential ciphertext now d =
     (let d3 = reset_applied e (et_node_id t) facts credential now d
      in d3\<lparr>db_tokens := sql_update (\<lambda>x. et_id x = et_id t \<and> et_consumed_at x = None)
              (consume_token_row facts ciphertext now) (db_tokens d3)\<rparr>)"

text \<open>A successful enrollment is either a replay that changes nothing, or the first use of the token.\<close>

lemma enroll_body_Inr:
  assumes "enroll_body e token facts mk now d = Inr (r, d')"
  shows "\<exists>t n. find_token (TokenHash e token) d = Some (t, n) \<and>
    (et_consumed_at t \<noteq> None \<and> replay_enrollment e t facts mk now = Inr r \<and> d' = d \<or>
     et_consumed_at t = None \<and> unixMilli now \<le> et_expires_at t \<and> n_adapter_type n = ef_adapter_type facts \<and>
     (\<exists>ct d2. r = enroll_response_for (et_node_id t) (b64_encode (env_random e 32 (db_next_id d))) now \<and>
       Seal e mk (env_enroll_encode e r)
         (enrollmentAAD (et_id t) (et_node_id t) (ef_installation_id facts) (ef_request_id facts))
         (d\<lparr>db_next_id := Suc (db_next_id d)\<rparr>) = Inr (ct, d2) \<and>
       d' = enrolled_state e t facts (er_node_credential r) ct now d2))"
proof -
  from assms obtain t n where tn: "find_token (TokenHash e token) d = Some (t, n)"
    by (auto simp: enroll_body_def split: option.splits)
  let ?r = "enroll_response_for (et_node_id t) (b64_encode (env_random e 32 (db_next_id d))) now"
  show ?thesis
  proof (cases "et_consumed_at t = None")
    case False
    then show ?thesis using assms tn by (auto simp: enroll_body_def rbind_Inr_conv)
  next
    case True
    note body = assms [unfolded enroll_body_def tn option.case prod.case True Let_def RandomToken_def rand_Read_def]
    from body obtain ct d2 where
      "Seal e mk (env_enroll_encode e ?r)
         (enrollmentAAD (et_id t) (et_node_id t) (ef_installation_id facts) (ef_request_id facts))
         (d\<lparr>db_next_id := Suc (db_next_id d)\<rparr>) = Inr (ct, d2)"
      "r = ?r" "d' = enrolled_state e t facts (er_node_credential ?r) ct now d2"
      by (auto simp: rbind_Inr_conv enroll_response_for_def enrolled_state_def Let_def split: if_splits)
    moreover have "unixMilli now \<le> et_expires_at t" "n_adapter_type n = ef_adapter_type facts"
      using body by (auto split: if_splits)
    ultimately show ?thesis using tn True by blast
  qed
qed

lemma fleet_ok_EnrollAgent: "fleet_ok d \<Longrightarrow> fleet_ok (snd (EnrollAgent e token facts mk now d))"
  unfolding EnrollAgent_def
proof (rule transact_preserves)
  fix r d' assume ok: "fleet_ok d" and "enroll_body e token facts mk now d = Inr (r, d')"
  from enroll_body_Inr [OF this(2)] ok show "fleet_ok d'"
    by (auto simp: enrolled_state_def Let_def Seal_Inr)
qed

lemma fleet_ok_RecordHeartbeat: "fleet_ok d \<Longrightarrow> fleet_ok (snd (RecordHeartbeat e identity hb now d))"
proof -
  assume ok: "fleet_ok d"
  have cap: "fleet_ok d2" if "fleet_ok d1" "record_capabilities e identity rep now v d1 = Inr (v', d2)" for d1 d2 rep v v'
    using that by (auto simp: record_capabilities_def Let_def rbind_Inr_conv replace_capabilities_def
        dest!: fleet_ok_bump [rotated] split: if_splits)
  have "fleet_ok (snd (transact (heartbeat_body e identity hb now) d))"
  proof (rule transact_preserves)
    fix v d' assume "heartbeat_body e identity hb now d = Inr (v, d')"
    then show "fleet_ok d'" using ok
      by (auto simp: heartbeat_body_def Let_def rbind_Inr_conv clear_capsule_def record_metrics_def
        dest!: cap [rotated] split: option.splits if_splits)
  qed (rule ok)
  with ok show ?thesis by (simp add: RecordHeartbeat_def)
qed

lemma fleet_ok_Acknowledge:
  "fleet_ok d \<Longrightarrow> fleet_ok (snd (AcknowledgeDesiredWithMaterial identity v hash st ec msg reality now d))"
proof -
  assume ok: "fleet_ok d"
  have mat: "fleet_ok d1 = fleet_ok d0" if "store_material i v reality now d0 = Inr d1" for i d0 d1
    using that by (auto simp: store_material_def split: option.splits if_splits)
  show ?thesis
    unfolding AcknowledgeDesiredWithMaterial_def
    by (rule transact_preserves)
      (use ok mat in \<open>auto simp: acknowledge_body_def rbind_Inr_conv record_applied_def record_failed_def Let_def
        split: option.splits if_splits\<close>)
qed

section \<open>Enrollment\<close>

lemma find_active_node_update:
  assumes "\<And>n. n_id (f n) = n_id n" and "\<And>n. n_archived_at (f n) = n_archived_at n"
  shows "find_active_node i (update_nodes p f d) = map_option (\<lambda>n. if p n then f n else n) (find_active_node i d)"
  by (simp add: find_active_node_def update_nodes_def sql_first_update assms)

lemma Cut_first: "c \<notin> set a \<Longrightarrow> Cut c (a @ c # b) = Some (a, b)"
  by (induction a) auto

lemma reset_applied_nodes:
  "db_nodes (reset_applied e i facts credential now d) =
     sql_update (\<lambda>n. n_id n = i) (bind_agent_row e facts credential now) (db_nodes d)"
  by (simp add: reset_applied_def Let_def replace_capabilities_def update_nodes_def update_assignments_def
      update_credentials_def)

lemma reset_applied_tokens [simp]:
  "db_tokens (reset_applied e i facts credential now d) = db_tokens d"
  by (simp add: reset_applied_def Let_def replace_capabilities_def update_nodes_def update_assignments_def
      update_credentials_def)

lemma find_active_enrolled:
  "find_active_node j (enrolled_state e t facts credential ct now d) =
     map_option (\<lambda>n. if n_id n = et_node_id t then bind_agent_row e facts credential now n else n) (find_active_node j d)"
  by (simp add: enrolled_state_def Let_def find_active_node_def reset_applied_nodes sql_first_update bind_agent_row_def)

lemma find_token_node: "find_token h d = Some (t, n) \<Longrightarrow> find_active_node (et_node_id t) d = Some n \<and> et_token_hash t = h"
  by (auto simp: find_token_def split: option.splits dest: sql_first_SomeD)

lemma enroll_fresh:
  assumes "EnrollAgent e token facts mk now d = (Inr r, d')"
    and "find_token (TokenHash e token) d = Some (t, n)" and "et_consumed_at t = None"
  shows "\<exists>secret ct d2. r = enroll_response_for (et_node_id t) secret now \<and>
    Seal e mk (env_enroll_encode e r)
      (enrollmentAAD (et_id t) (et_node_id t) (ef_installation_id facts) (ef_request_id facts))
      (d\<lparr>db_next_id := Suc (db_next_id d)\<rparr>) = Inr (ct, d2) \<and>
    d' = enrolled_state e t facts (er_node_credential r) ct now d2"
  using assms enroll_body_Inr [of e token facts mk now d r d'] by (auto simp: EnrollAgent_def transact_commit)

lemma find_active_node_next [simp]: "find_active_node i (d\<lparr>db_next_id := k\<rparr>) = find_active_node i d"
  by (simp add: find_active_node_def)

lemma find_token_next [simp]: "find_token h (d\<lparr>db_next_id := k\<rparr>) = find_token h d"
  by (simp add: find_token_def split: option.split)

lemma AuthenticateAgent_Inr:
  "AuthenticateAgent e c d = Inr identity \<Longrightarrow>
     (\<exists>n. find_active_node (ai_node_id identity) d = Some n \<and> na_credential_hash (n_agent n) = Some (TokenHash e c))"
proof -
  assume a: "AuthenticateAgent e c d = Inr identity"
  then obtain i n where n: "find_active_node i d = Some n" "na_credential_hash (n_agent n) = Some (TokenHash e c)"
    "ai_node_id identity = n_id n"
    by (auto simp: AuthenticateAgent_def Let_def coalesce_def split: if_splits option.splits)
  moreover have "n_id n = i" using find_active_nodeD [OF n(1)] by simp
  ultimately show ?thesis by auto
qed

text \<open>A freshly enrolled agent authenticates with the credential it received.\<close>

lemma enrolled_authenticates:
  assumes "crypto_ok e" and "find_active_node i d = Some n" and "i \<noteq> ''''" "CHR ''.'' \<notin> set i"
    and "c = ''hya_'' @ i @ ''.'' @ secret" and "et_node_id t = i"
  shows "AuthenticateAgent e c (enrolled_state e t facts c ct now d) = Inr \<lparr> ai_node_id = i,
    ai_installation_id = ef_installation_id facts, ai_adapter_type = n_adapter_type n, ai_enabled = n_enabled n \<rparr>"
proof -
  have nid: "n_id n = i" using find_active_nodeD [OF assms(2)] by simp
  have cut: "Cut (CHR ''.'') (i @ CHR ''.'' # secret) = Some (i, secret)" by (rule Cut_first [OF assms(4)])
  have f: "find_active_node i (enrolled_state e t facts c ct now d) = Some (bind_agent_row e facts c now n)"
    using assms(2,6) nid by (simp add: find_active_enrolled)
  have len: "length (TokenHash e c) = 32" using assms(1) by (simp add: crypto_ok_def TokenHash_def)
  have p: "HasPrefix c ''hya_''" "drop 4 c = i @ CHR ''.'' # secret" by (simp_all add: assms(5) HasPrefix_def)
  show ?thesis
    unfolding AuthenticateAgent_def p(2) cut
    using p(1) f len nid assms(3) by (simp add: Let_def coalesce_def bind_agent_row_def)
qed

text \<open>JSON gives the response back.\<close>

definition json_ok :: "env \<Rightarrow> bool" where
  "json_ok e \<longleftrightarrow> (\<forall>r. env_enroll_decode e (env_enroll_encode e r) = Some r)"

lemma sample_json_ok: "json_ok sample_env"
  by (simp add: json_ok_def sample_env_def sample_decode_encode)

lemma find_token_enrolled:
  assumes "find_token h d = Some (t, n)" and "et_consumed_at t = None"
  shows "\<exists>m. find_token h (enrolled_state e t facts c ct now d) = Some (consume_token_row facts ct now t, m)"
proof -
  have "sql_first (\<lambda>x. et_token_hash x = h) (db_tokens d) = Some t" "find_active_node (et_node_id t) d = Some n"
    using assms(1) by (auto simp: find_token_def split: option.splits)
  moreover have "db_tokens (enrolled_state e t facts c ct now d) =
      sql_update (\<lambda>x. et_id x = et_id t \<and> et_consumed_at x = None) (consume_token_row facts ct now) (db_tokens d)"
    by (simp add: enrolled_state_def Let_def)
  moreover have "et_node_id (consume_token_row facts ct now t) = et_node_id t" by (simp add: consume_token_row_def)
  ultimately show ?thesis using assms(2)
    by (simp add: find_token_def sql_first_update consume_token_row_def find_active_enrolled)
qed

lemma replay_consumed:
  assumes "crypto_ok e" "json_ok e"
    and "Seal e mk (env_enroll_encode e r)
      (enrollmentAAD (et_id t) (et_node_id t) (ef_installation_id facts) (ef_request_id facts)) d = Inr (ct, d')"
  shows "replay_enrollment e (consume_token_row facts ct now t) facts' mk now' =
    (if ef_installation_id facts' = ef_installation_id facts \<and> ef_request_id facts' = ef_request_id facts \<and>
        unixMilli now' \<le> unixMilli (now + 5 * minute) then Inr r else Inl ErrConflict)"
proof -
  have "ct \<noteq> ''''" using assms(1,3) by (auto simp: Seal_Inr crypto_ok_def NonceSize_def dest: arg_cong [where f = length])
  then show ?thesis
    using Open_Seal [OF assms(1,3)] assms(2)
    by (auto simp: replay_enrollment_def consume_token_row_def json_ok_def)
qed

section \<open>Acknowledgements\<close>

lemma acknowledge_applied:
  assumes "acknowledge_body identity v hash ''applied'' ec msg reality now d = Inr ((), d')"
  shows "\<exists>s n rs. sql_first (\<lambda>s. skey s = (ai_node_id identity, v)) (db_snapshots d) = Some s \<and>
    find_active_node (ai_node_id identity) d = Some n \<and> v = n_desired_version n \<and> hash = s_sha256 s \<and>
    (ai_installation_id identity \<noteq> '''' \<longrightarrow> na_installation_id (n_agent n) = Some (ai_installation_id identity)) \<and>
    d' = record_applied identity v now (d\<lparr>db_reality := rs\<rparr>)"
proof -
  have mat: "\<exists>rs. d1 = d\<lparr>db_reality := rs\<rparr>" if "store_material i v reality now d = Inr d1" for i d1
    using that by (auto simp: store_material_def split: option.splits if_splits)
  have self: "\<exists>rs. d = d\<lparr>db_reality := rs\<rparr>" by (rule exI [of _ "db_reality d"]) simp
  from assms obtain s n where sn:
    "sql_first (\<lambda>s. skey s = (ai_node_id identity, v)) (db_snapshots d) = Some s"
    "find_active_node (ai_node_id identity) d = Some n"
    by (auto simp: acknowledge_body_def split: option.splits)
  note body = assms [unfolded acknowledge_body_def sn option.case prod.case]
  from body have g: "v = n_desired_version n" "hash = s_sha256 s"
    "ai_installation_id identity \<noteq> '''' \<longrightarrow> na_installation_id (n_agent n) = Some (ai_installation_id identity)"
    by (auto simp: coalesce_def split: if_splits option.splits)
  from body obtain d1 where d1: "d1 = d \<or> store_material (ai_node_id identity) v reality now d = Inr d1"
    and d': "d' = record_applied identity v now d1"
    by (auto simp: rbind_Inr_conv split: if_splits)
  from d1 have "\<exists>rs. d1 = d\<lparr>db_reality := rs\<rparr>" using mat self by blast
  with sn g d' show ?thesis by blast
qed

lemma record_applied_tables:
  "db_credentials (record_applied identity v now d) =
     sql_update (\<lambda>c. c_node_id c = ai_node_id identity \<and> c_state c = ''staged'' \<and>
         c_id c \<in> set (desired_credentials (ai_node_id identity) d)) (apply_credential_row now)
       (sql_update (\<lambda>c. c_node_id c = ai_node_id identity \<and> c_state c = ''applied'' \<and>
         c_id c \<notin> set (desired_credentials (ai_node_id identity) d)) (retire_row now) (db_credentials d))"
  "db_assignments (record_applied identity v now d) =
     sql_update (\<lambda>a. a_node_id a = ai_node_id identity \<and> a_desired_version a \<le> v)
       (applied_assignment_row v now) (db_assignments d)"
  "db_nodes (record_applied identity v now d) =
     sql_update (\<lambda>n. n_id n = ai_node_id identity) (applied_node_row (ai_enabled identity) v now) (db_nodes d)"
  by (simp_all add: record_applied_def Let_def update_nodes_def update_credentials_def update_assignments_def)

lemma ball_updateI: "(\<And>r. r \<in> set t \<Longrightarrow> Q (if p r then f r else r)) \<Longrightarrow> r \<in> set (sql_update p f t) \<Longrightarrow> Q r"
  using ball_sql_update [of p f t Q] by blast

lemma applied_credentials:
  "\<forall>c\<in>set (db_credentials (record_applied identity v now d)). c_node_id c = ai_node_id identity \<longrightarrow>
     c_state c = ''applied'' \<longrightarrow> c_id c \<in> set (desired_credentials (ai_node_id identity) d)"
  by (simp add: record_applied_tables ball_sql_update apply_credential_row_def retire_row_def)

lemma applied_assignments:
  "\<forall>a\<in>set (db_assignments (record_applied identity v now d)). a_node_id a = ai_node_id identity \<longrightarrow>
     a_desired_version a \<le> v \<longrightarrow> a_state a = ''applied'' \<and> a_applied_version a = v \<and>
       a_applied_credential_id a = Some (a_desired_credential_id a)"
  by (simp add: record_applied_tables ball_sql_update applied_assignment_row_def)

lemma desired_credentials_applied:
  "desired_credentials i (record_applied identity v now d) = desired_credentials i d"
proof -
  have "map a_desired_credential_id (filter (\<lambda>a. a_node_id a = i) (sql_update p (applied_assignment_row v now) t)) =
      map a_desired_credential_id (filter (\<lambda>a. a_node_id a = i) t)" for p t
    by (induction t) (auto simp: applied_assignment_row_def)
  then show ?thesis by (simp add: desired_credentials_def record_applied_tables)
qed

lemma staged_becomes_applied:
  assumes "c \<in> set (db_credentials d)" and "c_node_id c = ai_node_id identity" and "c_state c = ''staged''"
    and "c_id c \<in> set (desired_credentials (ai_node_id identity) d)"
  shows "apply_credential_row now c \<in> set (db_credentials (record_applied identity v now d))"
proof -
  let ?p = "\<lambda>c. c_node_id c = ai_node_id identity \<and> c_state c = ''applied'' \<and>
      c_id c \<notin> set (desired_credentials (ai_node_id identity) d)"
  have "c \<in> set (sql_update ?p (retire_row now) (db_credentials d))"
    using assms by (auto simp: set_sql_update image_iff intro!: bexI [of _ c])
  then show ?thesis
    unfolding record_applied_tables set_sql_update [of _ _ "sql_update ?p (retire_row now) (db_credentials d)"]
    by (rule rev_image_eqI) (simp add: assms)
qed

section \<open>Properties\<close>

text \<open>C35: Enrollment hands a node over to exactly one agent: after the first use of a token the returned
  credential authenticates as the token's node with the enrolling installation, no credential
  with another digest authenticates as that node any more (the previous agent is locked out),
  and what other credentials authenticate as on other nodes does not change.\<close>

theorem enrollment_hands_over:
  assumes "crypto_ok e" and "EnrollAgent e token facts mk now d = (Inr r, d')"
    and "find_token (TokenHash e token) d = Some (t, n)" and "et_consumed_at t = None"
    and "et_node_id t \<noteq> ''''" and "CHR ''.'' \<notin> set (et_node_id t)"
  shows "AuthenticateAgent e (er_node_credential r) d' = Inr \<lparr> ai_node_id = et_node_id t,
      ai_installation_id = ef_installation_id facts, ai_adapter_type = n_adapter_type n, ai_enabled = n_enabled n \<rparr> \<and>
    (\<forall>c identity. AuthenticateAgent e c d' = Inr identity \<longrightarrow> ai_node_id identity = et_node_id t \<longrightarrow>
       TokenHash e c = TokenHash e (er_node_credential r)) \<and>
    (\<forall>c identity. ai_node_id identity \<noteq> et_node_id t \<longrightarrow>
       (AuthenticateAgent e c d' = Inr identity \<longleftrightarrow> AuthenticateAgent e c d = Inr identity))"
proof -
  from enroll_fresh [OF assms(2-4)] obtain secret ct k where
    r: "r = enroll_response_for (et_node_id t) secret now"
    and d': "d' = enrolled_state e t facts (er_node_credential r) ct now (d\<lparr>db_next_id := k\<rparr>)"
    by (auto simp: Seal_Inr)
  have n: "find_active_node (et_node_id t) (d\<lparr>db_next_id := k\<rparr>) = Some n"
    using find_token_node [OF assms(3)] by simp
  have cred: "er_node_credential r = ''hya_'' @ et_node_id t @ ''.'' @ secret"
    by (simp add: r enroll_response_for_def)
  have f: "find_active_node j d' =
      map_option (\<lambda>n. if n_id n = et_node_id t then bind_agent_row e facts (er_node_credential r) now n else n)
        (find_active_node j d)" for j
    by (simp add: d' find_active_enrolled)
  have 1: "AuthenticateAgent e (er_node_credential r) d' = Inr \<lparr> ai_node_id = et_node_id t,
      ai_installation_id = ef_installation_id facts, ai_adapter_type = n_adapter_type n, ai_enabled = n_enabled n \<rparr>"
    unfolding d' by (rule enrolled_authenticates [OF assms(1) n assms(5,6) cred refl])
  have 2: "TokenHash e c = TokenHash e (er_node_credential r)"
    if "AuthenticateAgent e c d' = Inr identity" "ai_node_id identity = et_node_id t" for c identity
    using AuthenticateAgent_Inr [OF that(1)] that(2) n find_active_nodeD [OF n]
    by (auto simp: f bind_agent_row_def)
  have 3: "AuthenticateAgent e c d' = Inr identity \<longleftrightarrow> AuthenticateAgent e c d = Inr identity"
    if "ai_node_id identity \<noteq> et_node_id t" for c identity
  proof (cases "Cut (CHR ''.'') (drop 4 c)")
    case None
    then show ?thesis by (simp add: AuthenticateAgent_def)
  next
    case (Some p)
    obtain j b where p: "p = (j, b)" by (cases p)
    show ?thesis
    proof (cases "find_active_node j d")
      case None
      then have "find_active_node j d' = None" by (simp add: f)
      with None Some p show ?thesis by (simp add: AuthenticateAgent_def)
    next
      case m: (Some m)
      have id: "n_id m = j" using find_active_nodeD [OF m] by simp
      show ?thesis
      proof (cases "j = et_node_id t")
        case True
        have "find_active_node j d' = Some (bind_agent_row e facts (er_node_credential r) now m)"
          using m id True by (simp add: f)
        moreover have "n_id (bind_agent_row e facts (er_node_credential r) now m) = j"
          using id by (simp add: bind_agent_row_def)
        ultimately show ?thesis
          using Some p m id True that by (auto simp: AuthenticateAgent_def Let_def split: if_splits)
      next
        case False
        then have "find_active_node j d' = Some m" using m id by (simp add: f)
        with m Some p show ?thesis by (simp add: AuthenticateAgent_def)
      qed
    qed
  qed
  from 1 2 3 show ?thesis by blast
qed

definition sample_facts :: enrollment_facts where
  "sample_facts = \<lparr> ef_installation_id = ''inst2'', ef_request_id = ''req1'', ef_agent_version = ''1'',
     ef_os_name = ''linux'', ef_os_version = '''', ef_architecture = ''amd64'', ef_adapter_type = ''native_hysteria2'',
     ef_core_name = ''hysteria'', ef_capabilities = [''traffic_stats_v1''] \<rparr>"

definition sample_token :: enrollment_token where
  "sample_token = \<lparr> en_id = ''t1'', en_node_id = ''n1'', en_token = ''tok'', en_expires_at = sample_now + minute \<rparr>"

definition sample_tokened :: db where
  "sample_tokened = sample_db\<lparr>db_tokens := [new_token_row sample_env sample_token ''admin'' sample_now]\<rparr>"

definition sample_enrolled :: "(store_error + enroll_response) \<times> db" where
  "sample_enrolled = EnrollAgent sample_env ''tok'' sample_facts sample_key sample_now sample_tokened"

lemma sample_find_token:
  "find_token (TokenHash sample_env ''tok'') sample_tokened =
     Some (new_token_row sample_env sample_token ''admin'' sample_now, sample_node)"
  "et_consumed_at (new_token_row sample_env sample_token ''admin'' sample_now) = None"
  "et_node_id (new_token_row sample_env sample_token ''admin'' sample_now) = ''n1''"
  by (simp_all add: find_token_def sample_tokened_def new_token_row_def sample_token_def find_active_node_def
      sample_db_def) (simp_all add: sample_node_def)

lemma sample_enrolled_Inr:
  "EnrollAgent sample_env ''tok'' sample_facts sample_key sample_now sample_tokened =
     (Inr (projr (fst sample_enrolled)), snd sample_enrolled)"
proof -
  let ?t = "new_token_row sample_env sample_token ''admin'' sample_now"
  have "\<not> et_expires_at ?t < unixMilli sample_now"
    by (simp add: new_token_row_def sample_token_def not_less unixMilli_mono minute_def second_def)
  moreover have "n_adapter_type sample_node = ef_adapter_type sample_facts"
    "n_adapter_type sample_node \<noteq> AdapterSingBoxVLESSReality" "length sample_key = KeySize"
    by (simp_all add: sample_node_def sample_facts_def AdapterSingBoxVLESSReality_def sample_key_def KeySize_def)
  ultimately have "\<not> isl (fst sample_enrolled)"
    unfolding sample_enrolled_def EnrollAgent_def transact_def enroll_body_def sample_find_token(1) option.case prod.case
    by (simp add: sample_find_token(2) Seal_def RandomToken_def rand_Read_def Let_def)
  then show ?thesis by (simp add: sample_enrolled_def prod_eq_iff)
qed

lemma enrollment_hands_over_witness:
  "AuthenticateAgent sample_env (er_node_credential (projr (fst sample_enrolled))) (snd sample_enrolled) =
     Inr \<lparr> ai_node_id = ''n1'', ai_installation_id = ''inst2'', ai_adapter_type = ''native_hysteria2'', ai_enabled = True \<rparr>"
  using enrollment_hands_over [OF sample_crypto_ok sample_enrolled_Inr sample_find_token(1,2)]
  by (simp add: sample_find_token(3) sample_facts_def sample_node_def)




lemma sample_ack:
  "fst (AcknowledgeDesiredWithMaterial sample_identity 1 ''n1'' ''applied'' '''' '''' None sample_now sample_db) = Inr ()"
  by code_simp


text \<open>C38: A late or foreign acknowledgement is refused: if the version is not the node's desired version, the
  digest is not that of the stored snapshot, or the installation is not the enrolled one, the
  answer is a version conflict and nothing changes.\<close>

theorem stale_acknowledgement_refused:
  assumes "find_active_node (ai_node_id identity) d = Some n"
    and "v \<noteq> n_desired_version n \<or>
      (\<forall>s. sql_first (\<lambda>s. skey s = (ai_node_id identity, v)) (db_snapshots d) = Some s \<longrightarrow> hash \<noteq> s_sha256 s) \<or>
      (ai_installation_id identity \<noteq> '''' \<and> na_installation_id (n_agent n) \<noteq> Some (ai_installation_id identity))"
  shows "AcknowledgeDesiredWithMaterial identity v hash st ec msg reality now d = (Inl ErrVersionConflict, d)"
proof -
  have "acknowledge_body identity v hash st ec msg reality now d = Inl ErrVersionConflict"
    using assms by (auto simp: acknowledge_body_def coalesce_def split: option.splits)
  then show ?thesis by (simp add: AcknowledgeDesiredWithMaterial_def transact_def)
qed

lemma stale_acknowledgement_refused_witness:
  "AcknowledgeDesiredWithMaterial sample_identity 7 ''n1'' ''applied'' '''' '''' None sample_now sample_db =
     (Inl ErrVersionConflict, sample_db)"
  by (rule stale_acknowledgement_refused [of _ _ sample_node])
    (simp_all add: find_active_node_def sample_db_def sample_identity_def sample_node_def)

end
