(* ===== verification/Exit_Proxies.thy ===== *)
theory Exit_Proxies
  imports Agent_Registry
begin

text \<open>
  The catalog of exit proxies (internal/store/exit\_proxy.go): validation, sealed passwords,
  the assignment of proxies to nodes.  A proxy is a row of \<open>exit_proxies\<close>; an absent
  ciphertext is the empty string (\<open>len(ciphertext) == 0\<close> is all the code asks).
\<close>

section \<open>Data\<close>

definition ExitProxyKindRentedIP :: string where "ExitProxyKindRentedIP = ''rented_ip''"
definition ExitProxyKindLandingVPS :: string where "ExitProxyKindLandingVPS = ''landing_vps''"
definition ExitProxyProtocolSOCKS5 :: string where "ExitProxyProtocolSOCKS5 = ''socks5''"
definition ExitProxyProtocolHTTP :: string where "ExitProxyProtocolHTTP = ''http''"
definition exitProxyPasswordVersion :: int where "exitProxyPasswordVersion = 1"

record exit_proxy_assignment =
  xa_node_id :: string
  xa_node_name :: string
  xa_public_host :: string

text \<open>What callers see of a proxy: its row, whether a password is set, and the nodes using it.\<close>

record exit_proxy =
  xp_row :: exit_proxy_row
  xp_password_set :: bool
  xp_assignments :: "exit_proxy_assignment list"

record exit_proxy_fields =
  xf_name :: string
  xf_kind :: string
  xf_protocol :: string
  xf_host :: string
  xf_port :: int
  xf_username :: string
  xf_notes :: string
  xf_tls :: bool
  xf_skip_cert_verify :: bool
  xf_udp :: bool

record new_exit_proxy =
  nx_fields :: exit_proxy_fields
  nx_id :: string
  nx_password :: string
  nx_server_side :: bool
  nx_now :: gotime
  nx_master_key :: string

record update_exit_proxy =
  ux_fields :: exit_proxy_fields
  ux_password :: "string option"
  ux_server_side :: "bool option"
  ux_now :: gotime
  ux_master_key :: string

text \<open>SQLite's \<open>length\<close> of a text: characters up to the first NUL; a lead byte swallows the
  continuation bytes behind it.\<close>

definition continuation_byte :: "char \<Rightarrow> bool" where
  "continuation_byte c \<longleftrightarrow> 128 \<le> (of_char c :: nat) \<and> (of_char c :: nat) < 192"

function sql_length :: "string \<Rightarrow> int" where
  "sql_length [] = 0"
| "sql_length (c # s) =
     (if c = CHR 0x00 then 0
      else 1 + sql_length (if (of_char c :: nat) < 192 then s else dropWhile continuation_byte s))"
  by pat_completeness auto
termination
  by (relation "measure length") (auto simp: le_imp_less_Suc length_dropWhile_le)

lemma sql_length_bounds: "0 \<le> sql_length s \<and> sql_length s \<le> int (length s)"
proof (induction s rule: sql_length.induct)
  case (2 c s)
  have "length (dropWhile continuation_byte s) \<le> length s" by (rule length_dropWhile_le)
  with 2 show ?case by (cases "(of_char c :: nat) < 192") auto
qed simp

section \<open>Validation and passwords\<close>

definition exitProxyAAD :: "string \<Rightarrow> string" where
  "exitProxyAAD i = join_with (CHR 0x00) [''exit-proxy'', i, ''v'' @ itoa exitProxyPasswordVersion]"

definition nullableString :: "string \<Rightarrow> string option" where
  "nullableString v = (if TrimSpace v = '''' then None else Some v)"

definition trimmed_fields :: "exit_proxy_fields \<Rightarrow> exit_proxy_fields" where
  "trimmed_fields f = f\<lparr>xf_name := TrimSpace (xf_name f), xf_kind := TrimSpace (xf_kind f),
     xf_protocol := TrimSpace (xf_protocol f), xf_host := TrimSpace (xf_host f),
     xf_username := TrimSpace (xf_username f), xf_notes := TrimSpace (xf_notes f)\<rparr>"

definition normalizeExitProxy :: "exit_proxy_fields \<Rightarrow> store_error + exit_proxy_fields" where
  "normalizeExitProxy f =
     (let p = trimmed_fields f in
      if length (xf_name p) < 2 \<or> length (xf_name p) > 64 then Inl ErrUnsupported
      else if xf_kind p \<noteq> ExitProxyKindRentedIP \<and> xf_kind p \<noteq> ExitProxyKindLandingVPS then Inl ErrUnsupported
      else if xf_protocol p \<noteq> ExitProxyProtocolSOCKS5 \<and> xf_protocol p \<noteq> ExitProxyProtocolHTTP
      then Inl ErrUnsupported
      else if xf_host p = '''' \<or> length (xf_host p) > 253 then Inl ErrUnsupported
      else if xf_port p < 1 \<or> xf_port p > 65535 then Inl ErrUnsupported
      else if length (xf_username p) > 128 then Inl ErrUnsupported
      else if length (xf_notes p) > 512 then Inl ErrUnsupported
      else
        let p1 = (if xf_protocol p \<noteq> ExitProxyProtocolHTTP
                  then p\<lparr>xf_tls := False, xf_skip_cert_verify := False\<rparr> else p);
            p2 = (if \<not> xf_tls p1 then p1\<lparr>xf_skip_cert_verify := False\<rparr> else p1);
            p3 = (if xf_protocol p2 \<noteq> ExitProxyProtocolSOCKS5 then p2\<lparr>xf_udp := False\<rparr> else p2)
        in Inr p3)"

definition sealExitProxyPassword ::
  "env \<Rightarrow> string \<Rightarrow> string \<Rightarrow> string \<Rightarrow> db \<Rightarrow> store_error + string \<times> db" where
  "sealExitProxyPassword e masterKey i password d =
     (let password = TrimSpace password in
      if password = '''' then Inr ('''', d)
      else if length password > 256 then Inl ErrUnsupported
      else Seal e masterKey password (exitProxyAAD i) d)"

definition openExitProxyPassword :: "env \<Rightarrow> string \<Rightarrow> string \<Rightarrow> string \<Rightarrow> store_error + string" where
  "openExitProxyPassword e masterKey ciphertext i =
     (if ciphertext = '''' then Inr '''' else Open e masterKey ciphertext (exitProxyAAD i))"

section \<open>Reading\<close>

definition find_exit_proxy :: "string \<Rightarrow> db \<Rightarrow> exit_proxy_row option" where
  "find_exit_proxy i d = sql_first (\<lambda>x. x_id x = i) (db_exit_proxies d)"

definition scanExitProxy :: "exit_proxy_row \<Rightarrow> exit_proxy" where
  "scanExitProxy x = \<lparr> xp_row = x, xp_password_set = (x_password_ciphertext x \<noteq> ''''), xp_assignments = [] \<rparr>"

definition without_ciphertext :: "exit_proxy \<Rightarrow> exit_proxy" where
  "without_ciphertext p = p\<lparr>xp_row := (xp_row p)\<lparr>x_password_ciphertext := ''''\<rparr>\<rparr>"

definition exit_proxy_nodes :: "string \<Rightarrow> db \<Rightarrow> exit_proxy_assignment list" where
  "exit_proxy_nodes i d =
     map (\<lambda>n. \<lparr> xa_node_id = n_id n, xa_node_name = n_name n, xa_public_host = n_public_host n \<rparr>)
       (sort_key (\<lambda>n. nocase (n_name n)) (sort_key n_id
         (filter (\<lambda>n. n_archived_at n = None \<and> n_exit_proxy_id n = Some i) (db_nodes d))))"

definition attachExitProxyAssignments :: "exit_proxy list \<Rightarrow> db \<Rightarrow> exit_proxy list" where
  "attachExitProxyAssignments proxies d =
     map (\<lambda>p. (without_ciphertext p)\<lparr>xp_assignments := exit_proxy_nodes (x_id (xp_row p)) d\<rparr>) proxies"

definition ListExitProxies :: "db \<Rightarrow> exit_proxy list" where
  "ListExitProxies d = attachExitProxyAssignments
     (map scanExitProxy (sort_key (\<lambda>x. nocase (x_name x)) (sort_key x_id (db_exit_proxies d)))) d"

definition GetExitProxy :: "string \<Rightarrow> db \<Rightarrow> store_error + exit_proxy" where
  "GetExitProxy i d =
     (case find_exit_proxy i d of
        None \<Rightarrow> Inl ErrNotFound
      | Some x \<Rightarrow> Inr (hd (attachExitProxyAssignments [scanExitProxy x] d)))"

text \<open>The Go map from ids to proxies; empty ids are skipped.\<close>

definition getExitProxyMap :: "string list \<Rightarrow> db \<Rightarrow> string \<Rightarrow> exit_proxy option" where
  "getExitProxyMap ids d i =
     (if i \<in> set ids \<and> i \<noteq> '''' then map_option (\<lambda>x. without_ciphertext (scanExitProxy x)) (find_exit_proxy i d)
      else None)"

section \<open>Changing the catalog\<close>

text \<open>A statement that commits and then answers with the proxy read back.\<close>

definition then_get_proxy :: "string \<Rightarrow> (store_error + unit) \<times> db \<Rightarrow> (store_error + exit_proxy) \<times> db" where
  "then_get_proxy i = (\<lambda>(r, d). (rbind r (\<lambda>_. GetExitProxy i d), d))"

definition exit_proxy_row_of ::
  "string \<Rightarrow> exit_proxy_fields \<Rightarrow> string \<Rightarrow> bool \<Rightarrow> int \<Rightarrow> int \<Rightarrow> exit_proxy_row" where
  "exit_proxy_row_of i f ciphertext serverSide created updated = \<lparr> x_id = i, x_name = xf_name f,
     x_kind = xf_kind f, x_protocol = xf_protocol f, x_host = xf_host f, x_port = xf_port f,
     x_username = xf_username f, x_password_ciphertext = ciphertext, x_tls = xf_tls f,
     x_skip_cert_verify = xf_skip_cert_verify f, x_udp = xf_udp f, x_notes = xf_notes f,
     x_created_at = created, x_updated_at = updated, x_server_side = serverSide \<rparr>"

text \<open>The CHECK constraints of the table.\<close>

definition exit_proxy_checks :: "exit_proxy_row \<Rightarrow> bool" where
  "exit_proxy_checks x \<longleftrightarrow>
     (x_kind x = ''rented_ip'' \<or> x_kind x = ''landing_vps'') \<and>
     (x_protocol x = ''socks5'' \<or> x_protocol x = ''http'') \<and>
     1 \<le> sql_length (x_host x) \<and> sql_length (x_host x) \<le> 253 \<and> 1 \<le> x_port x \<and> x_port x \<le> 65535 \<and>
     sql_length (x_username x) \<le> 128 \<and> sql_length (x_notes x) \<le> 512"

definition CreateExitProxy :: "env \<Rightarrow> new_exit_proxy \<Rightarrow> db \<Rightarrow> (store_error + exit_proxy) \<times> db" where
  "CreateExitProxy e input d = then_get_proxy (nx_id input) (transact (\<lambda>d.
     rbind (normalizeExitProxy (nx_fields input)) (\<lambda>normalized.
     if nx_id input = '''' then Inl ErrUnsupported
     else rbind (sealExitProxyPassword e (nx_master_key input) (nx_id input) (nx_password input) d)
       (\<lambda>(ciphertext, d1).
     let row = exit_proxy_row_of (nx_id input) normalized ciphertext (nx_server_side input)
                 (unixMilli (nx_now input)) (unixMilli (nx_now input)) in
     if \<not> exit_proxy_checks row then Inl (ErrOther ''insert exit proxy'')
     else if sql_exists (\<lambda>x. x_id x = x_id row \<or> nocase (x_name x) = nocase (x_name row)) (db_exit_proxies d1)
     then Inl ErrConflict
     else Inr ((), d1\<lparr>db_exit_proxies := db_exit_proxies d1 @ [row]\<rparr>)))) d)"

definition updated_proxy_row ::
  "exit_proxy_fields \<Rightarrow> string \<Rightarrow> bool option \<Rightarrow> int \<Rightarrow> exit_proxy_row \<Rightarrow> exit_proxy_row" where
  "updated_proxy_row f ciphertext serverSide updated x = exit_proxy_row_of (x_id x) f ciphertext
     (case serverSide of None \<Rightarrow> x_server_side x | Some b \<Rightarrow> b) (x_created_at x) updated"

definition UpdateExitProxy :: "env \<Rightarrow> string \<Rightarrow> update_exit_proxy \<Rightarrow> db \<Rightarrow> (store_error + exit_proxy) \<times> db" where
  "UpdateExitProxy e i input d = then_get_proxy i (transact (\<lambda>d.
     rbind (normalizeExitProxy (ux_fields input)) (\<lambda>normalized.
     case find_exit_proxy i d of
       None \<Rightarrow> Inl ErrNotFound
     | Some x \<Rightarrow>
     rbind (case ux_password input of
              None \<Rightarrow> Inr (x_password_ciphertext x, d)
            | Some password \<Rightarrow> sealExitProxyPassword e (ux_master_key input) i password d) (\<lambda>(ciphertext, d1).
     let f = updated_proxy_row normalized ciphertext (ux_server_side input) (unixMilli (ux_now input)) in
     if \<not> exit_proxy_checks (f x) then Inl (ErrOther ''update exit proxy'')
     else if sql_exists (\<lambda>y. x_id y \<noteq> i \<and> nocase (x_name y) = nocase (xf_name normalized)) (db_exit_proxies d1)
     then Inl ErrConflict
     else Inr ((), d1\<lparr>db_exit_proxies := sql_update (\<lambda>y. x_id y = i) f (db_exit_proxies d1)\<rparr>)))) d)"

text \<open>Deleting a proxy sets the references of the nodes to NULL (\<open>ON DELETE SET NULL\<close>).\<close>

definition DeleteExitProxy :: "string \<Rightarrow> db \<Rightarrow> (store_error + unit) \<times> db" where
  "DeleteExitProxy i d =
     (if \<not> sql_exists (\<lambda>x. x_id x = i) (db_exit_proxies d) then (Inl ErrNotFound, d)
      else (Inr (), update_nodes (\<lambda>n. n_exit_proxy_id n = Some i) (\<lambda>n. n\<lparr>n_exit_proxy_id := None\<rparr>)
        (d\<lparr>db_exit_proxies := sql_delete (\<lambda>x. x_id x = i) (db_exit_proxies d)\<rparr>)))"

definition OpenExitProxyPassword :: "env \<Rightarrow> string \<Rightarrow> string \<Rightarrow> db \<Rightarrow> store_error + string" where
  "OpenExitProxyPassword e i masterKey d =
     (case find_exit_proxy i d of
        None \<Rightarrow> Inl ErrNotFound
      | Some x \<Rightarrow> openExitProxyPassword e masterKey (x_password_ciphertext x) i)"

definition unique_node_ids :: "string list \<Rightarrow> string list" where
  "unique_node_ids ids = rev (remdups (rev (filter (\<lambda>i. i \<noteq> '''') (map TrimSpace ids))))"

definition use_proxy_row :: "string option \<Rightarrow> gotime \<Rightarrow> node_row \<Rightarrow> node_row" where
  "use_proxy_row p now n = n\<lparr>n_exit_proxy_id := p, n_updated_at := unixMilli now\<rparr>"

definition assign_proxy :: "string \<Rightarrow> gotime \<Rightarrow> string \<Rightarrow> db \<Rightarrow> store_error + db" where
  "assign_proxy proxyID now nodeID d =
     (if find_active_node nodeID d = None then Inl ErrNotFound
      else Inr (update_nodes (\<lambda>n. n_id n = nodeID \<and> n_archived_at n = None) (use_proxy_row (Some proxyID) now) d))"

definition ReplaceExitProxyNodes ::
  "string \<Rightarrow> string list \<Rightarrow> gotime \<Rightarrow> db \<Rightarrow> (store_error + exit_proxy) \<times> db" where
  "ReplaceExitProxyNodes proxyID nodeIDs now d =
     (case GetExitProxy proxyID d of
        Inl err \<Rightarrow> (Inl err, d)
      | Inr _ \<Rightarrow> then_get_proxy proxyID (transact (\<lambda>d.
          rbind (rfold (assign_proxy proxyID now) (unique_node_ids nodeIDs)
            (update_nodes (\<lambda>n. n_archived_at n = None \<and> n_exit_proxy_id n = Some proxyID)
              (use_proxy_row None now) d)) (\<lambda>d1. Inr ((), d1))) d))"

section \<open>The catalog\<close>

text \<open>What the validation leaves, and the invariant of the table: unique ids and names, rows
  within the bounds of the schema, options only where the protocol has them, and references
  from nodes that point at a stored proxy.\<close>

definition proxy_options_ok :: "exit_proxy_row \<Rightarrow> bool" where
  "proxy_options_ok x \<longleftrightarrow> (x_skip_cert_verify x \<longrightarrow> x_tls x) \<and>
     (x_tls x \<longrightarrow> x_protocol x = ExitProxyProtocolHTTP) \<and>
     (x_udp x \<longrightarrow> x_protocol x = ExitProxyProtocolSOCKS5)"

definition proxy_name :: "exit_proxy_row \<Rightarrow> string" where
  "proxy_name x = nocase (x_name x)"

definition proxies_ok :: "db \<Rightarrow> bool" where
  "proxies_ok d \<longleftrightarrow> unique_by x_id (db_exit_proxies d) \<and> unique_by proxy_name (db_exit_proxies d) \<and>
     (\<forall>x\<in>set (db_exit_proxies d). exit_proxy_checks x \<and> proxy_options_ok x) \<and>
     (\<forall>n\<in>set (db_nodes d). \<forall>i. n_exit_proxy_id n = Some i \<longrightarrow> i \<in> x_id ` set (db_exit_proxies d))"

lemma normalizeExitProxy_Inr:
  assumes "normalizeExitProxy f = Inr p"
  shows "proxy_options_ok (exit_proxy_row_of i p ct ss cr up)"
    and "2 \<le> length (xf_name p) \<and> length (xf_name p) \<le> 64"
    and "xf_host p = TrimSpace (xf_host f) \<and> xf_host p \<noteq> ''''"
  using assms
  by (auto simp: normalizeExitProxy_def Let_def proxy_options_ok_def exit_proxy_row_of_def trimmed_fields_def
      ExitProxyProtocolHTTP_def ExitProxyProtocolSOCKS5_def split: if_splits)

text \<open>Sealing a password and opening it again gives the password, trimmed.\<close>

lemma seal_frame:
  "sealExitProxyPassword e mk i pw d = Inr (ct, d1) \<Longrightarrow> \<exists>k. d1 = d\<lparr>db_next_id := k\<rparr>"
  by (auto simp: sealExitProxyPassword_def Let_def Seal_Inr split: if_splits intro: exI [of _ "db_next_id d"])

lemma sealed_password:
  assumes "crypto_ok e" and "sealExitProxyPassword e mk i pw d = Inr (ct, d1)"
  shows "openExitProxyPassword e mk ct i = Inr (TrimSpace pw) \<and> (ct = '''' \<longleftrightarrow> TrimSpace pw = '''')"
proof (cases "TrimSpace pw = ''''")
  case True
  with assms(2) show ?thesis by (simp add: sealExitProxyPassword_def openExitProxyPassword_def)
next
  case False
  with assms(2) have s: "Seal e mk (TrimSpace pw) (exitProxyAAD i) d = Inr (ct, d1)"
    by (simp add: sealExitProxyPassword_def Let_def split: if_splits)
  have "length (env_random e NonceSize (db_next_id d)) = NonceSize" using assms(1) by (simp add: crypto_ok_def)
  with s have "ct \<noteq> ''''" by (auto simp: Seal_Inr NonceSize_def)
  with False Open_Seal [OF assms(1) s] show ?thesis by (simp add: openExitProxyPassword_def)
qed

lemma CreateExitProxy_Inr:
  assumes "CreateExitProxy e input d = (Inr p, d')"
  shows "\<exists>normalized ct k row. normalizeExitProxy (nx_fields input) = Inr normalized \<and>
    sealExitProxyPassword e (nx_master_key input) (nx_id input) (nx_password input) d = Inr (ct, d\<lparr>db_next_id := k\<rparr>) \<and>
    row = exit_proxy_row_of (nx_id input) normalized ct (nx_server_side input)
      (unixMilli (nx_now input)) (unixMilli (nx_now input)) \<and>
    exit_proxy_checks row \<and> (\<forall>x\<in>set (db_exit_proxies d). x_id x \<noteq> x_id row \<and> proxy_name x \<noteq> proxy_name row) \<and>
    d' = d\<lparr>db_next_id := k, db_exit_proxies := db_exit_proxies d @ [row]\<rparr> \<and> GetExitProxy (nx_id input) d' = Inr p"
proof -
  from assms obtain normalized ct d1 where n: "normalizeExitProxy (nx_fields input) = Inr normalized"
    and s: "sealExitProxyPassword e (nx_master_key input) (nx_id input) (nx_password input) d = Inr (ct, d1)"
    by (auto simp: CreateExitProxy_def then_get_proxy_def transact_def rbind_Inr_conv
        split: sum.splits prod.splits if_splits)
  from seal_frame [OF s] obtain k where k: "d1 = d\<lparr>db_next_id := k\<rparr>" by blast
  from assms n s show ?thesis
    by (auto simp: CreateExitProxy_def then_get_proxy_def transact_def rbind_Inr_conv Let_def k sql_exists_iff
        proxy_name_def split: sum.splits prod.splits if_splits)
qed

lemma proxies_ok_update_nodes:
  assumes "proxies_ok d" and "\<And>n. p n \<Longrightarrow> n_exit_proxy_id (f n) \<in> insert None (Some ` x_id ` set (db_exit_proxies d))"
  shows "proxies_ok (update_nodes p f d)"
proof -
  have "i \<in> x_id ` set (db_exit_proxies d)"
    if n: "n \<in> set (sql_update p f (db_nodes d))" and i: "n_exit_proxy_id n = Some i" for n i
  proof -
    from n obtain m where m: "m \<in> set (db_nodes d)" "n = (if p m then f m else m)" by (auto simp: set_sql_update)
    show ?thesis
    proof (cases "p m")
      case True
      then show ?thesis using assms(2) [OF True] m i by auto
    next
      case False
      then show ?thesis using assms(1) m i by (simp add: proxies_ok_def)
    qed
  qed
  with assms(1) show ?thesis by (simp add: proxies_ok_def update_nodes_def)
qed

lemma exit_proxy_id_row: "x_id (updated_proxy_row f ct ss up x) = x_id x"
  by (simp add: updated_proxy_row_def exit_proxy_row_of_def)

interpretation updated_proxy: row_update x_id "updated_proxy_row f ct ss up" for f ct ss up
  by unfold_locales (rule exit_proxy_id_row)

lemma snd_then_get_proxy [simp]: "snd (then_get_proxy i p) = snd p"
  by (cases p) (simp add: then_get_proxy_def)

lemma proxies_ok_next_id [simp]: "proxies_ok (d\<lparr>db_next_id := k\<rparr>) = proxies_ok d"
  by (simp add: proxies_ok_def)

lemma proxies_ok_Create: "proxies_ok d \<Longrightarrow> proxies_ok (snd (CreateExitProxy e input d))"
  unfolding CreateExitProxy_def snd_then_get_proxy
proof (rule transact_preserves, goal_cases)
  case (1 x d')
  then obtain normalized ct d1 row where n: "normalizeExitProxy (nx_fields input) = Inr normalized"
    and s: "sealExitProxyPassword e (nx_master_key input) (nx_id input) (nx_password input) d = Inr (ct, d1)"
    and row: "row = exit_proxy_row_of (nx_id input) normalized ct (nx_server_side input)
      (unixMilli (nx_now input)) (unixMilli (nx_now input))" "exit_proxy_checks row"
      "\<forall>x\<in>set (db_exit_proxies d1). x_id x \<noteq> x_id row \<and> proxy_name x \<noteq> proxy_name row"
    and d': "d' = d1\<lparr>db_exit_proxies := db_exit_proxies d1 @ [row]\<rparr>"
    by (auto simp: rbind_Inr_conv Let_def sql_exists_iff proxy_name_def split: if_splits)
  from seal_frame [OF s] obtain k where "d1 = d\<lparr>db_next_id := k\<rparr>" by blast
  with 1(1) have "proxies_ok d1" by simp
  with row normalizeExitProxy_Inr(1) [OF n] show ?case
    by (auto simp: proxies_ok_def d' unique_by_append1)
qed

lemma unique_by_update_one:
  assumes "unique_by key t" and "unique_by key' t" and "\<And>r. key (f r) = key r"
    and "r0 \<in> set t" "key r0 = k" and "\<forall>r\<in>set t. key r \<noteq> k \<longrightarrow> key' r \<noteq> key' (f r0)"
  shows "unique_by key' (sql_update (\<lambda>r. key r = k) f t)"
proof -
  have one: "r = r0" if "r \<in> set t" "key r = k" for r
    using unique_byD [OF assms(1) that(1) assms(4)] that(2) assms(5) by simp
  have "inj_on (\<lambda>r. key' (if key r = k then f r else r)) (set t)"
  proof (rule inj_onI)
    fix a b assume ab: "a \<in> set t" "b \<in> set t"
      and eq: "key' (if key a = k then f a else a) = key' (if key b = k then f b else b)"
    show "a = b"
    proof (cases "key a = k"; cases "key b = k")
      assume "key a \<noteq> k" "key b \<noteq> k"
      then show ?thesis using unique_byD [OF assms(2) ab] eq by simp
    next
      assume "key a = k" "key b = k"
      then show ?thesis using one ab by metis
    next
      assume k: "key a = k" "key b \<noteq> k"
      then have "a = r0" using one ab by blast
      with k ab eq assms(6) show ?thesis by auto
    next
      assume k: "key a \<noteq> k" "key b = k"
      then have "b = r0" using one ab by blast
      with k ab eq assms(6) show ?thesis by auto
    qed
  qed
  moreover have "distinct t" using assms(1) by (simp add: unique_by_def distinct_map)
  ultimately show ?thesis by (simp add: unique_by_def sql_update_def distinct_map o_def comp_inj_on inj_on_def)
qed

lemma proxies_ok_Update: "proxies_ok d \<Longrightarrow> proxies_ok (snd (UpdateExitProxy e i input d))"
  unfolding UpdateExitProxy_def snd_then_get_proxy
proof (rule transact_preserves, goal_cases)
  case (1 y d')
  then obtain normalized x ct d1 where n: "normalizeExitProxy (ux_fields input) = Inr normalized"
    and x: "find_exit_proxy i d = Some x"
    and s: "(case ux_password input of None \<Rightarrow> Inr (x_password_ciphertext x, d)
       | Some pw \<Rightarrow> sealExitProxyPassword e (ux_master_key input) i pw d) = Inr (ct, d1)"
    and c: "exit_proxy_checks (updated_proxy_row normalized ct (ux_server_side input) (unixMilli (ux_now input)) x)"
    and u: "\<forall>z\<in>set (db_exit_proxies d1). x_id z = i \<or> proxy_name z \<noteq> nocase (xf_name normalized)"
    and d': "d' = d1\<lparr>db_exit_proxies := sql_update (\<lambda>y. x_id y = i)
       (updated_proxy_row normalized ct (ux_server_side input) (unixMilli (ux_now input))) (db_exit_proxies d1)\<rparr>"
    by (auto simp: rbind_Inr_conv Let_def sql_exists_iff proxy_name_def split: if_splits option.splits)
  let ?f = "updated_proxy_row normalized ct (ux_server_side input) (unixMilli (ux_now input))"
  from s obtain k where k: "d1 = d\<lparr>db_next_id := k\<rparr>"
  proof (cases "ux_password input")
    case None
    with s show ?thesis by (intro that [of "db_next_id d"]) auto
  next
    case (Some pw)
    with s have "sealExitProxyPassword e (ux_master_key input) i pw d = Inr (ct, d1)" by simp
    from seal_frame [OF this] show ?thesis using that by blast
  qed
  have xi: "x \<in> set (db_exit_proxies d)" "x_id x = i"
    using x by (auto simp: find_exit_proxy_def dest: sql_first_SomeD)
  have ok: "unique_by x_id (db_exit_proxies d)" "unique_by proxy_name (db_exit_proxies d)"
    using 1(1) by (simp_all add: proxies_ok_def)
  have u1: "unique_by x_id (sql_update (\<lambda>y. x_id y = i) ?f (db_exit_proxies d))"
    by (rule updated_proxy.unique_update [OF ok(1)])
  have name: "proxy_name (?f x) = nocase (xf_name normalized)"
    by (simp add: proxy_name_def updated_proxy_row_def exit_proxy_row_of_def)
  have u2: "unique_by proxy_name (sql_update (\<lambda>y. x_id y = i) ?f (db_exit_proxies d))"
    by (rule unique_by_update_one [OF ok exit_proxy_id_row xi]) (use u name in \<open>auto simp: k\<close>)
  have rows: "exit_proxy_checks (?f z) \<and> proxy_options_ok (?f z)" if "z \<in> set (db_exit_proxies d)" "x_id z = i" for z
    using unique_byD [OF ok(1) that(1) xi(1)] that(2) xi(2) c normalizeExitProxy_Inr(1) [OF n]
    by (simp add: updated_proxy_row_def)
  have ids: "x_id ` set (sql_update (\<lambda>y. x_id y = i) ?f (db_exit_proxies d)) = x_id ` set (db_exit_proxies d)"
    unfolding set_map [symmetric] by (simp add: updated_proxy.map_key_update del: set_map)
  show ?case
    using 1(1) rows unfolding proxies_ok_def d' k
    by (simp add: u1 u2 ids ball_sql_update)
qed

lemma proxies_ok_Delete: "proxies_ok d \<Longrightarrow> proxies_ok (snd (DeleteExitProxy i d))"
  by (fastforce simp: proxies_ok_def DeleteExitProxy_def update_nodes_def set_sql_update set_sql_delete
      unique_by_delete split: if_splits)

lemma proxies_ok_Replace: "proxies_ok d \<Longrightarrow> proxies_ok (snd (ReplaceExitProxyNodes p ids now d))"
proof (cases "GetExitProxy p d")
  case (Inr q)
  assume ok: "proxies_ok d"
  have p: "p \<in> x_id ` set (db_exit_proxies d)"
    using Inr by (auto simp: GetExitProxy_def find_exit_proxy_def dest!: sql_first_SomeD split: option.splits)
  have same: "db_exit_proxies (update_nodes q f s) = db_exit_proxies s" for q f s
    by (simp add: update_nodes_def)
  let ?start = "update_nodes (\<lambda>n. n_archived_at n = None \<and> n_exit_proxy_id n = Some p) (use_proxy_row None now) d"
  have start: "proxies_ok ?start"
    by (rule proxies_ok_update_nodes [OF ok]) (simp add: use_proxy_row_def)
  have step: "proxies_ok s' \<and> db_exit_proxies s' = db_exit_proxies d"
    if "proxies_ok s \<and> db_exit_proxies s = db_exit_proxies d" "assign_proxy p now i s = Inr s'" for i s s'
  proof -
    have s': "s' = update_nodes (\<lambda>n. n_id n = i \<and> n_archived_at n = None) (use_proxy_row (Some p) now) s"
      using that(2) by (simp add: assign_proxy_def split: if_splits)
    have "proxies_ok s'" unfolding s'
      by (rule proxies_ok_update_nodes) (use that(1) p in \<open>simp_all add: use_proxy_row_def\<close>)
    with that(1) show ?thesis by (simp add: s' same)
  qed
  have "proxies_ok d2" if "rfold (assign_proxy p now) (unique_node_ids ids) ?start = Inr d2" for d2
  proof -
    have "proxies_ok d2 \<and> db_exit_proxies d2 = db_exit_proxies d"
      by (rule rfold_invariant [where P = "\<lambda>s. proxies_ok s \<and> db_exit_proxies s = db_exit_proxies d", OF that])
        (use start in \<open>simp add: same\<close>, rule step)
    then show ?thesis by simp
  qed
  then show ?thesis
    unfolding ReplaceExitProxyNodes_def Inr sum.case snd_then_get_proxy
    by (rule transact_preserves) (use ok in \<open>auto simp: rbind_Inr_conv\<close>)
qed (simp add: ReplaceExitProxyNodes_def)

section \<open>Passwords and assignments\<close>

text \<open>A stored password can be opened with the master key and is the one given, trimmed; what
  callers see of the proxy never contains the ciphertext.\<close>

lemma exit_proxy_password_kept:
  assumes "crypto_ok e" and "CreateExitProxy e input d = (Inr p, d')"
  shows "OpenExitProxyPassword e (nx_id input) (nx_master_key input) d' = Inr (TrimSpace (nx_password input)) \<and>
    x_password_ciphertext (xp_row p) = '''' \<and> (xp_password_set p \<longleftrightarrow> TrimSpace (nx_password input) \<noteq> '''')"
proof -
  from CreateExitProxy_Inr [OF assms(2)] obtain normalized ct k row where
    s: "sealExitProxyPassword e (nx_master_key input) (nx_id input) (nx_password input) d = Inr (ct, d\<lparr>db_next_id := k\<rparr>)"
    and row: "row = exit_proxy_row_of (nx_id input) normalized ct (nx_server_side input)
      (unixMilli (nx_now input)) (unixMilli (nx_now input))"
    and fresh: "\<forall>x\<in>set (db_exit_proxies d). x_id x \<noteq> x_id row \<and> proxy_name x \<noteq> proxy_name row"
    and d': "d' = d\<lparr>db_next_id := k, db_exit_proxies := db_exit_proxies d @ [row]\<rparr>"
    and p: "GetExitProxy (nx_id input) d' = Inr p" by blast
  have "sql_first (\<lambda>x. x_id x = nx_id input) (db_exit_proxies d) = None"
    using fresh by (simp add: sql_first_None row exit_proxy_row_of_def)
  then have f: "find_exit_proxy (nx_id input) d' = Some row"
    by (simp add: find_exit_proxy_def d' sql_first_append) (simp add: row exit_proxy_row_of_def)
  have "x_password_ciphertext row = ct" by (simp add: row exit_proxy_row_of_def)
  with f p sealed_password [OF assms(1) s] show ?thesis
    by (auto simp: OpenExitProxyPassword_def GetExitProxy_def attachExitProxyAssignments_def scanExitProxy_def
        without_ciphertext_def)
qed

lemma set_unique_node_ids: "set (unique_node_ids ids) = TrimSpace ` set ids - {''''}"
  by (auto simp: unique_node_ids_def)

text \<open>After the nodes of a proxy have been replaced, exactly the named active nodes use it.\<close>

definition uses_proxy :: "string \<Rightarrow> db \<Rightarrow> string \<Rightarrow> bool" where
  "uses_proxy p d i \<longleftrightarrow> (\<exists>n\<in>set (db_nodes d). n_id n = i \<and> n_archived_at n = None \<and> n_exit_proxy_id n = Some p)"

lemma assign_proxy_uses:
  assumes "assign_proxy p now i d = Inr d'"
  shows "uses_proxy p d' j \<longleftrightarrow> j = i \<or> uses_proxy p d j"
proof -
  have d': "d' = update_nodes (\<lambda>n. n_id n = i \<and> n_archived_at n = None) (use_proxy_row (Some p) now) d"
    and "find_active_node i d \<noteq> None" using assms by (auto simp: assign_proxy_def split: if_splits)
  then obtain m where "m \<in> set (db_nodes d)" "n_id m = i" "n_archived_at m = None"
    by (auto dest: find_active_nodeD)
  then show ?thesis
    unfolding d' uses_proxy_def update_nodes_def
    by (cases "j = i") (auto simp: bex_sql_update use_proxy_row_def)
qed

lemma assign_proxies_use:
  "rfold (assign_proxy p now) is d = Inr d' \<Longrightarrow> uses_proxy p d' j \<longleftrightarrow> j \<in> set is \<or> uses_proxy p d j"
proof (induction "is" arbitrary: d)
  case (Cons i "is")
  then obtain d1 where "assign_proxy p now i d = Inr d1" "rfold (assign_proxy p now) is d1 = Inr d'"
    by (auto simp: rbind_Inr_conv)
  with Cons.IH [of d1] show ?case by (auto simp: assign_proxy_uses)
qed simp

lemma replaced_proxy_nodes:
  assumes "ReplaceExitProxyNodes p ids now d = (Inr x, d')"
  shows "uses_proxy p d' j \<longleftrightarrow> j \<in> TrimSpace ` set ids - {''''}"
proof -
  let ?d0 = "update_nodes (\<lambda>n. n_archived_at n = None \<and> n_exit_proxy_id n = Some p) (use_proxy_row None now) d"
  have "rfold (assign_proxy p now) (unique_node_ids ids) ?d0 = Inr d'"
    using assms by (auto simp: ReplaceExitProxyNodes_def then_get_proxy_def transact_def rbind_Inr_conv
        split: sum.splits prod.splits)
  moreover have "\<not> uses_proxy p ?d0 j"
    by (auto simp: uses_proxy_def update_nodes_def bex_sql_update use_proxy_row_def)
  ultimately show ?thesis using assign_proxies_use set_unique_node_ids by blast
qed

end
