(* ===== verification/Nodes.thy ===== *)
theory Nodes
  imports Exit_Proxies Operations
begin

text \<open>
  Nodes (internal/store/node.go) and their Reality identity (internal/store/reality.go):
  creating, reading, changing and archiving a node, the settings of a VLESS Reality node and
  the rotation of its key generation.  Every change of a node publishes the next snapshot.
\<close>

section \<open>Data\<close>

record reality_settings =
  rs_handshake_server :: string
  rs_handshake_server_port :: int
  rs_desired_key_generation :: int

record update_node =
  un_name :: string
  un_provider :: string
  un_region :: string
  un_adapter_type :: string
  un_public_host :: string
  un_public_port :: int
  un_sni :: string
  un_tls_insecure :: bool
  un_tls_cert_fingerprint :: string
  un_tls_public_key_sha256 :: string
  un_enabled :: bool
  un_reality :: "reality_settings option"
  un_traffic_limit :: int
  un_traffic_reset_day :: int
  un_exit_proxy_id :: string
  un_now :: gotime

text \<open>\<open>NewNode\<close> has the fields of \<open>UpdateNode\<close> and the id.\<close>

record new_node =
  nn_id :: string
  nn_node :: update_node

text \<open>What the store answers with: the row, the Reality settings, the summary of the exit proxy.\<close>

record node =
  nd_row :: node_row
  nd_reality :: "reality_row option"
  nd_exit_proxy :: "exit_proxy option"

section \<open>Reality settings\<close>

definition normalizeVLESSRealitySettings :: "reality_settings \<Rightarrow> reality_settings" where
  "normalizeVLESSRealitySettings s =
     (let s1 = (if rs_handshake_server_port s = 0 then s\<lparr>rs_handshake_server_port := 443\<rparr> else s)
      in if rs_desired_key_generation s1 = 0 then s1\<lparr>rs_desired_key_generation := 1\<rparr> else s1)"

definition new_reality_row :: "string \<Rightarrow> reality_settings \<Rightarrow> gotime \<Rightarrow> reality_row" where
  "new_reality_row nodeID s now = \<lparr> r_node_id = nodeID, r_handshake_server = rs_handshake_server s,
     r_handshake_server_port = rs_handshake_server_port s,
     r_desired_key_generation = rs_desired_key_generation s, r_applied_key_generation = 0,
     r_public_key = '''', r_short_id = '''', r_material_applied_version = 0, r_material_reported_at = None,
     r_created_at = unixMilli now, r_updated_at = unixMilli now \<rparr>"

definition reality_again_row :: "reality_settings \<Rightarrow> gotime \<Rightarrow> reality_row \<Rightarrow> reality_row" where
  "reality_again_row s now r = r\<lparr>r_handshake_server := rs_handshake_server s,
     r_handshake_server_port := rs_handshake_server_port s,
     r_desired_key_generation := rs_desired_key_generation s, r_updated_at := unixMilli now\<rparr>"

text \<open>The upsert changes nothing, and is reported as a conflict, when it would lower the
  generation.\<close>

definition upsertVLESSRealitySettings ::
  "string \<Rightarrow> reality_settings \<Rightarrow> gotime \<Rightarrow> db \<Rightarrow> store_error + db" where
  "upsertVLESSRealitySettings nodeID settings now d =
     (let s = normalizeVLESSRealitySettings settings in
      if rs_handshake_server s = '''' \<or> rs_handshake_server_port s < 1 \<or>
         rs_handshake_server_port s > 65535 \<or> rs_desired_key_generation s < 1
      then Inl ErrConflict
      else if sql_length (rs_handshake_server s) < 1 \<or> sql_length (rs_handshake_server s) > 255 \<or>
              find_node nodeID d = None
      then Inl (ErrOther ''upsert VLESS Reality settings'')
      else case find_reality nodeID d of
             None \<Rightarrow> Inr (d\<lparr>db_reality := db_reality d @ [new_reality_row nodeID s now]\<rparr>)
           | Some r \<Rightarrow>
               if rs_desired_key_generation s \<ge> r_desired_key_generation r
               then Inr (d\<lparr>db_reality := sql_update (\<lambda>x. r_node_id x = nodeID) (reality_again_row s now) (db_reality d)\<rparr>)
               else Inl ErrConflict)"

section \<open>Reading\<close>

definition attachNodeExitProxies :: "node list \<Rightarrow> db \<Rightarrow> node list" where
  "attachNodeExitProxies nodes d =
     (let id_of = (\<lambda>n. coalesce '''' (n_exit_proxy_id (nd_row n)));
          proxies = getExitProxyMap (filter (\<lambda>i. i \<noteq> '''') (map id_of nodes)) d
      in map (\<lambda>n. case proxies (id_of n) of None \<Rightarrow> n | Some p \<Rightarrow> n\<lparr>nd_exit_proxy := Some p\<rparr>) nodes)"

definition read_node :: "db \<Rightarrow> node_row \<Rightarrow> node" where
  "read_node d n = \<lparr> nd_row = n,
     nd_reality = (if n_adapter_type n = AdapterSingBoxVLESSReality then find_reality (n_id n) d else None),
     nd_exit_proxy = None \<rparr>"

definition ListNodes :: "db \<Rightarrow> node list" where
  "ListNodes d = attachNodeExitProxies (map (read_node d)
     (sort_key (\<lambda>n. nocase (n_name n)) (filter (\<lambda>n. n_archived_at n = None) (db_nodes d)))) d"

definition GetNode :: "string \<Rightarrow> db \<Rightarrow> store_error + node" where
  "GetNode i d =
     (case find_active_node i d of
        None \<Rightarrow> Inl ErrNotFound
      | Some n \<Rightarrow> Inr (hd (attachNodeExitProxies [read_node d n] d)))"

definition then_get_node :: "string \<Rightarrow> (store_error + unit) \<times> db \<Rightarrow> (store_error + node) \<times> db" where
  "then_get_node i = (\<lambda>(r, d). (rbind r (\<lambda>_. GetNode i d), d))"

section \<open>Creating\<close>

text \<open>Zero port and zero reset day stand for the defaults.\<close>

definition default_node :: "update_node \<Rightarrow> update_node" where
  "default_node input =
     (let i1 = (if un_public_port input = 0 then input\<lparr>un_public_port := 443\<rparr> else input)
      in if un_traffic_reset_day i1 = 0 then i1\<lparr>un_traffic_reset_day := 1\<rparr> else i1)"

definition initial_status :: "update_node \<Rightarrow> string" where
  "initial_status input = (if un_enabled input then ''pending'' else ''disabled'')"

definition new_agent :: node_agent where
  "new_agent = \<lparr> na_installation_id = None, na_credential_hash = None, na_version = '''', na_protocol_version = 0,
     na_os_name = '''', na_os_version = '''', na_architecture = '''', na_core_name = '''', na_core_version = '''',
     na_core_running = False, na_adapter_status = ''unknown'', na_adapter_version = '''',
     na_adapter_error_code = '''', na_adapter_last_probed_at = None, na_adapter_last_discovered_at = None,
     na_last_seen_at = None, na_last_applied_at = None \<rparr>"

definition new_traffic :: "update_node \<Rightarrow> gotime \<Rightarrow> node_traffic" where
  "new_traffic input cycleStart = \<lparr> nt_upload = 0, nt_download = 0, nt_unattributed = 0, nt_last_report_at = None,
     nt_limit = un_traffic_limit input, nt_reset_day = un_traffic_reset_day input,
     nt_cycle_started_at = Some (unixMilli cycleStart), nt_cycle_upload = 0, nt_cycle_download = 0,
     nt_calibration = None, nt_calibration_proxy = None, nt_calibrated_at = None \<rparr>"

definition new_node_row :: "string \<Rightarrow> update_node \<Rightarrow> gotime \<Rightarrow> node_row" where
  "new_node_row i input cycleStart = \<lparr> n_id = i, n_name = un_name input, n_provider = un_provider input,
     n_region = un_region input, n_adapter_type = un_adapter_type input, n_public_host = un_public_host input,
     n_public_port = un_public_port input, n_sni = un_sni input, n_tls_insecure = un_tls_insecure input,
     n_tls_cert_fingerprint = un_tls_cert_fingerprint input,
     n_tls_public_key_sha256 = un_tls_public_key_sha256 input, n_sui_targets = [],
     n_enabled = un_enabled input, n_status = initial_status input, n_status_reason = '''',
     n_desired_version = 1, n_applied_version = 0, n_exit_proxy_id = nullableString (un_exit_proxy_id input),
     n_agent = new_agent,
     n_usage = \<lparr> nu_enabled = False, nu_available = False, nu_outbox_batches = 0, nu_error_code = '''',
       nu_sampled_at = None \<rparr>,
     n_host = None, n_traffic = new_traffic input cycleStart,
     n_online = \<lparr> no_users = 0, no_connections = 0, no_unknown_users = 0, no_sampled_at = None,
       no_last_report_at = None \<rparr>,
     n_created_at = unixMilli (un_now input), n_updated_at = unixMilli (un_now input), n_archived_at = None \<rparr>"

text \<open>The constraints of the \<open>nodes\<close> table on the columns an administrator sets.\<close>

definition node_checks :: "update_node \<Rightarrow> db \<Rightarrow> bool" where
  "node_checks input d \<longleftrightarrow>
     un_adapter_type input \<in> {''native_hysteria2'', ''standalone_sing_box'', ''s_ui'', ''sing_box_vless_reality''} \<and>
     1 \<le> un_public_port input \<and> un_public_port input \<le> 65535 \<and> 0 \<le> un_traffic_limit input \<and>
     1 \<le> un_traffic_reset_day input \<and> un_traffic_reset_day input \<le> 31 \<and>
     (case nullableString (un_exit_proxy_id input) of None \<Rightarrow> True
      | Some p \<Rightarrow> sql_exists (\<lambda>x. x_id x = p) (db_exit_proxies d))"

definition name_taken :: "string \<Rightarrow> string \<Rightarrow> db \<Rightarrow> bool" where
  "name_taken i name d = sql_exists (\<lambda>n. n_id n \<noteq> i \<and> n_archived_at n = None \<and> nocase (n_name n) = nocase name)
     (db_nodes d)"

definition create_node_body :: "env \<Rightarrow> string \<Rightarrow> update_node \<Rightarrow> db \<Rightarrow> store_error + unit \<times> db" where
  "create_node_body e i input d =
     (let cycleStart = trafficCycleStart (un_now input) (un_traffic_reset_day input) in
      if \<not> node_checks input d \<or> name_taken i (un_name input) d \<or> find_node i d \<noteq> None
      then Inl (ErrOther ''insert node'')
      else
        let d1 = d\<lparr>db_nodes := db_nodes d @ [new_node_row i input cycleStart]\<rparr> in
        rbind (if un_adapter_type input = AdapterSingBoxVLESSReality then
                 (case un_reality input of
                    None \<Rightarrow> Inl ErrConflict
                  | Some s \<Rightarrow> upsertVLESSRealitySettings i s (un_now input) d1)
               else Inr d1) (\<lambda>d2.
        rbind (insertSnapshot e i (un_adapter_type input) 1 (un_now input) d2) (\<lambda>d3. Inr ((), d3))))"

definition CreateNode :: "env \<Rightarrow> new_node \<Rightarrow> db \<Rightarrow> (store_error + node) \<times> db" where
  "CreateNode e input d = then_get_node (nn_id input)
     (transact (create_node_body e (nn_id input) (default_node (nn_node input))) d)"

section \<open>Changing\<close>

definition update_node_row :: "update_node \<Rightarrow> int \<Rightarrow> gotime \<Rightarrow> int \<Rightarrow> int \<Rightarrow> node_row \<Rightarrow> node_row" where
  "update_node_row input version cycleStart cycleUpload cycleDownload n = n\<lparr>n_name := un_name input,
     n_provider := un_provider input, n_region := un_region input, n_adapter_type := un_adapter_type input,
     n_public_host := un_public_host input, n_public_port := un_public_port input, n_sni := un_sni input,
     n_tls_insecure := un_tls_insecure input, n_tls_cert_fingerprint := un_tls_cert_fingerprint input,
     n_tls_public_key_sha256 := un_tls_public_key_sha256 input, n_enabled := un_enabled input,
     n_status := initial_status input, n_status_reason := '''', n_desired_version := version,
     n_updated_at := unixMilli (un_now input), n_exit_proxy_id := nullableString (un_exit_proxy_id input),
     n_traffic := (n_traffic n)\<lparr>nt_limit := un_traffic_limit input, nt_reset_day := un_traffic_reset_day input,
       nt_cycle_started_at := Some (unixMilli cycleStart), nt_cycle_upload := cycleUpload,
       nt_cycle_download := cycleDownload\<rparr>\<rparr>"

definition drop_calibration_row :: "node_row \<Rightarrow> node_row" where
  "drop_calibration_row n = n\<lparr>n_traffic := clear_calibration True (n_traffic n)\<rparr>"

text \<open>The adapter can change only while nothing depends on it.\<close>

definition adapter_in_use :: "string \<Rightarrow> node_row \<Rightarrow> db \<Rightarrow> bool" where
  "adapter_in_use i n d \<longleftrightarrow> installation_of n \<noteq> '''' \<or>
     sql_exists (\<lambda>a. a_node_id a = i) (db_assignments d) \<or> sql_exists (\<lambda>c. c_node_id c = i) (db_credentials d) \<or>
     sql_exists (\<lambda>t. et_node_id t = i) (db_tokens d)"

definition update_reality :: "string \<Rightarrow> string \<Rightarrow> update_node \<Rightarrow> db \<Rightarrow> store_error + db" where
  "update_reality i currentAdapter input d =
     (if un_adapter_type input = AdapterSingBoxVLESSReality then
        rbind (case un_reality input of
                 Some s \<Rightarrow> Inr s
               | None \<Rightarrow>
                   if currentAdapter = AdapterSingBoxVLESSReality then
                     (case find_reality i d of
                        None \<Rightarrow> Inl (ErrOther ''read current VLESS Reality settings'')
                      | Some r \<Rightarrow> Inr \<lparr> rs_handshake_server = r_handshake_server r,
                          rs_handshake_server_port = r_handshake_server_port r,
                          rs_desired_key_generation = r_desired_key_generation r \<rparr>)
                   else Inl ErrConflict)
          (\<lambda>settings. upsertVLESSRealitySettings i settings (un_now input) d)
      else if currentAdapter = AdapterSingBoxVLESSReality
      then Inr (d\<lparr>db_reality := sql_delete (\<lambda>r. r_node_id r = i) (db_reality d)\<rparr>)
      else Inr d)"

definition mark_node_assignments :: "string \<Rightarrow> int \<Rightarrow> gotime \<Rightarrow> db \<Rightarrow> db" where
  "mark_node_assignments i version now = update_assignments (\<lambda>a. a_node_id a = i) (pending_row version now)"

definition update_node_body :: "env \<Rightarrow> string \<Rightarrow> update_node \<Rightarrow> db \<Rightarrow> store_error + unit \<times> db" where
  "update_node_body e i input d =
     (case find_active_node i d of
        None \<Rightarrow> Inl ErrNotFound
      | Some n \<Rightarrow>
          if un_adapter_type input \<noteq> n_adapter_type n \<and> adapter_in_use i n d then Inl ErrConflict
          else
            let version = n_desired_version n + 1;
                cycleStart = trafficCycleStart (un_now input) (un_traffic_reset_day input) in
            rbind (trafficCycleTotalsTx i cycleStart
                     (trafficCycleNextStart cycleStart (un_traffic_reset_day input)) d)
              (\<lambda>(cycleUpload, cycleDownload).
            if \<not> node_checks input d \<or> name_taken i (un_name input) d then Inl (ErrOther ''update node'')
            else
              let d1 = update_nodes (\<lambda>x. n_id x = i \<and> n_archived_at x = None)
                         (update_node_row input version cycleStart cycleUpload cycleDownload) d;
                  d2 = (if nt_reset_day (n_traffic n) \<noteq> un_traffic_reset_day input
                        then update_nodes (\<lambda>x. n_id x = i) drop_calibration_row d1 else d1) in
              rbind (update_reality i (n_adapter_type n) input d2) (\<lambda>d3.
              rbind (insertSnapshot e i (un_adapter_type input) version (un_now input)
                       (supersede_snapshots i (un_now input) d3)) (\<lambda>d4.
              Inr ((), mark_node_assignments i version (un_now input) d4)))))"

definition UpdateNode :: "env \<Rightarrow> string \<Rightarrow> update_node \<Rightarrow> db \<Rightarrow> (store_error + node) \<times> db" where
  "UpdateNode e i input d = then_get_node i (transact (update_node_body e i (default_node input)) d)"

section \<open>Archiving\<close>

definition archive_node_row :: "gotime \<Rightarrow> node_row \<Rightarrow> node_row" where
  "archive_node_row now n = n\<lparr>n_enabled := False, n_status := ''disabled'', n_archived_at := Some (unixMilli now),
     n_updated_at := unixMilli now\<rparr>"

definition assigned_users :: "string \<Rightarrow> db \<Rightarrow> (assignment_row \<times> user_row) list" where
  "assigned_users i d = concat (map (\<lambda>a. case find_user (a_user_id a) d of None \<Rightarrow> [] | Some u \<Rightarrow> [(a, u)])
     (filter (\<lambda>a. a_node_id a = i) (db_assignments d)))"

definition ArchiveNodeWithForce :: "string \<Rightarrow> bool \<Rightarrow> gotime \<Rightarrow> db \<Rightarrow> (store_error + unit) \<times> db" where
  "ArchiveNodeWithForce i force now = transact (\<lambda>d.
     case find_active_node i d of
       None \<Rightarrow> Inl ErrNotFound
     | Some n \<Rightarrow>
         if force \<and> n_enabled n then Inl ErrNodeEnabled
         else if sql_exists (\<lambda>(a, u). u_archived_at u = None) (assigned_users i d) then Inl ErrConflict
         else if \<not> force \<and>
                (sql_exists (\<lambda>(a, u). u_archived_at u \<noteq> None \<and>
                   (a_state a \<noteq> ''applied'' \<or> a_applied_version a < a_desired_version a)) (assigned_users i d) \<or>
                 (installation_of n \<noteq> '''' \<and> n_applied_version n < n_desired_version n))
         then Inl ErrPending
         else Inr ((), update_nodes (\<lambda>x. n_id x = i \<and> n_archived_at x = None) (archive_node_row now) d))"

definition ArchiveNode :: "string \<Rightarrow> gotime \<Rightarrow> db \<Rightarrow> (store_error + unit) \<times> db" where
  "ArchiveNode i now = ArchiveNodeWithForce i False now"

section \<open>Rotating the Reality identity\<close>

definition rotate_identity_body ::
  "env \<Rightarrow> string \<Rightarrow> int \<Rightarrow> int \<Rightarrow> gotime \<Rightarrow> db \<Rightarrow> store_error + unit \<times> db" where
  "rotate_identity_body e i expectedGeneration expectedVersion now d =
     (case find_active_node i d of
        None \<Rightarrow> Inl ErrNotFound
      | Some n \<Rightarrow>
          let r = find_reality i d;
              desiredGeneration = coalesce 0 (map_option r_desired_key_generation r);
              appliedGeneration = coalesce 0 (map_option r_applied_key_generation r);
              publicKey = coalesce '''' (map_option r_public_key r);
              shortID = coalesce '''' (map_option r_short_id r);
              materialVersion = coalesce 0 (map_option r_material_applied_version r) in
          if n_adapter_type n \<noteq> AdapterSingBoxVLESSReality then Inl ErrUnsupported
          else if desiredGeneration \<noteq> expectedGeneration \<or> n_desired_version n \<noteq> expectedVersion
          then Inl ErrConflict
          else if installation_of n = '''' \<or> n_desired_version n \<noteq> n_applied_version n \<or>
                  desiredGeneration \<noteq> appliedGeneration \<or> materialVersion \<noteq> n_applied_version n \<or>
                  publicKey = '''' \<or> shortID = ''''
          then Inl ErrPending
          else
            let d1 = d\<lparr>db_reality := sql_update
                       (\<lambda>x. r_node_id x = i \<and> r_desired_key_generation x = expectedGeneration)
                       (\<lambda>x. x\<lparr>r_desired_key_generation := r_desired_key_generation x + 1,
                              r_updated_at := unixMilli now\<rparr>) (db_reality d)\<rparr> in
            if sql_count (\<lambda>x. r_node_id x = i \<and> r_desired_key_generation x = expectedGeneration) (db_reality d) \<noteq> 1
            then Inl ErrConflict
            else rbind (bumpNodeSnapshot e i now d1) (\<lambda>(version, d2).
              Inr ((), update_nodes (\<lambda>x. n_id x = i)
                (\<lambda>x. x\<lparr>n_status := (if n_enabled n then ''pending'' else ''disabled''), n_status_reason := '''',
                       n_updated_at := unixMilli now\<rparr>) (mark_node_assignments i version now d2))))"

definition RotateVLESSRealityIdentity ::
  "env \<Rightarrow> string \<Rightarrow> int \<Rightarrow> int \<Rightarrow> gotime \<Rightarrow> db \<Rightarrow> (store_error + node) \<times> db" where
  "RotateVLESSRealityIdentity e i expectedGeneration expectedVersion now d =
     (if expectedGeneration < 1 \<or> expectedVersion < 1 then (Inl ErrConflict, d)
      else then_get_node i (transact (rotate_identity_body e i expectedGeneration expectedVersion now) d))"

section \<open>Nodes keep the fleet's invariants\<close>

lemma snd_then_get_node [simp]: "snd (then_get_node i p) = snd p"
  by (cases p) (simp add: then_get_node_def)

lemma upsertReality_frame: "upsertVLESSRealitySettings i s now d = Inr d' \<Longrightarrow> \<exists>t. d' = d\<lparr>db_reality := t\<rparr>"
  by (auto simp: upsertVLESSRealitySettings_def Let_def split: if_splits option.splits)

lemma update_reality_frame: "update_reality i a input d = Inr d' \<Longrightarrow> \<exists>t. d' = d\<lparr>db_reality := t\<rparr>"
  by (auto simp: update_reality_def rbind_Inr_conv intro: exI [of _ "db_reality d"] dest: upsertReality_frame
      split: if_splits option.splits)

text \<open>A key generation never goes back.\<close>

lemma upsertReality_generation:
  assumes "upsertVLESSRealitySettings i s now d = Inr d'" and "find_reality i d = Some r"
  shows "\<exists>r'. find_reality i d' = Some r' \<and> r_desired_key_generation r \<le> r_desired_key_generation r' \<and>
    r_applied_key_generation r' = r_applied_key_generation r \<and> r_public_key r' = r_public_key r"
proof -
  have "sql_first (\<lambda>x. r_node_id x = i) (sql_update (\<lambda>x. r_node_id x = i) (reality_again_row s' now) (db_reality d)) =
      map_option (\<lambda>x. if r_node_id x = i then reality_again_row s' now x else x) (find_reality i d)" for s'
    unfolding find_reality_def by (rule sql_first_update) (simp add: reality_again_row_def)
  moreover have "r_node_id r = i" using assms(2) by (auto simp: find_reality_def dest: sql_first_SomeD)
  ultimately show ?thesis using assms
    by (auto simp: upsertVLESSRealitySettings_def Let_def find_reality_def reality_again_row_def split: if_splits)
qed

text \<open>A new node starts with empty counters, and nothing in the tables refers to it.\<close>

lemma fleet_ok_new_node:
  assumes ok: "fleet_ok d" and fresh: "find_node i d = None" and n: "n_id n = i" "n_desired_version n = 1"
      "nt_upload (n_traffic n) = 0" "nt_download (n_traffic n) = 0" "nt_unattributed (n_traffic n) = 0"
    and snap: "ds_node_id snap = i" "ds_version snap = 1"
  shows "fleet_ok (d\<lparr>db_nodes := db_nodes d @ [n], db_snapshots := db_snapshots d @ [snapshot_row_of e now snap]\<rparr>)"
    (is "fleet_ok ?d")
proof -
  have new: "\<forall>m\<in>set (db_nodes d). n_id m \<noteq> i" using fresh by (simp add: find_node_def sql_first_None)
  have nb: "\<forall>b\<in>set (db_batches d). b_node_id b \<noteq> i" and bi: "\<forall>x\<in>set (db_batch_items d). bi_node_id x \<noteq> i"
    using ok new by (force simp: fleet_ok_def ledger_ok_def ledger_nodes_def ledger_batches_def)+
  have "sum_by (\<lambda>b. b_node_id b = i) f (db_batches d) = 0" for f using nb by (intro sum_by_none) auto
  moreover have "sum_by (unattributed_item i) f (db_batch_items d) = 0" for f
    using bi by (intro sum_by_none) (auto simp: unattributed_item_def)
  ultimately have "node_counts (db_batches d) (db_batch_items d) n" using n by (simp add: node_counts_def)
  then have "ledger_ok ?d" using ok new n(1)
    by (auto simp: fleet_ok_def ledger_ok_def counters_ok_def ledger_users_def ledger_assignments_def
        ledger_totals_def ledger_items_def ledger_nodes_def ledger_batches_def total_of_def unique_by_append1)
  moreover have ns: "\<forall>s\<in>set (db_snapshots d). s_node_id s \<noteq> i"
    using ok new by (force simp: fleet_ok_def versions_ok_def)
  then have "versions_ok ?d" using ok new n snap
    by (auto simp: fleet_ok_def versions_ok_def unique_by_append1 snapshot_row_of_def skey_def)
  moreover have "items_known ?d" using ok by (simp add: fleet_ok_def items_known_def)
  ultimately show ?thesis by (simp add: fleet_ok_def)
qed

lemma create_node_body_Inr:
  assumes "create_node_body e i input d = Inr (x, d')"
  shows "\<exists>n t snap. find_node i d = None \<and> node_checks input d \<and> \<not> name_taken i (un_name input) d \<and>
    n = new_node_row i input (trafficCycleStart (un_now input) (un_traffic_reset_day input)) \<and>
    build_snapshot i (un_adapter_type input) 1 (un_now input) (d\<lparr>db_nodes := db_nodes d @ [n], db_reality := t\<rparr>) = Inr snap \<and>
    d' = d\<lparr>db_nodes := db_nodes d @ [n], db_reality := t,
      db_snapshots := db_snapshots d @ [snapshot_row_of e (un_now input) snap]\<rparr>"
proof -
  let ?n = "new_node_row i input (trafficCycleStart (un_now input) (un_traffic_reset_day input))"
  let ?d1 = "d\<lparr>db_nodes := db_nodes d @ [?n]\<rparr>"
  from assms obtain d2 where c: "find_node i d = None" "node_checks input d" "\<not> name_taken i (un_name input) d"
    and r: "(if un_adapter_type input = AdapterSingBoxVLESSReality then
       case un_reality input of None \<Rightarrow> Inl ErrConflict | Some s \<Rightarrow> upsertVLESSRealitySettings i s (un_now input) ?d1
       else Inr ?d1) = Inr d2"
    and s: "insertSnapshot e i (un_adapter_type input) 1 (un_now input) d2 = Inr d'"
    by (auto simp: create_node_body_def Let_def rbind_Inr_conv split: if_splits)
  have "\<exists>t. d2 = ?d1\<lparr>db_reality := t\<rparr>"
    using r by (auto dest: upsertReality_frame intro: exI [of _ "db_reality d"] split: if_splits option.splits)
  then obtain t where t: "d2 = ?d1\<lparr>db_reality := t\<rparr>" by blast
  from s obtain snap where "build_snapshot i (un_adapter_type input) 1 (un_now input) d2 = Inr snap"
    "d' = d2\<lparr>db_snapshots := db_snapshots d2 @ [snapshot_row_of e (un_now input) snap]\<rparr>"
    unfolding insertSnapshot_Inr by blast
  with c t show ?thesis by (intro exI [of _ ?n] exI [of _ t] exI [of _ snap]) simp
qed

lemma new_node_row_simps [simp]:
  "n_id (new_node_row i input cs) = i" "n_desired_version (new_node_row i input cs) = 1"
  "nt_upload (n_traffic (new_node_row i input cs)) = 0" "nt_download (n_traffic (new_node_row i input cs)) = 0"
  "nt_unattributed (n_traffic (new_node_row i input cs)) = 0" "n_archived_at (new_node_row i input cs) = None"
  by (simp_all add: new_node_row_def new_traffic_def)

lemma fleet_ok_CreateNode: "fleet_ok d \<Longrightarrow> fleet_ok (snd (CreateNode e input d))"
  unfolding CreateNode_def snd_then_get_node
proof (rule transact_preserves, goal_cases)
  case (1 x d')
  let ?in = "default_node (nn_node input)"
  from create_node_body_Inr [OF 1(2)] obtain n t snap where fresh: "find_node (nn_id input) d = None"
    and n: "n = new_node_row (nn_id input) ?in (trafficCycleStart (un_now ?in) (un_traffic_reset_day ?in))"
    and b: "build_snapshot (nn_id input) (un_adapter_type ?in) 1 (un_now ?in)
        (d\<lparr>db_nodes := db_nodes d @ [n], db_reality := t\<rparr>) = Inr snap"
    and d': "d' = d\<lparr>db_nodes := db_nodes d @ [n], db_reality := t,
      db_snapshots := db_snapshots d @ [snapshot_row_of e (un_now ?in) snap]\<rparr>" by blast
  let ?d0 = "d\<lparr>db_nodes := db_nodes d @ [n], db_snapshots := db_snapshots d @ [snapshot_row_of e (un_now ?in) snap]\<rparr>"
  have "fleet_ok ?d0"
    by (rule fleet_ok_new_node [OF 1(1) fresh]) (use build_snapshot_fields [OF b] in \<open>simp_all add: n\<close>)
  moreover have "d' = ?d0\<lparr>db_reality := t\<rparr>" by (simp add: d')
  ultimately show ?case by (simp only: fleet_ok_tables)
qed

lemma fleet_ok_ArchiveNode: "fleet_ok d \<Longrightarrow> fleet_ok (snd (ArchiveNodeWithForce i force now d))"
proof -
  assume ok: "fleet_ok d"
  have "fleet_ok (update_nodes p (archive_node_row now) d)" for p
    using ok by (subst fleet_ok_update_nodes)
      (simp_all add: archive_node_row_def node_view_def node_version_view_def)
  note archived = this
  show ?thesis unfolding ArchiveNodeWithForce_def
    by (rule transact_preserves) (use ok archived in \<open>auto split: option.splits if_splits\<close>)
qed

lemma fleet_ok_mark_node [simp]: "fleet_ok (mark_node_assignments i v now d) = fleet_ok d"
  unfolding mark_node_assignments_def
  by (rule fleet_ok_update_assignments) (simp add: assignment_view_def akey_def pending_row_def)

section \<open>What a change of a node does\<close>

definition changed_node_row :: "update_node \<Rightarrow> int \<Rightarrow> gotime \<Rightarrow> int \<Rightarrow> int \<Rightarrow> bool \<Rightarrow> node_row \<Rightarrow> node_row" where
  "changed_node_row input v cs up down reset n =
     (if reset then drop_calibration_row (update_node_row input v cs up down n) else update_node_row input v cs up down n)"

lemma changed_node_row_simps [simp]:
  "n_id (changed_node_row input v cs up down reset n) = n_id n"
  "n_desired_version (changed_node_row input v cs up down reset n) = v"
  "n_archived_at (changed_node_row input v cs up down reset n) = n_archived_at n"
  "node_view (changed_node_row input v cs up down reset n) = node_view n"
  "n_name (changed_node_row input v cs up down reset n) = un_name input"
  "n_adapter_type (changed_node_row input v cs up down reset n) = un_adapter_type input"
  "n_enabled (changed_node_row input v cs up down reset n) = un_enabled input"
  "n_public_port (changed_node_row input v cs up down reset n) = un_public_port input"
  "n_exit_proxy_id (changed_node_row input v cs up down reset n) = nullableString (un_exit_proxy_id input)"
  "n_agent (changed_node_row input v cs up down reset n) = n_agent n"
  by (simp_all add: changed_node_row_def drop_calibration_row_def update_node_row_def node_view_def clear_calibration_def)

text \<open>With unique ids the two UPDATE statements on the node are one.\<close>

lemma changed_nodes_eq:
  assumes u: "unique_by n_id (db_nodes d)" and n: "find_active_node i d = Some n"
  shows "(if reset then update_nodes (\<lambda>x. n_id x = i) drop_calibration_row
       (update_nodes (\<lambda>x. n_id x = i \<and> n_archived_at x = None) (update_node_row input v cs up down) d)
     else update_nodes (\<lambda>x. n_id x = i \<and> n_archived_at x = None) (update_node_row input v cs up down) d) =
   update_nodes (\<lambda>x. n_id x = i) (changed_node_row input v cs up down reset) d"
proof -
  have "x = n" if "x \<in> set (db_nodes d)" "n_id x = i" for x
    using unique_byD [OF u that(1)] find_active_nodeD [OF n] that(2) by blast
  then have "n_archived_at x = None" if "x \<in> set (db_nodes d)" "n_id x = i" for x
    using find_active_nodeD [OF n] that by blast
  then show ?thesis
    by (auto simp: update_nodes_def sql_update_def changed_node_row_def update_node_row_def)
qed

lemma update_node_body_Inr:
  assumes u: "unique_by n_id (db_nodes d)" and b: "update_node_body e i input d = Inr (x, d')"
  shows "\<exists>n v cs up down reset t snap d2. find_active_node i d = Some n \<and> v = n_desired_version n + 1 \<and>
    (un_adapter_type input = n_adapter_type n \<or> \<not> adapter_in_use i n d) \<and>
    node_checks input d \<and> \<not> name_taken i (un_name input) d \<and>
    d2 = update_nodes (\<lambda>x. n_id x = i) (changed_node_row input v cs up down reset) (d\<lparr>db_reality := t\<rparr>) \<and>
    build_snapshot i (un_adapter_type input) v (un_now input) (supersede_snapshots i (un_now input) d2) = Inr snap \<and>
    (\<forall>s\<in>set (db_snapshots d). skey s \<noteq> (i, v)) \<and>
    d' = mark_node_assignments i v (un_now input) (d2\<lparr>db_snapshots :=
      db_snapshots (supersede_snapshots i (un_now input) d) @ [snapshot_row_of e (un_now input) snap]\<rparr>)"
proof -
  from b obtain n where n: "find_active_node i d = Some n"
    by (auto simp: update_node_body_def split: option.splits)
  define v where "v = n_desired_version n + 1"
  define cs where "cs = trafficCycleStart (un_now input) (un_traffic_reset_day input)"
  define reset where "reset = (nt_reset_day (n_traffic n) \<noteq> un_traffic_reset_day input)"
  note body = b [unfolded update_node_body_def n option.case Let_def cs_def [symmetric] v_def [symmetric] reset_def [symmetric]
    changed_nodes_eq [OF u n]]
  from body obtain up down d3 d4 where g: "un_adapter_type input = n_adapter_type n \<or> \<not> adapter_in_use i n d"
    "node_checks input d" "\<not> name_taken i (un_name input) d"
    and r: "update_reality i (n_adapter_type n) input
        (update_nodes (\<lambda>x. n_id x = i) (changed_node_row input v cs up down reset) d) = Inr d3"
    and s: "insertSnapshot e i (un_adapter_type input) v (un_now input) (supersede_snapshots i (un_now input) d3) = Inr d4"
    and d': "d' = mark_node_assignments i v (un_now input) d4"
    by (auto simp: rbind_Inr_conv split: if_splits)
  from update_reality_frame [OF r] obtain t where
    "d3 = (update_nodes (\<lambda>x. n_id x = i) (changed_node_row input v cs up down reset) d)\<lparr>db_reality := t\<rparr>" by blast
  then have d3: "d3 = update_nodes (\<lambda>x. n_id x = i) (changed_node_row input v cs up down reset) (d\<lparr>db_reality := t\<rparr>)"
    by (simp add: update_nodes_def)
  have keys: "(\<forall>x\<in>set (db_snapshots (supersede_snapshots i now d3)). skey x \<noteq> k) \<longleftrightarrow> (\<forall>x\<in>set (db_snapshots d). skey x \<noteq> k)"
    for k now
    using supersede.all_keys_update [where Q = "\<lambda>y. y \<noteq> k" and t = "db_snapshots d" and now = now
        and p = "\<lambda>s. s_node_id s = i \<and> s_superseded_at s = None"]
    by (simp add: supersede_snapshots_def d3 update_nodes_def supersede_row_def [abs_def])
  from s obtain snap where "build_snapshot i (un_adapter_type input) v (un_now input)
      (supersede_snapshots i (un_now input) d3) = Inr snap" "\<forall>s\<in>set (db_snapshots d). skey s \<noteq> (i, v)"
    "d4 = d3\<lparr>db_snapshots := db_snapshots (supersede_snapshots i (un_now input) d) @ [snapshot_row_of e (un_now input) snap]\<rparr>"
    unfolding insertSnapshot_Inr keys by (auto simp: supersede_snapshots_def d3 update_nodes_def)
  with n g d3 d' v_def show ?thesis by blast
qed

lemma fleet_ok_published:
  assumes ok: "fleet_ok d" and n: "find_active_node i d = Some n" "v = n_desired_version n + 1"
    and f: "\<And>m. node_view (f m) = node_view m" "\<And>m. n_id (f m) = n_id m" "\<And>m. n_desired_version (f m) = v"
    and snap: "ds_node_id snap = i" "ds_version snap = v" and fresh: "\<forall>s\<in>set (db_snapshots d). skey s \<noteq> (i, v)"
  shows "fleet_ok ((update_nodes (\<lambda>x. n_id x = i) f (d\<lparr>db_reality := t\<rparr>))\<lparr>db_snapshots :=
      db_snapshots (supersede_snapshots i now d) @ [snapshot_row_of e now snap]\<rparr>)" (is "fleet_ok ?d")
proof -
  let ?b = "(bumped i v now d)\<lparr>db_snapshots := db_snapshots (bumped i v now d) @ [snapshot_row_of e now snap]\<rparr>"
  have "versions_ok ?b"
    by (rule versions_ok_published [OF _ n _ fresh refl]) (use ok snap in \<open>simp_all add: fleet_ok_def\<close>)
  moreover have "map node_version_view (db_nodes ?d) = map node_version_view (db_nodes ?b)"
    by (simp add: update_nodes_def bumped_def sql_update_def node_version_view_def bump_row_def f)
  moreover have "db_snapshots ?d = db_snapshots ?b"
    by (simp add: supersede_snapshots_def bumped_def supersede_row_def [abs_def])
  ultimately have "versions_ok ?d" using versions_ok_view by metis
  moreover have "ledger_view ?d = ledger_view d"
    by (simp add: ledger_view_def update_nodes_def map_view_update f)
  ultimately show ?thesis using ok ledger_ok_view items_known_view by (metis fleet_ok_def)
qed

lemma fleet_ok_UpdateNode: "fleet_ok d \<Longrightarrow> fleet_ok (snd (UpdateNode e i input d))"
  unfolding UpdateNode_def snd_then_get_node
proof (rule transact_preserves, goal_cases)
  case (1 x d')
  have u: "unique_by n_id (db_nodes d)" using 1(1) by (simp add: fleet_ok_def versions_ok_def)
  let ?in = "default_node input"
  from update_node_body_Inr [OF u 1(2)] obtain n v cs up down reset t snap d2 where
    n: "find_active_node i d = Some n" "v = n_desired_version n + 1"
    and d2: "d2 = update_nodes (\<lambda>x. n_id x = i) (changed_node_row ?in v cs up down reset) (d\<lparr>db_reality := t\<rparr>)"
    and s: "build_snapshot i (un_adapter_type ?in) v (un_now ?in) (supersede_snapshots i (un_now ?in) d2) = Inr snap"
    and fresh: "\<forall>s\<in>set (db_snapshots d). skey s \<noteq> (i, v)"
    and d': "d' = mark_node_assignments i v (un_now ?in) (d2\<lparr>db_snapshots :=
      db_snapshots (supersede_snapshots i (un_now ?in) d) @ [snapshot_row_of e (un_now ?in) snap]\<rparr>)" by blast
  have "fleet_ok (d2\<lparr>db_snapshots :=
      db_snapshots (supersede_snapshots i (un_now ?in) d) @ [snapshot_row_of e (un_now ?in) snap]\<rparr>)"
    unfolding d2 by (rule fleet_ok_published [OF 1(1) n _ _ _ _ _ fresh]) (use build_snapshot_fields [OF s] in simp_all)
  then show ?case by (simp add: d')
qed

lemma rotate_identity_Inr:
  assumes "rotate_identity_body e i g w now d = Inr (x, d')"
  shows "\<exists>n r d1 d2. find_active_node i d = Some n \<and> find_reality i d = Some r \<and>
    n_adapter_type n = AdapterSingBoxVLESSReality \<and> n_desired_version n = w \<and> n_applied_version n = w \<and>
    r_desired_key_generation r = g \<and> r_applied_key_generation r = g \<and> r_material_applied_version r = w \<and>
    d1 = d\<lparr>db_reality := sql_update (\<lambda>x. r_node_id x = i \<and> r_desired_key_generation x = g)
       (\<lambda>x. x\<lparr>r_desired_key_generation := r_desired_key_generation x + 1, r_updated_at := unixMilli now\<rparr>) (db_reality d)\<rparr> \<and>
    bumpNodeSnapshot e i now d1 = Inr (w + 1, d2) \<and>
    d' = update_nodes (\<lambda>x. n_id x = i) (\<lambda>x. x\<lparr>n_status := (if n_enabled n then ''pending'' else ''disabled''),
       n_status_reason := '''', n_updated_at := unixMilli now\<rparr>) (mark_node_assignments i (w + 1) now d2)"
proof -
  from assms obtain n where n: "find_active_node i d = Some n"
    by (auto simp: rotate_identity_body_def split: option.splits)
  note body = assms [unfolded rotate_identity_body_def n option.case Let_def]
  from body obtain r where r: "find_reality i d = Some r"
    by (cases "find_reality i d") (auto simp: coalesce_def split: if_splits)
  let ?d1 = "d\<lparr>db_reality := sql_update (\<lambda>x. r_node_id x = i \<and> r_desired_key_generation x = g)
       (\<lambda>x. x\<lparr>r_desired_key_generation := r_desired_key_generation x + 1, r_updated_at := unixMilli now\<rparr>) (db_reality d)\<rparr>"
  from body r obtain v d2 where b: "bumpNodeSnapshot e i now ?d1 = Inr (v, d2)"
    and d': "d' = update_nodes (\<lambda>x. n_id x = i) (\<lambda>x. x\<lparr>n_status := (if n_enabled n then ''pending'' else ''disabled''),
       n_status_reason := '''', n_updated_at := unixMilli now\<rparr>) (mark_node_assignments i v now d2)"
    by (auto simp: rbind_Inr_conv split: if_splits)
  have g: "n_adapter_type n = AdapterSingBoxVLESSReality \<and> n_desired_version n = w \<and> n_applied_version n = w \<and>
    r_desired_key_generation r = g \<and> r_applied_key_generation r = g \<and> r_material_applied_version r = w"
    using body r by (auto simp: coalesce_def split: if_splits)
  have "v = w + 1" using b n g by (auto simp: bumpNodeSnapshot_Inr find_active_node_def)
  with n r b d' g show ?thesis by blast
qed

lemma fleet_ok_Rotate: "fleet_ok d \<Longrightarrow> fleet_ok (snd (RotateVLESSRealityIdentity e i g w now d))"
proof -
  assume ok: "fleet_ok d"
  have "fleet_ok (snd (transact (rotate_identity_body e i g w now) d))"
  proof (rule transact_preserves)
    fix x d' assume "rotate_identity_body e i g w now d = Inr (x, d')"
    from rotate_identity_Inr [OF this] ok show "fleet_ok d'" by (auto dest!: fleet_ok_bump [rotated])
  qed (rule ok)
  with ok show ?thesis by (simp add: RotateVLESSRealityIdentity_def)
qed

section \<open>References to exit proxies\<close>

lemma proxies_ok_tables [simp]:
  "proxies_ok (d\<lparr>db_reality := t\<rparr>) = proxies_ok d" "proxies_ok (d\<lparr>db_snapshots := s\<rparr>) = proxies_ok d"
  "proxies_ok (d\<lparr>db_assignments := as\<rparr>) = proxies_ok d"
  by (simp_all add: proxies_ok_def)

lemma node_checks_proxy:
  "node_checks input d \<Longrightarrow>
     nullableString (un_exit_proxy_id input) \<in> insert None (Some ` x_id ` set (db_exit_proxies d))"
  by (auto simp: node_checks_def sql_exists_iff split: option.splits)

lemma proxies_ok_CreateNode: "proxies_ok d \<Longrightarrow> proxies_ok (snd (CreateNode e input d))"
  unfolding CreateNode_def snd_then_get_node
proof (rule transact_preserves, goal_cases)
  case (1 x d')
  let ?in = "default_node (nn_node input)"
  from create_node_body_Inr [OF 1(2)] obtain n t s where c: "node_checks ?in d"
    and n: "n = new_node_row (nn_id input) ?in (trafficCycleStart (un_now ?in) (un_traffic_reset_day ?in))"
    and d': "d' = d\<lparr>db_nodes := db_nodes d @ [n], db_reality := t, db_snapshots := s\<rparr>" by blast
  have "n_exit_proxy_id n = nullableString (un_exit_proxy_id ?in)" by (simp add: n new_node_row_def)
  with node_checks_proxy [OF c] 1(1) show ?case by (auto simp: d' proxies_ok_def)
qed

lemma proxies_ok_UpdateNode:
  assumes "unique_by n_id (db_nodes d)" and "proxies_ok d"
  shows "proxies_ok (snd (UpdateNode e i input d))"
  unfolding UpdateNode_def snd_then_get_node
proof (rule transact_preserves)
  let ?in = "default_node input"
  fix x d' assume "update_node_body e i ?in d = Inr (x, d')"
  from update_node_body_Inr [OF assms(1) this] obtain v cs up down reset t s where c: "node_checks ?in d"
    and d': "d' = mark_node_assignments i v (un_now ?in) ((update_nodes (\<lambda>x. n_id x = i)
      (changed_node_row ?in v cs up down reset) (d\<lparr>db_reality := t\<rparr>))\<lparr>db_snapshots := s\<rparr>)" by blast
  have "proxies_ok (update_nodes (\<lambda>x. n_id x = i) (changed_node_row ?in v cs up down reset) (d\<lparr>db_reality := t\<rparr>))"
    by (rule proxies_ok_update_nodes) (use assms(2) node_checks_proxy [OF c] in \<open>simp_all\<close>)
  then show "proxies_ok d'" by (simp add: d' mark_node_assignments_def update_assignments_def)
qed (rule assms(2))

section \<open>Properties\<close>

text \<open>C6: The catalog of exit proxies stays well formed: ids and names (ignoring case) are unique,
  every row is within the bounds of the schema, certificate options occur only with TLS over HTTP
  and UDP only with SOCKS5, and no node refers to a proxy that is not stored.  This holds after
  creating, changing and deleting a proxy, after moving nodes to it, and after creating or
  changing a node.\<close>

theorem exit_catalog_well_formed:
  assumes "proxies_ok d" and "unique_by n_id (db_nodes d)"
  shows "proxies_ok (snd (CreateExitProxy e new d)) \<and> proxies_ok (snd (UpdateExitProxy e p upd d)) \<and>
    proxies_ok (snd (DeleteExitProxy p d)) \<and> proxies_ok (snd (ReplaceExitProxyNodes p nodes now d)) \<and>
    proxies_ok (snd (CreateNode e node d)) \<and> proxies_ok (snd (UpdateNode e i change d))"
  by (intro conjI proxies_ok_Create proxies_ok_Update proxies_ok_Delete proxies_ok_Replace proxies_ok_CreateNode
      proxies_ok_UpdateNode assms)

definition sample_proxy_fields :: exit_proxy_fields where
  "sample_proxy_fields = \<lparr> xf_name = '' exit '', xf_kind = ''rented_ip'', xf_protocol = ''socks5'',
     xf_host = ''10.0.0.1'', xf_port = 1080, xf_username = ''u'', xf_notes = '''', xf_tls = True,
     xf_skip_cert_verify = True, xf_udp = True \<rparr>"

definition sample_new_proxy :: new_exit_proxy where
  "sample_new_proxy = \<lparr> nx_fields = sample_proxy_fields, nx_id = ''x1'', nx_password = ''pw'',
     nx_server_side = False, nx_now = 0, nx_master_key = replicate 32 CHR ''k'' \<rparr>"

definition sample_update_proxy :: update_exit_proxy where
  "sample_update_proxy = \<lparr> ux_fields = sample_proxy_fields, ux_password = None, ux_server_side = None,
     ux_now = 0, ux_master_key = '''' \<rparr>"

definition sample_node_change :: update_node where
  "sample_node_change = \<lparr> un_name = ''osaka'', un_provider = '''', un_region = '''',
     un_adapter_type = ''native_hysteria2'', un_public_host = ''h2'', un_public_port = 0, un_sni = ''h2'',
     un_tls_insecure = False, un_tls_cert_fingerprint = '''', un_tls_public_key_sha256 = '''', un_enabled = True,
     un_reality = None, un_traffic_limit = 0, un_traffic_reset_day = 0, un_exit_proxy_id = '''', un_now = 0 \<rparr>"

definition sample_new_node :: new_node where
  "sample_new_node = \<lparr> nn_id = ''n2'', nn_node = sample_node_change \<rparr>"

lemma sample_proxies_ok: "proxies_ok sample_db"
  by (simp add: proxies_ok_def sample_db_def sample_node_def unique_by_def)

lemma sample_unique_nodes: "unique_by n_id (db_nodes sample_db)"
  by (simp add: sample_db_def unique_by_def)

theorem exit_catalog_well_formed_witness:
  "proxies_ok (snd (CreateExitProxy sample_env sample_new_proxy sample_db)) \<and>
   map x_name (db_exit_proxies (snd (CreateExitProxy sample_env sample_new_proxy sample_db))) = [''exit''] \<and>
   map x_tls (db_exit_proxies (snd (CreateExitProxy sample_env sample_new_proxy sample_db))) = [False]"
proof -
  have "map x_name (db_exit_proxies (snd (CreateExitProxy sample_env sample_new_proxy sample_db))) = [''exit'']"
    "map x_tls (db_exit_proxies (snd (CreateExitProxy sample_env sample_new_proxy sample_db))) = [False]"
    by code_simp+
  with exit_catalog_well_formed [OF sample_proxies_ok sample_unique_nodes] show ?thesis by blast
qed

lemma GetNode_row: "GetNode i d = Inr nd \<Longrightarrow> find_active_node i d = Some (nd_row nd)"
  by (auto simp: GetNode_def attachNodeExitProxies_def Let_def read_node_def split: option.splits)

lemma update_node_other:
  assumes "\<And>n. n_id (f n) = n_id n" and "j \<noteq> i"
  shows "find_node j (update_nodes (\<lambda>x. n_id x = i) f d) = find_node j d"
proof -
  have "find_node j (update_nodes (\<lambda>x. n_id x = i) f d) =
      map_option (\<lambda>n. if n_id n = i then f n else n) (find_node j d)"
    by (simp add: find_node_def update_nodes_def sql_first_update assms(1))
  also have "\<dots> = find_node j d" using assms(2) by (cases "find_node j d") (auto dest: find_nodeD)
  finally show ?thesis .
qed




end
