(* ===== verification/Local_Store.thy ===== *)
theory Local_Store
  imports Operations Sample
begin

text \<open>
  The agent's own SQLite database (internal/agent/local\_store.go): the traffic sampler with
  its counter baselines and outbox of batches, the queue of desired kicks, the outbox of
  operation results and the ownership table of the S-UI adapter.  An error of the agent is
  its message.  The rows of the two singleton tables are fields of the record.
\<close>

section \<open>State\<close>

record traffic_counters =
  tc_tx :: int
  tc_rx :: int

record pending_kick =
  pk_user_id :: string
  pk_generation :: int

record sui_client_mapping =
  sm_user_id :: string
  sm_remote_client_id :: int
  sm_management_mode :: string
  sm_remote_name :: string
  sm_credential_fingerprint :: string

record pending_result =
  pr_operation_id :: string
  pr_sequence :: int
  pr_result :: operation_result

record baseline_row =
  bl_user_id :: string
  bl_tx :: int
  bl_rx :: int
  bl_updated_at :: int

record outbox_row =
  ox_ordinal :: int
  ox_id :: string
  ox_source_epoch :: string
  ox_sequence :: int
  ox_sampled_at :: int
  ox_payload :: traffic_batch
  ox_attempts :: int
  ox_last_attempt_at :: "int option"
  ox_last_error_code :: string
  ox_created_at :: int

record kick_state_row =
  ks_user_id :: string
  ks_applied_generation :: int
  ks_updated_at :: int

record kick_outbox_row =
  ko_user_id :: string
  ko_generation :: int
  ko_attempts :: int
  ko_last_attempt_at :: "int option"
  ko_last_error_code :: string
  ko_created_at :: int

record sui_mapping_row =
  sr_mapping :: sui_client_mapping
  sr_created_at :: int
  sr_updated_at :: int

record result_entry =
  re_sequence :: int
  re_operation_id :: string
  re_payload :: operation_result
  re_reported_at :: "int option"
  re_attempts :: int
  re_last_attempt_at :: "int option"
  re_last_error_code :: string
  re_created_at :: int

record local_db =
  ls_source_epoch :: string
  ls_next_sequence :: int
  ls_initialized :: bool
  ls_counter_epoch :: string
  ls_baselines :: "baseline_row list"
  ls_outbox :: "outbox_row list"
  ls_next_ordinal :: int
  ls_kick_state :: "kick_state_row list"
  ls_kick_outbox :: "kick_outbox_row list"
  ls_sui_node :: "string option"
  ls_sui_mappings :: "sui_mapping_row list"
  ls_results :: "result_entry list"
  ls_last_sequence :: int
  ls_next_id :: nat

definition local_id :: "env \<Rightarrow> local_db \<Rightarrow> string \<times> local_db" where
  "local_id e d = (env_new_id e (ls_next_id d), d\<lparr>ls_next_id := Suc (ls_next_id d)\<rparr>)"

section \<open>Operation results\<close>

definition lastOperationSequence :: "local_db \<Rightarrow> int" where
  "lastOperationSequence d = max (ls_last_sequence d) (fold max (map re_sequence (ls_results d)) 0)"

text \<open>The two statements run outside a transaction.  Payloads are compared decoded.\<close>

definition recordOperationResult ::
  "int \<Rightarrow> string \<Rightarrow> operation_result \<Rightarrow> gotime \<Rightarrow> local_db \<Rightarrow> (string + unit) \<times> local_db" where
  "recordOperationResult sequence operationID result now d =
     (case sql_first (\<lambda>r. re_sequence r = sequence \<or> re_operation_id r = operationID) (ls_results d) of
        Some r \<Rightarrow>
          if re_operation_id r = operationID \<and> re_payload r = result then (Inr (), d)
          else (Inl ''operation result conflicts with local sequence'', d)
      | None \<Rightarrow>
          if sequence < 1 then (Inl ''record local operation result'', d)
          else (Inr (), d\<lparr>ls_results := ls_results d @ [\<lparr> re_sequence = sequence, re_operation_id = operationID,
                   re_payload = result, re_reported_at = None, re_attempts = 0, re_last_attempt_at = None,
                   re_last_error_code = '''', re_created_at = unixMilli now \<rparr>],
                 ls_last_sequence := max (ls_last_sequence d) sequence\<rparr>))"

definition listPendingOperationResults :: "int \<Rightarrow> local_db \<Rightarrow> pending_result list" where
  "listPendingOperationResults limit d =
     map (\<lambda>r. \<lparr> pr_operation_id = re_operation_id r, pr_sequence = re_sequence r, pr_result = re_payload r \<rparr>)
       (take (nat (if limit < 1 \<or> limit > 50 then 20 else limit))
          (sort_key re_sequence (filter (\<lambda>r. re_reported_at r = None) (ls_results d))))"

definition unreported :: "string \<Rightarrow> result_entry \<Rightarrow> bool" where
  "unreported operationID r \<longleftrightarrow> re_operation_id r = operationID \<and> re_reported_at r = None"

definition reported_row :: "gotime \<Rightarrow> result_entry \<Rightarrow> result_entry" where
  "reported_row now r = r\<lparr>re_reported_at := Some (unixMilli now), re_attempts := re_attempts r + 1,
     re_last_attempt_at := Some (unixMilli now), re_last_error_code := ''''\<rparr>"

text \<open>The sequences the pruning keeps: the 500 largest.\<close>

definition recent_sequences :: "result_entry list \<Rightarrow> int list" where
  "recent_sequences rs = take 500 (rev (sort (map re_sequence rs)))"

definition markOperationResultReported :: "string \<Rightarrow> gotime \<Rightarrow> local_db \<Rightarrow> (string + unit) \<times> local_db" where
  "markOperationResultReported operationID now d =
     (let rs = sql_update (unreported operationID) (reported_row now) (ls_results d) in
      if sql_count (unreported operationID) (ls_results d) = 0
      then (Inl ''pending operation result not found'', d)
      else (Inr (), d\<lparr>ls_results :=
              sql_delete (\<lambda>r. re_reported_at r \<noteq> None \<and> re_sequence r \<notin> set (recent_sequences rs)) rs\<rparr>))"

definition recordOperationResultFailure :: "string \<Rightarrow> string \<Rightarrow> gotime \<Rightarrow> local_db \<Rightarrow> local_db" where
  "recordOperationResultFailure operationID errorCode now d = d\<lparr>ls_results :=
     sql_update (unreported operationID)
       (\<lambda>r. r\<lparr>re_attempts := re_attempts r + 1, re_last_attempt_at := Some (unixMilli now),
              re_last_error_code := errorCode\<rparr>) (ls_results d)\<rparr>"

section \<open>S-UI ownership\<close>

definition bindSUIStore :: "string \<Rightarrow> local_db \<Rightarrow> (string + unit) \<times> local_db" where
  "bindSUIStore nodeID d =
     (if nodeID = '''' then (Inl ''cannot bind S-UI store without a node ID'', d)
      else case ls_sui_node d of
             None \<Rightarrow> (Inr (), d\<lparr>ls_sui_node := Some nodeID\<rparr>)
           | Some current \<Rightarrow>
               if current \<noteq> nodeID then (Inl ''S-UI ownership database belongs to another node'', d)
               else (Inr (), d))"

definition srkey :: "sui_mapping_row \<Rightarrow> string" where
  "srkey r = sm_user_id (sr_mapping r)"

definition listSUIMappings :: "local_db \<Rightarrow> sui_client_mapping list" where
  "listSUIMappings d = map sr_mapping (sort_key srkey (ls_sui_mappings d))"

text \<open>The remote client is unique as well: taking over the client of another user violates the
  constraint.\<close>

definition upsertSUIMapping ::
  "sui_client_mapping \<Rightarrow> gotime \<Rightarrow> local_db \<Rightarrow> (string + unit) \<times> local_db" where
  "upsertSUIMapping mapping now d =
     (if sm_user_id mapping = '''' \<or> sm_remote_client_id mapping \<le> 0 \<or>
         (sm_management_mode mapping \<noteq> ''read_only'' \<and> sm_management_mode mapping \<noteq> ''managed'') \<or>
         sm_remote_name mapping = ''''
      then (Inl ''invalid S-UI mapping'', d)
      else if sql_exists (\<lambda>r. sm_remote_client_id (sr_mapping r) = sm_remote_client_id mapping \<and>
                              srkey r \<noteq> sm_user_id mapping) (ls_sui_mappings d)
      then (Inl ''upsert S-UI mapping'', d)
      else (Inr (), d\<lparr>ls_sui_mappings :=
              sql_upsert srkey \<lparr> sr_mapping = mapping, sr_created_at = unixMilli now, sr_updated_at = unixMilli now \<rparr>
                (\<lambda>r. r\<lparr>sr_mapping := mapping, sr_updated_at := unixMilli now\<rparr>) (ls_sui_mappings d)\<rparr>))"

definition deleteSUIMapping :: "string \<Rightarrow> local_db \<Rightarrow> local_db" where
  "deleteSUIMapping userID d = d\<lparr>ls_sui_mappings := sql_delete (\<lambda>r. srkey r = userID) (ls_sui_mappings d)\<rparr>"

section \<open>The traffic sampler\<close>

definition find_baseline :: "string \<Rightarrow> local_db \<Rightarrow> baseline_row option" where
  "find_baseline userID d = sql_first (\<lambda>b. bl_user_id b = userID) (ls_baselines d)"

text \<open>The upsert of a baseline; the table refuses negative counters.\<close>

definition store_baseline :: "string \<Rightarrow> traffic_counters \<Rightarrow> gotime \<Rightarrow> local_db \<Rightarrow> string + local_db" where
  "store_baseline userID c now d =
     (if tc_tx c < 0 \<or> tc_rx c < 0 then Inl ''write traffic baseline''
      else Inr (d\<lparr>ls_baselines := sql_upsert bl_user_id
             \<lparr> bl_user_id = userID, bl_tx = tc_tx c, bl_rx = tc_rx c, bl_updated_at = unixMilli now \<rparr>
             (\<lambda>b. b\<lparr>bl_tx := tc_tx c, bl_rx := tc_rx c, bl_updated_at := unixMilli now\<rparr>) (ls_baselines d)\<rparr>))"

definition primeTrafficBaseline ::
  "string \<Rightarrow> traffic_counters \<Rightarrow> gotime \<Rightarrow> local_db \<Rightarrow> (string + unit) \<times> local_db" where
  "primeTrafficBaseline userID c now = transact (\<lambda>d.
     if userID = '''' \<or> tc_tx c < 0 \<or> tc_rx c < 0 then Inl ''invalid traffic baseline''
     else rbind (store_baseline userID c now d) (\<lambda>d1. Inr ((), d1)))"

text \<open>The Go map of counters is an association list with distinct keys.\<close>

type_synonym counter_map = "(string \<times> traffic_counters) list"

definition counters_of :: "counter_map \<Rightarrow> string \<Rightarrow> traffic_counters" where
  "counters_of counters userID =
     (case map_of counters userID of None \<Rightarrow> \<lparr> tc_tx = 0, tc_rx = 0 \<rparr> | Some c \<Rightarrow> c)"

text \<open>The optional counter epoch: a change of the epoch of the data plane's counters starts a
  new source and forgets the baselines.\<close>

definition observe_counter_epoch :: "env \<Rightarrow> string list \<Rightarrow> local_db \<Rightarrow> string + local_db" where
  "observe_counter_epoch e counterEpoch d =
     (let current = (case counterEpoch of [] \<Rightarrow> '''' | c # _ \<Rightarrow> c) in
      if length counterEpoch > 1 then Inl ''multiple traffic counter epochs supplied''
      else if current = '''' then Inr d
      else if \<not> env_uuid_valid e current then Inl ''traffic counter epoch is invalid''
      else if ls_counter_epoch d \<noteq> current \<and> ls_initialized d then
        (let (sourceEpoch, d1) = local_id e d in
         Inr (d1\<lparr>ls_baselines := [], ls_source_epoch := sourceEpoch, ls_next_sequence := 1,
                 ls_counter_epoch := current\<rparr>))
      else if ls_counter_epoch d = '''' then Inr (d\<lparr>ls_counter_epoch := current\<rparr>)
      else Inr d)"

text \<open>A user whose counters went backwards.\<close>

definition counter_reset :: "counter_map \<Rightarrow> local_db \<Rightarrow> string \<Rightarrow> bool" where
  "counter_reset counters d userID =
     (case find_baseline userID d of
        None \<Rightarrow> False
      | Some b \<Rightarrow> tc_tx (counters_of counters userID) < bl_tx b \<or> tc_rx (counters_of counters userID) < bl_rx b)"

definition rotate_source :: "env \<Rightarrow> local_db \<Rightarrow> local_db" where
  "rotate_source e d = (let (sourceEpoch, d1) = local_id e d in
     d1\<lparr>ls_source_epoch := sourceEpoch, ls_next_sequence := 1\<rparr>)"

definition sample_step ::
  "counter_map \<Rightarrow> string list \<Rightarrow> gotime \<Rightarrow> string \<Rightarrow> traffic_delta list \<times> local_db \<Rightarrow>
     string + traffic_delta list \<times> local_db" where
  "sample_step counters resetUsers sampledAt userID = (\<lambda>(items, d).
     let current = counters_of counters userID;
         (previousTX, previousRX) =
           (if userID \<in> set resetUsers then (0, 0)
            else case find_baseline userID d of None \<Rightarrow> (0, 0) | Some b \<Rightarrow> (bl_tx b, bl_rx b));
         uploadDelta = sub64 (tc_tx current) previousTX;
         downloadDelta = sub64 (tc_rx current) previousRX in
     if uploadDelta < 0 \<or> downloadDelta < 0
     then Inl ''traffic counter decreased without rotating its source epoch''
     else rbind (store_baseline userID current sampledAt d) (\<lambda>d1.
       Inr (if uploadDelta \<noteq> 0 \<or> downloadDelta \<noteq> 0
            then items @ [\<lparr> td_user_id = userID, td_upload = uploadDelta, td_download = downloadDelta \<rparr>]
            else items, d1)))"

definition MaxTrafficItemsPerBatch :: nat where "MaxTrafficItemsPerBatch = 1000"

text \<open>The slices \<open>items[start:end]\<close> of the loop that builds the batches.\<close>

function chunks :: "nat \<Rightarrow> 'a list \<Rightarrow> 'a list list" where
  "chunks n xs = (if n = 0 \<or> xs = [] then [] else take n xs # chunks n (drop n xs))"
  by pat_completeness auto
termination by (relation "measure (\<lambda>(n, xs). length xs)") auto

declare chunks.simps [simp del]

definition oskey :: "outbox_row \<Rightarrow> string \<times> int" where
  "oskey r = (ox_source_epoch r, ox_sequence r)"

definition outbox_row_of :: "int \<Rightarrow> traffic_batch \<Rightarrow> gotime \<Rightarrow> outbox_row" where
  "outbox_row_of ordinal b createdAt = \<lparr> ox_ordinal = ordinal, ox_id = tb_id b, ox_source_epoch = tb_source_epoch b,
     ox_sequence = tb_sequence b, ox_sampled_at = unixMilli (tb_sampled_at b), ox_payload = b, ox_attempts = 0,
     ox_last_attempt_at = None, ox_last_error_code = '''', ox_created_at = unixMilli createdAt \<rparr>"

definition insert_outbox :: "traffic_batch \<Rightarrow> gotime \<Rightarrow> local_db \<Rightarrow> string + local_db" where
  "insert_outbox b createdAt d =
     (let row = outbox_row_of (ls_next_ordinal d) b createdAt in
      if tb_sequence b < 1 \<or> sql_exists (\<lambda>r. ox_id r = ox_id row) (ls_outbox d) \<or>
         sql_exists (\<lambda>r. oskey r = oskey row) (ls_outbox d)
      then Inl ''insert traffic outbox batch''
      else Inr (d\<lparr>ls_outbox := ls_outbox d @ [row], ls_next_ordinal := ls_next_ordinal d + 1\<rparr>))"

definition emit_batch ::
  "env \<Rightarrow> string \<Rightarrow> gotime \<Rightarrow> gotime \<Rightarrow> traffic_delta list \<Rightarrow> traffic_batch list \<times> local_db \<Rightarrow>
     string + traffic_batch list \<times> local_db" where
  "emit_batch e installationID sampledAt createdAt slice = (\<lambda>(batches, d).
     let (i, d1) = local_id e d;
         batch = \<lparr> tb_id = i, tb_installation_id = installationID, tb_source_epoch = ls_source_epoch d,
                   tb_sequence = add64 (ls_next_sequence d) (int (length batches)),
                   tb_sampled_at = sampledAt, tb_items = slice \<rparr> in
     rbind (insert_outbox batch createdAt d1) (\<lambda>d2. Inr (batches @ [batch], d2)))"

text \<open>
  The local variables \<open>sourceEpoch\<close> and \<open>sequence\<close> of the source agree with the
  columns of the runtime row at every use, so the model reads the columns.  \<open>createdAt\<close>
  is the reading of the clock while the batches are written.
\<close>

definition record_sample_body ::
  "env \<Rightarrow> string \<Rightarrow> counter_map \<Rightarrow> gotime \<Rightarrow> string list \<Rightarrow> gotime \<Rightarrow> local_db \<Rightarrow>
     string + traffic_batch list \<times> local_db" where
  "record_sample_body e installationID counters sampledAt counterEpoch createdAt d =
     rbind (observe_counter_epoch e counterEpoch d) (\<lambda>d1.
     let userIDs = sort (map fst counters);
         resetUsers = filter (counter_reset counters d1) userIDs in
     if \<not> ls_initialized d then
       rbind (rfold (\<lambda>userID. store_baseline userID (counters_of counters userID) sampledAt) userIDs d1) (\<lambda>d2.
       Inr ([], d2\<lparr>ls_initialized := True\<rparr>))
     else
       rbind (rfold (sample_step counters resetUsers sampledAt) userIDs
                ([], if resetUsers \<noteq> [] then rotate_source e d1 else d1)) (\<lambda>(items, d3).
       if items = [] then Inr ([], d3)
       else rbind (rfold (emit_batch e installationID sampledAt createdAt) (chunks MaxTrafficItemsPerBatch items) ([], d3))
              (\<lambda>(batches, d4).
         Inr (batches, d4\<lparr>ls_next_sequence := add64 (ls_next_sequence d4) (int (length batches))\<rparr>))))"

definition recordTrafficSample ::
  "env \<Rightarrow> string \<Rightarrow> counter_map \<Rightarrow> gotime \<Rightarrow> string list \<Rightarrow> gotime \<Rightarrow> local_db \<Rightarrow>
     (string + traffic_batch list) \<times> local_db" where
  "recordTrafficSample e installationID counters sampledAt counterEpoch createdAt =
     transact (record_sample_body e installationID counters sampledAt counterEpoch createdAt)"

section \<open>The traffic outbox\<close>

definition listTrafficOutbox :: "int \<Rightarrow> local_db \<Rightarrow> traffic_batch list" where
  "listTrafficOutbox limit d =
     map ox_payload (take (nat (if limit < 1 then 1 else limit)) (sort_key ox_ordinal (ls_outbox d)))"

definition deleteTrafficOutbox :: "string \<Rightarrow> local_db \<Rightarrow> local_db" where
  "deleteTrafficOutbox i d = d\<lparr>ls_outbox := sql_delete (\<lambda>r. ox_id r = i) (ls_outbox d)\<rparr>"

definition outbox_failure_row :: "string \<Rightarrow> gotime \<Rightarrow> outbox_row \<Rightarrow> outbox_row" where
  "outbox_failure_row code now r = r\<lparr>ox_attempts := ox_attempts r + 1,
     ox_last_attempt_at := Some (unixMilli now), ox_last_error_code := code\<rparr>"

definition recordTrafficFailure :: "string \<Rightarrow> string \<Rightarrow> gotime \<Rightarrow> local_db \<Rightarrow> local_db" where
  "recordTrafficFailure i code now d = d\<lparr>ls_outbox :=
     sql_update (\<lambda>r. ox_id r = i) (outbox_failure_row (take 64 code) now) (ls_outbox d)\<rparr>"

definition trafficOutboxCount :: "local_db \<Rightarrow> int" where
  "trafficOutboxCount d = int (length (ls_outbox d))"

section \<open>Kicks\<close>

definition applied_generation :: "string \<Rightarrow> local_db \<Rightarrow> int" where
  "applied_generation userID d =
     (case sql_first (\<lambda>r. ks_user_id r = userID) (ls_kick_state d) of
        None \<Rightarrow> 0 | Some r \<Rightarrow> ks_applied_generation r)"

definition requeue_row :: "int \<Rightarrow> kick_outbox_row \<Rightarrow> kick_outbox_row" where
  "requeue_row generation r = r\<lparr>ko_generation := (if generation > ko_generation r then generation else ko_generation r),
     ko_last_error_code := ''''\<rparr>"

definition queue_kick :: "gotime \<Rightarrow> desired_kick \<Rightarrow> local_db \<Rightarrow> string + local_db" where
  "queue_kick now kick d =
     (if dk_user_id kick = '''' \<or> dk_generation kick < 1
      then Inl ''desired kick has invalid identity or generation''
      else if applied_generation (dk_user_id kick) d \<ge> dk_generation kick then Inr d
      else Inr (d\<lparr>ls_kick_outbox := sql_upsert ko_user_id
             \<lparr> ko_user_id = dk_user_id kick, ko_generation = dk_generation kick, ko_attempts = 0,
               ko_last_attempt_at = None, ko_last_error_code = '''', ko_created_at = unixMilli now \<rparr>
             (requeue_row (dk_generation kick)) (ls_kick_outbox d)\<rparr>))"

definition queueKicks :: "desired_kick list \<Rightarrow> gotime \<Rightarrow> local_db \<Rightarrow> (string + unit) \<times> local_db" where
  "queueKicks kicks now = transact (\<lambda>d. rbind (rfold (queue_kick now) kicks d) (\<lambda>d1. Inr ((), d1)))"

definition listPendingKicks :: "int \<Rightarrow> local_db \<Rightarrow> pending_kick list" where
  "listPendingKicks limit d =
     map (\<lambda>r. \<lparr> pk_user_id = ko_user_id r, pk_generation = ko_generation r \<rparr>)
       (take (nat (if limit < 1 then 1 else limit))
          (sort_key ko_created_at (sort_key ko_user_id (ls_kick_outbox d))))"

definition applied_kick_row :: "int \<Rightarrow> gotime \<Rightarrow> kick_state_row \<Rightarrow> kick_state_row" where
  "applied_kick_row generation now r = r\<lparr>ks_applied_generation :=
       (if generation > ks_applied_generation r then generation else ks_applied_generation r),
     ks_updated_at := unixMilli now\<rparr>"

definition apply_kick :: "gotime \<Rightarrow> pending_kick \<Rightarrow> local_db \<Rightarrow> string + local_db" where
  "apply_kick now kick d =
     (if pk_generation kick < 0 then Inl ''record applied kick''
      else Inr (d\<lparr>ls_kick_state := sql_upsert ks_user_id
               \<lparr> ks_user_id = pk_user_id kick, ks_applied_generation = pk_generation kick, ks_updated_at = unixMilli now \<rparr>
               (applied_kick_row (pk_generation kick) now) (ls_kick_state d),
             ls_kick_outbox := sql_delete (\<lambda>r. ko_user_id r = pk_user_id kick \<and> ko_generation r \<le> pk_generation kick)
               (ls_kick_outbox d)\<rparr>))"

definition markKicksApplied :: "pending_kick list \<Rightarrow> gotime \<Rightarrow> local_db \<Rightarrow> (string + unit) \<times> local_db" where
  "markKicksApplied kicks now = transact (\<lambda>d. rbind (rfold (apply_kick now) kicks d) (\<lambda>d1. Inr ((), d1)))"

definition kick_failure_row :: "string \<Rightarrow> gotime \<Rightarrow> kick_outbox_row \<Rightarrow> kick_outbox_row" where
  "kick_failure_row code now r = r\<lparr>ko_attempts := ko_attempts r + 1,
     ko_last_attempt_at := Some (unixMilli now), ko_last_error_code := code\<rparr>"

definition recordKickFailure :: "pending_kick list \<Rightarrow> string \<Rightarrow> gotime \<Rightarrow> local_db \<Rightarrow> local_db" where
  "recordKickFailure kicks code now d = d\<lparr>ls_kick_outbox := fold (\<lambda>kick.
     sql_update (\<lambda>r. ko_user_id r = pk_user_id kick \<and> ko_generation r = pk_generation kick)
       (kick_failure_row (take 64 code) now)) kicks (ls_kick_outbox d)\<rparr>"

text \<open>The kicks of the native adapter; \<open>kick\<close> is the answer of the data plane's API and
  \<open>configured\<close> says whether the agent has a client for it.\<close>

definition executePendingKicks ::
  "bool \<Rightarrow> (string list \<Rightarrow> bool) \<Rightarrow> gotime \<Rightarrow> local_db \<Rightarrow> (string + unit) \<times> local_db" where
  "executePendingKicks configured kick now d =
     (let kicks = listPendingKicks 256 d in
      if kicks = [] then (Inr (), d)
      else if \<not> configured then (Inl ''Hysteria Traffic Stats secret is not configured'', d)
      else if \<not> kick (map pk_user_id kicks)
      then (Inl ''kick_api_unavailable'', recordKickFailure kicks ''kick_api_unavailable'' now d)
      else markKicksApplied kicks now d)"


section \<open>No kick is lost\<close>

interpretation requeue: row_update ko_user_id "requeue_row g" for g
  by unfold_locales (simp add: requeue_row_def)

interpretation applied_kick: row_update ks_user_id "applied_kick_row g now" for g now
  by unfold_locales (simp add: applied_kick_row_def)

interpretation kick_failure: row_update ko_user_id "kick_failure_row code now" for code now
  by unfold_locales (simp add: kick_failure_row_def)

definition pending_generation :: "string \<Rightarrow> local_db \<Rightarrow> int" where
  "pending_generation userID d =
     (case sql_first (\<lambda>r. ko_user_id r = userID) (ls_kick_outbox d) of None \<Rightarrow> 0 | Some r \<Rightarrow> ko_generation r)"

text \<open>The kick generation the agent has taken responsibility for: applied or still pending.\<close>

definition kick_target :: "string \<Rightarrow> local_db \<Rightarrow> int" where
  "kick_target userID d = max (applied_generation userID d) (pending_generation userID d)"

definition kicks_ok :: "local_db \<Rightarrow> bool" where
  "kicks_ok d \<longleftrightarrow> unique_by ks_user_id (ls_kick_state d) \<and> unique_by ko_user_id (ls_kick_outbox d) \<and>
     (\<forall>r\<in>set (ls_kick_outbox d). 1 \<le> ko_generation r \<and> applied_generation (ko_user_id r) d < ko_generation r) \<and>
     (\<forall>r\<in>set (ls_kick_state d). 0 \<le> ks_applied_generation r)"

lemma applied_generation_cong: "ls_kick_state d' = ls_kick_state d \<Longrightarrow> applied_generation u d' = applied_generation u d"
  by (simp add: applied_generation_def)

lemma pending_generation_row:
  assumes "unique_by ko_user_id (ls_kick_outbox d)" and "r \<in> set (ls_kick_outbox d)"
  shows "pending_generation (ko_user_id r) d = ko_generation r"
  using sql_first_unique [OF assms] by (simp add: pending_generation_def)

lemma pending_generation_pos:
  "kicks_ok d \<Longrightarrow> pending_generation u d = 0 \<or> 1 \<le> pending_generation u d \<and> applied_generation u d < pending_generation u d"
  by (auto simp: pending_generation_def kicks_ok_def split: option.splits dest!: sql_first_SomeD)

lemma applied_generation_nonneg: "kicks_ok d \<Longrightarrow> 0 \<le> applied_generation u d"
  by (auto simp: applied_generation_def kicks_ok_def split: option.splits dest!: sql_first_SomeD)

lemma queue_kick_Inr:
  assumes "kicks_ok d" and "queue_kick now k d = Inr d'"
  shows "kicks_ok d'" and "ls_kick_state d' = ls_kick_state d"
    and "kick_target u d' = (if u = dk_user_id k then max (kick_target u d) (dk_generation k) else kick_target u d)"
proof -
  let ?row = "\<lparr> ko_user_id = dk_user_id k, ko_generation = dk_generation k, ko_attempts = 0,
       ko_last_attempt_at = None, ko_last_error_code = '''', ko_created_at = unixMilli now \<rparr>"
  let ?t = "sql_upsert ko_user_id ?row (requeue_row (dk_generation k)) (ls_kick_outbox d)"
  have g: "1 \<le> dk_generation k" using assms(2) by (simp add: queue_kick_def split: if_splits)
  have d': "applied_generation (dk_user_id k) d \<ge> dk_generation k \<and> d' = d \<or>
      applied_generation (dk_user_id k) d < dk_generation k \<and> d' = d\<lparr>ls_kick_outbox := ?t\<rparr>"
    using assms(2) by (auto simp: queue_kick_def split: if_splits)
  then show st: "ls_kick_state d' = ls_kick_state d" by auto
  have ag: "applied_generation v d' = applied_generation v d" for v
    using st by (rule applied_generation_cong)
  have rows: "\<forall>r\<in>set ?t. 1 \<le> ko_generation r \<and> applied_generation (ko_user_id r) d < ko_generation r"
    if "applied_generation (dk_user_id k) d < dk_generation k"
    using assms(1) that g
    by (auto simp: kicks_ok_def sql_upsert_def table_simps requeue_row_def)
  have "unique_by ko_user_id ?t"
    using assms(1) by (simp add: kicks_ok_def requeue.unique_upsert)
  with rows d' assms(1) ag show "kicks_ok d'" by (auto simp: kicks_ok_def)
  have same: "pending_generation (dk_user_id k) (d\<lparr>ls_kick_outbox := ?t\<rparr>) = max (pending_generation (dk_user_id k) d) (dk_generation k)"
    using requeue.lookup_upsert_same [of ?row "dk_generation k" "ls_kick_outbox d"] g
    by (simp add: pending_generation_def requeue_row_def split: option.split)
  have other: "v \<noteq> dk_user_id k \<Longrightarrow> pending_generation v (d\<lparr>ls_kick_outbox := ?t\<rparr>) = pending_generation v d" for v
    using requeue.lookup_upsert_other [of v ?row "dk_generation k" "ls_kick_outbox d"]
    by (simp add: pending_generation_def)
  show "kick_target u d' = (if u = dk_user_id k then max (kick_target u d) (dk_generation k) else kick_target u d)"
    using d' ag same other by (auto simp: kick_target_def)
qed

lemma queue_kicks:
  assumes "kicks_ok d" and "rfold (queue_kick now) ks d = Inr d'"
  shows "kicks_ok d' \<and> ls_kick_state d' = ls_kick_state d \<and>
    kick_target u d' = fold max (map dk_generation (filter (\<lambda>k. dk_user_id k = u) ks)) (kick_target u d)"
  using assms
proof (induction ks arbitrary: d)
  case Nil
  then show ?case by simp
next
  case (Cons k ks)
  then obtain d1 where d1: "queue_kick now k d = Inr d1" "rfold (queue_kick now) ks d1 = Inr d'"
    by (auto simp: rbind_Inr_conv)
  note s = queue_kick_Inr [OF Cons.prems(1) d1(1)]
  show ?case using Cons.IH [OF s(1) d1(2)] s(2,3) by (simp add: max.commute)
qed

lemma apply_kick_Inr:
  assumes "kicks_ok d" and "apply_kick now k d = Inr d'"
  shows "kicks_ok d'"
    and "applied_generation u d' = (if u = pk_user_id k then max (applied_generation u d) (pk_generation k) else applied_generation u d)"
    and "pending_generation u d' = (if u = pk_user_id k \<and> pending_generation u d \<le> pk_generation k then 0 else pending_generation u d)"
proof -
  let ?row = "\<lparr> ks_user_id = pk_user_id k, ks_applied_generation = pk_generation k, ks_updated_at = unixMilli now \<rparr>"
  let ?p = "\<lambda>r. ko_user_id r = pk_user_id k \<and> ko_generation r \<le> pk_generation k"
  have g: "0 \<le> pk_generation k" and d': "d' = d\<lparr>ls_kick_state := sql_upsert ks_user_id ?row (applied_kick_row (pk_generation k) now) (ls_kick_state d),
      ls_kick_outbox := sql_delete ?p (ls_kick_outbox d)\<rparr>"
    using assms(2) by (auto simp: apply_kick_def split: if_splits)
  show ag: "applied_generation u d' = (if u = pk_user_id k then max (applied_generation u d) (pk_generation k) else applied_generation u d)" for u
    using applied_kick.lookup_upsert_same [of ?row "pk_generation k" now "ls_kick_state d"]
      applied_kick.lookup_upsert_other [of u ?row "pk_generation k" now "ls_kick_state d"] g
    by (auto simp: d' applied_generation_def applied_kick_row_def split: option.split)
  have uo: "unique_by ko_user_id (ls_kick_outbox d)" using assms(1) by (simp add: kicks_ok_def)
  have ud: "unique_by ko_user_id (sql_delete ?p (ls_kick_outbox d))" by (rule unique_by_delete [OF uo])
  show "pending_generation u d' = (if u = pk_user_id k \<and> pending_generation u d \<le> pk_generation k then 0 else pending_generation u d)"
  proof (cases "sql_first (\<lambda>r. ko_user_id r = u) (ls_kick_outbox d)")
    case None
    then show ?thesis by (auto simp: d' pending_generation_def table_simps sql_delete_def split: option.splits dest!: sql_first_SomeD)
  next
    case (Some r)
    then have r: "r \<in> set (ls_kick_outbox d)" "ko_user_id r = u" by (auto dest: sql_first_SomeD)
    show ?thesis
    proof (cases "?p r")
      case True
      then have "sql_first (\<lambda>r. ko_user_id r = u) (sql_delete ?p (ls_kick_outbox d)) = None"
        using unique_byD [OF uo r(1)] r(2) by (auto simp: sql_first_None set_sql_delete)
      with Some True r show ?thesis by (simp add: d' pending_generation_def)
    next
      case False
      with r have "r \<in> set (sql_delete ?p (ls_kick_outbox d))" by (simp add: set_sql_delete)
      from sql_first_unique [OF ud this] Some False r show ?thesis by (auto simp: d' pending_generation_def)
    qed
  qed
  show "kicks_ok d'"
    unfolding kicks_ok_def
  proof (intro conjI ballI)
    show "unique_by ks_user_id (ls_kick_state d')" using assms(1) by (simp add: d' kicks_ok_def applied_kick.unique_upsert)
    show "unique_by ko_user_id (ls_kick_outbox d')" using ud by (simp add: d')
  next
    fix r assume "r \<in> set (ls_kick_outbox d')"
    then have r: "r \<in> set (ls_kick_outbox d)" "\<not> ?p r" by (auto simp: d' set_sql_delete)
    then show "1 \<le> ko_generation r" using assms(1) by (simp add: kicks_ok_def)
    show "applied_generation (ko_user_id r) d' < ko_generation r" using assms(1) r by (auto simp: ag kicks_ok_def)
  next
    fix r assume "r \<in> set (ls_kick_state d')"
    then show "0 \<le> ks_applied_generation r" using assms(1) g
      by (auto simp: d' kicks_ok_def sql_upsert_def table_simps applied_kick_row_def split: if_splits)
  qed
qed



lemma apply_kicks:
  assumes "kicks_ok d" and "rfold (apply_kick now) ks d = Inr d'"
    and "\<forall>k\<in>set ks. pk_generation k \<le> kick_target (pk_user_id k) d"
  shows "kicks_ok d' \<and> kick_target u d' = kick_target u d \<and> applied_generation u d \<le> applied_generation u d' \<and>
    (pending_generation u d' = 0 \<or> pending_generation u d' = pending_generation u d \<and>
       (\<forall>k\<in>set ks. pk_user_id k = u \<longrightarrow> pk_generation k < pending_generation u d))"
  using assms
proof (induction ks arbitrary: d)
  case Nil
  then show ?case by auto
next
  case (Cons k ks)
  then obtain d1 where d1: "apply_kick now k d = Inr d1" "rfold (apply_kick now) ks d1 = Inr d'"
    by (auto simp: rbind_Inr_conv)
  note s = apply_kick_Inr [OF Cons.prems(1) d1(1)]
  have "pk_generation k \<le> kick_target (pk_user_id k) d" using Cons.prems(3) by simp
  then have t: "kick_target v d1 = kick_target v d" for v
    using s(2,3) [of v] applied_generation_nonneg [OF Cons.prems(1), of v]
    by (auto simp: kick_target_def)
  with Cons.prems(3) have "\<forall>k\<in>set ks. pk_generation k \<le> kick_target (pk_user_id k) d1" by simp
  from Cons.IH [OF s(1) d1(2) this] s(2,3) [of u] t show ?case by (auto split: if_splits)
qed

lemma apply_kicks_total:
  "\<forall>k\<in>set ks. 0 \<le> pk_generation k \<Longrightarrow> \<exists>d'. rfold (apply_kick now) ks d = Inr d'"
  by (induction ks arbitrary: d) (auto simp: apply_kick_def)

lemma set_listPendingKicks:
  assumes "k \<in> set (listPendingKicks limit d)"
  obtains r where "r \<in> set (ls_kick_outbox d)" "pk_user_id k = ko_user_id r" "pk_generation k = ko_generation r"
  using assms by (auto simp: listPendingKicks_def dest!: in_set_takeD)

lemma listed_kicks:
  assumes "kicks_ok d" and "k \<in> set (listPendingKicks limit d)"
  shows "pk_generation k = pending_generation (pk_user_id k) d" and "1 \<le> pk_generation k"
proof -
  obtain r where r: "r \<in> set (ls_kick_outbox d)" "pk_user_id k = ko_user_id r" "pk_generation k = ko_generation r"
    using assms(2) by (rule set_listPendingKicks)
  with assms(1) show "pk_generation k = pending_generation (pk_user_id k) d" and "1 \<le> pk_generation k"
    by (auto simp: kicks_ok_def pending_generation_row)
qed

lemma all_listed:
  assumes "length (ls_kick_outbox d) \<le> 256" and "r \<in> set (ls_kick_outbox d)"
  shows "\<lparr> pk_user_id = ko_user_id r, pk_generation = ko_generation r \<rparr> \<in> set (listPendingKicks 256 d)"
  using assms by (auto simp: listPendingKicks_def)

lemma recordKickFailure_kicks:
  assumes "kicks_ok d"
  shows "kicks_ok (recordKickFailure ks code now d) \<and> ls_kick_state (recordKickFailure ks code now d) = ls_kick_state d \<and>
    pending_generation u (recordKickFailure ks code now d) = pending_generation u d"
proof -
  let ?f = "\<lambda>k. sql_update (\<lambda>r. ko_user_id r = pk_user_id k \<and> ko_generation r = pk_generation k)
       (kick_failure_row (take 64 code) now)"
  have view: "map (\<lambda>r. (ko_user_id r, ko_generation r)) (fold ?f ks t) = map (\<lambda>r. (ko_user_id r, ko_generation r)) t" for t
    by (induction ks arbitrary: t) (simp_all add: sql_update_def kick_failure_row_def)
  let ?d = "recordKickFailure ks code now d"
  have v: "map (\<lambda>r. (ko_user_id r, ko_generation r)) (ls_kick_outbox ?d) = map (\<lambda>r. (ko_user_id r, ko_generation r)) (ls_kick_outbox d)"
    by (simp add: recordKickFailure_def view)
  have st: "ls_kick_state ?d = ls_kick_state d" by (simp add: recordKickFailure_def)
  have ids: "map ko_user_id (ls_kick_outbox ?d) = map ko_user_id (ls_kick_outbox d)"
    using arg_cong [OF v, of "map fst"] by (simp add: comp_def)
  have ball: "(\<forall>r\<in>set (ls_kick_outbox ?d). P (ko_user_id r) (ko_generation r)) \<longleftrightarrow>
      (\<forall>r\<in>set (ls_kick_outbox d). P (ko_user_id r) (ko_generation r))" for P
    using arg_cong [OF v, of "list_all (\<lambda>x. P (fst x) (snd x))"] by (simp add: list_all_iff)
  have pend: "(case sql_first (\<lambda>r. ko_user_id r = u) t of None \<Rightarrow> 0 | Some r \<Rightarrow> ko_generation r) =
      (case map_of (map (\<lambda>r. (ko_user_id r, ko_generation r)) t) u of None \<Rightarrow> 0 | Some g \<Rightarrow> g)" for t
    by (induction t) auto
  have "pending_generation u ?d = pending_generation u d"
    by (simp only: pending_generation_def pend v)
  moreover have "kicks_ok ?d"
    using assms ball [of "\<lambda>u g. 1 \<le> g \<and> applied_generation u d < g"]
    by (simp add: kicks_ok_def unique_by_def ids st applied_generation_cong [OF st])
  ultimately show ?thesis using st by blast
qed

lemma executePendingKicks_effect:
  assumes "kicks_ok d" and "executePendingKicks configured kick now d = (r, d')"
  shows "kicks_ok d' \<and> kick_target u d' = kick_target u d \<and> applied_generation u d \<le> applied_generation u d'"
    and "r = Inr () \<Longrightarrow> length (ls_kick_outbox d) \<le> 256 \<Longrightarrow> applied_generation u d' = kick_target u d"
    and "r = Inr () \<longleftrightarrow> ls_kick_outbox d = [] \<or> configured \<and> kick (map pk_user_id (listPendingKicks 256 d))"
proof -
  let ?ks = "listPendingKicks 256 d"
  have empty: "?ks = [] \<longleftrightarrow> ls_kick_outbox d = []"
    by (auto simp add: listPendingKicks_def min_def simp flip: length_0_conv)
  have gens: "\<forall>k\<in>set ?ks. pk_generation k \<le> kick_target (pk_user_id k) d" "\<forall>k\<in>set ?ks. 0 \<le> pk_generation k"
    using listed_kicks [OF assms(1)] by (fastforce simp: kick_target_def)+
  obtain d1 where d1: "rfold (apply_kick now) ?ks d = Inr d1" using apply_kicks_total [OF gens(2)] by blast
  then have m: "markKicksApplied ?ks now d = (Inr (), d1)" by (simp add: markKicksApplied_def transact_def)
  note a = apply_kicks [OF assms(1) d1 gens(1), of u]
  consider "?ks = []" "r = Inr ()" "d' = d"
    | "?ks \<noteq> []" "\<not> configured" "r \<noteq> Inr ()" "d' = d"
    | "?ks \<noteq> []" "configured" "\<not> kick (map pk_user_id ?ks)" "r \<noteq> Inr ()" "d' = recordKickFailure ?ks ''kick_api_unavailable'' now d"
    | "?ks \<noteq> []" "configured" "kick (map pk_user_id ?ks)" "r = Inr ()" "d' = d1"
    using assms(2) m by (auto simp: executePendingKicks_def Let_def split: if_splits)
  note cs = this
  show "kicks_ok d' \<and> kick_target u d' = kick_target u d \<and> applied_generation u d \<le> applied_generation u d'"
    using cs
  proof cases
    case 3
    with recordKickFailure_kicks [OF assms(1), of ?ks "''kick_api_unavailable''" now u] show ?thesis
      by (simp add: kick_target_def applied_generation_cong [of "recordKickFailure ?ks ''kick_api_unavailable'' now d" d])
  qed (use a assms(1) in auto)
  show "r = Inr () \<longleftrightarrow> ls_kick_outbox d = [] \<or> configured \<and> kick (map pk_user_id ?ks)"
    using cs empty by cases auto
  assume ok: "r = Inr ()" and len: "length (ls_kick_outbox d) \<le> 256"
  have settled: "pending_generation u d1 = 0"
  proof (rule ccontr)
    assume "pending_generation u d1 \<noteq> 0"
    with a have pu: "pending_generation u d \<noteq> 0"
      and small: "\<forall>k\<in>set ?ks. pk_user_id k = u \<longrightarrow> pk_generation k < pending_generation u d" by auto
    then obtain x where x: "x \<in> set (ls_kick_outbox d)" "ko_user_id x = u"
      by (auto simp: pending_generation_def split: option.splits dest!: sql_first_SomeD)
    with all_listed [OF len x(1)] small pending_generation_row [of d x] assms(1) show False
      by (auto simp: kicks_ok_def)
  qed
  show "applied_generation u d' = kick_target u d"
    using cs
  proof cases
    case 1
    then have "ls_kick_outbox d = []" using empty by simp
    with 1 applied_generation_nonneg [OF assms(1), of u] show ?thesis by (simp add: kick_target_def pending_generation_def)
  next
    case 4
    with a settled applied_generation_nonneg [of d1 u] show ?thesis by (simp add: kick_target_def)
  qed (use ok in auto)
qed

text \<open>C39: No requested disconnection is lost.  After a desired state's kicks are queued, each
  user's target generation is the largest one ever requested; executing the queue never lowers
  it, whether the data plane answers or not, and when the data plane accepts the calls (and at
  most 256 kicks are pending, the limit of one round) every user's applied generation is exactly
  the target.  Generations never go backwards.\<close>

theorem kicks_never_lost:
  assumes "kicks_ok d" and "queueKicks ks now d = (Inr (), d1)"
    and "executePendingKicks configured kick later d1 = (r, d2)"
  shows "kicks_ok d2 \<and>
    (\<forall>u. kick_target u d2 = fold max (map dk_generation (filter (\<lambda>k. dk_user_id k = u) ks)) (kick_target u d) \<and>
         applied_generation u d \<le> applied_generation u d2 \<and>
         (r = Inr () \<and> length (ls_kick_outbox d1) \<le> 256 \<longrightarrow> applied_generation u d2 = kick_target u d2)) \<and>
    (r = Inr () \<longleftrightarrow> ls_kick_outbox d1 = [] \<or> configured \<and> kick (map pk_user_id (listPendingKicks 256 d1)))"
proof -
  have q: "rfold (queue_kick now) ks d = Inr d1"
    using assms(2) by (auto simp: queueKicks_def transact_commit rbind_Inr_conv)
  note qk = queue_kicks [OF assms(1) q]
  have ok: "kicks_ok d1" using qk by blast
  have ag: "applied_generation u d1 = applied_generation u d" for u
    using qk by (intro applied_generation_cong) blast
  note ex = executePendingKicks_effect [OF ok assms(3)]
  show ?thesis
  proof (intro conjI allI impI)
    show "kicks_ok d2" using ex(1) by blast
    show "r = Inr () \<longleftrightarrow> ls_kick_outbox d1 = [] \<or> configured \<and> kick (map pk_user_id (listPendingKicks 256 d1))"
      by (rule ex(3))
    fix u
    show "kick_target u d2 = fold max (map dk_generation (filter (\<lambda>k. dk_user_id k = u) ks)) (kick_target u d)"
      using ex(1) [of u] qk [of u] by simp
    show "applied_generation u d \<le> applied_generation u d2" using ex(1) [of u] ag by simp
    assume "r = Inr () \<and> length (ls_kick_outbox d1) \<le> 256"
    then show "applied_generation u d2 = kick_target u d2" using ex(1,2) [of u] by simp
  qed
qed

definition sample_local :: local_db where
  "sample_local = \<lparr> ls_source_epoch = ''e0'', ls_next_sequence = 3, ls_initialized = True, ls_counter_epoch = '''',
     ls_baselines = [\<lparr> bl_user_id = ''u1'', bl_tx = 100, bl_rx = 700, bl_updated_at = 0 \<rparr>,
                     \<lparr> bl_user_id = ''u2'', bl_tx = 50, bl_rx = 60, bl_updated_at = 0 \<rparr>],
     ls_outbox = [], ls_next_ordinal = 7,
     ls_kick_state = [\<lparr> ks_user_id = ''u1'', ks_applied_generation = 2, ks_updated_at = 0 \<rparr>],
     ls_kick_outbox = [], ls_sui_node = None, ls_sui_mappings = [], ls_results = [], ls_last_sequence = 0,
     ls_next_id = 0 \<rparr>"

definition sample_kicks :: "desired_kick list" where
  "sample_kicks = [\<lparr> dk_user_id = ''u1'', dk_generation = 3 \<rparr>, \<lparr> dk_user_id = ''u2'', dk_generation = 1 \<rparr>,
     \<lparr> dk_user_id = ''u1'', dk_generation = 2 \<rparr>]"

theorem kicks_never_lost_witness:
  "applied_generation ''u1'' (snd (executePendingKicks True (\<lambda>_. True) 5 (snd (queueKicks sample_kicks 4 sample_local)))) = 3"
proof -
  have ok: "kicks_ok sample_local" by code_simp
  have q: "queueKicks sample_kicks 4 sample_local = (Inr (), snd (queueKicks sample_kicks 4 sample_local))" by code_simp
  let ?d1 = "snd (queueKicks sample_kicks 4 sample_local)"
  have e: "executePendingKicks True (\<lambda>_. True) 5 ?d1 = (Inr (), snd (executePendingKicks True (\<lambda>_. True) 5 ?d1))" by code_simp
  have l: "length (ls_kick_outbox ?d1) \<le> 256" by code_simp
  have t: "fold max (map dk_generation (filter (\<lambda>k. dk_user_id k = ''u1'') sample_kicks)) (kick_target ''u1'' sample_local) = 3"
    by code_simp
  from kicks_never_lost [OF ok q e] l t show ?thesis by simp
qed


section \<open>What the sampler records\<close>

definition baseline_of :: "local_db \<Rightarrow> string \<Rightarrow> (int \<times> int) option" where
  "baseline_of d userID = map_option (\<lambda>b. (bl_tx b, bl_rx b)) (find_baseline userID d)"

text \<open>The traffic since the last sample, over the unbounded integers: a counter that went
  backwards has restarted from zero.\<close>

definition sampled_delta :: "counter_map \<Rightarrow> local_db \<Rightarrow> string \<Rightarrow> traffic_delta" where
  "sampled_delta counters d userID =
     (let c = counters_of counters userID;
          (tx, rx) = (case baseline_of d userID of
                        None \<Rightarrow> (0, 0)
                      | Some (tx, rx) \<Rightarrow> if tc_tx c < tx \<or> tc_rx c < rx then (0, 0) else (tx, rx))
      in \<lparr> td_user_id = userID, td_upload = tc_tx c - tx, td_download = tc_rx c - rx \<rparr>)"

definition has_traffic :: "traffic_delta \<Rightarrow> bool" where
  "has_traffic i \<longleftrightarrow> td_upload i \<noteq> 0 \<or> td_download i \<noteq> 0"

definition counters_in_range :: "counter_map \<Rightarrow> bool" where
  "counters_in_range counters \<longleftrightarrow> distinct (map fst counters) \<and>
     (\<forall>c\<in>set counters. int64_range (tc_tx (snd c)) \<and> int64_range (tc_rx (snd c)))"

definition baselines_ok :: "local_db \<Rightarrow> bool" where
  "baselines_ok d \<longleftrightarrow> unique_by bl_user_id (ls_baselines d) \<and>
     (\<forall>b\<in>set (ls_baselines d). 0 \<le> bl_tx b \<and> bl_tx b \<le> MaxInt64 \<and> 0 \<le> bl_rx b \<and> bl_rx b \<le> MaxInt64)"

definition set_baseline :: "traffic_counters \<Rightarrow> int \<Rightarrow> baseline_row \<Rightarrow> baseline_row" where
  "set_baseline c now b = b\<lparr>bl_tx := tc_tx c, bl_rx := tc_rx c, bl_updated_at := now\<rparr>"

interpretation baseline: row_update bl_user_id "set_baseline c now" for c now
  by unfold_locales (simp add: set_baseline_def)

lemma counters_of_range: "counters_in_range counters \<Longrightarrow>
    int64_range (tc_tx (counters_of counters u)) \<and> int64_range (tc_rx (counters_of counters u))"
  by (auto simp: counters_in_range_def counters_of_def int64_range_def MinInt64_def split: option.split dest!: map_of_SomeD)

lemma store_baseline_Inr:
  assumes "store_baseline userID c now d = Inr d'"
  obtains t where "d' = d\<lparr>ls_baselines := t\<rparr>" and "0 \<le> tc_tx c" and "0 \<le> tc_rx c"
    and "\<And>u. baseline_of d' u = (if u = userID then Some (tc_tx c, tc_rx c) else baseline_of d u)"
    and "baselines_ok d \<Longrightarrow> int64_range (tc_tx c) \<Longrightarrow> int64_range (tc_rx c) \<Longrightarrow> baselines_ok d'"
proof -
  let ?row = "\<lparr> bl_user_id = userID, bl_tx = tc_tx c, bl_rx = tc_rx c, bl_updated_at = unixMilli now \<rparr>"
  let ?t = "sql_upsert bl_user_id ?row (set_baseline c (unixMilli now)) (ls_baselines d)"
  have d': "d' = d\<lparr>ls_baselines := ?t\<rparr>" and c: "0 \<le> tc_tx c" "0 \<le> tc_rx c"
    using assms by (auto simp: store_baseline_def set_baseline_def [abs_def] split: if_splits)
  have "baseline_of d' u = (if u = userID then Some (tc_tx c, tc_rx c) else baseline_of d u)" for u
    using baseline.lookup_upsert_same [of ?row c "unixMilli now" "ls_baselines d"]
      baseline.lookup_upsert_other [of u ?row c "unixMilli now" "ls_baselines d"]
    by (auto simp: baseline_of_def find_baseline_def d' set_baseline_def split: option.split)
  moreover have "baselines_ok d'" if "baselines_ok d" "int64_range (tc_tx c)" "int64_range (tc_rx c)"
    using that c baseline.unique_upsert [of "ls_baselines d" ?row c "unixMilli now"]
    by (auto simp: baselines_ok_def d' int64_range_def sql_upsert_def table_simps set_baseline_def split: if_splits)
  ultimately show ?thesis using d' c by (intro that) auto
qed

lemma baselines_ok_range:
  "baselines_ok d \<Longrightarrow> baseline_of d u = Some (tx, rx) \<Longrightarrow> 0 \<le> tx \<and> tx \<le> MaxInt64 \<and> 0 \<le> rx \<and> rx \<le> MaxInt64"
  by (auto simp: baselines_ok_def baseline_of_def find_baseline_def dest!: sql_first_SomeD)

lemma counter_reset_baseline:
  "counter_reset counters d u =
     (case baseline_of d u of None \<Rightarrow> False
      | Some (tx, rx) \<Rightarrow> tc_tx (counters_of counters u) < tx \<or> tc_rx (counters_of counters u) < rx)"
  by (simp add: counter_reset_def baseline_of_def split: option.split)

lemma sampled_delta_cong: "baseline_of d' u = baseline_of d u \<Longrightarrow> sampled_delta counters d' u = sampled_delta counters d u"
  by (simp add: sampled_delta_def)

lemma td_user_sampled_delta [simp]: "td_user_id (sampled_delta counters d u) = u"
  by (simp add: sampled_delta_def Let_def split: option.split)

lemma sample_step_Inr:
  assumes "sample_step counters rs at u (items, d) = Inr (items', d')"
    and "baselines_ok d" and "counters_in_range counters"
    and "u \<in> set rs \<longleftrightarrow> counter_reset counters d u"
  shows "items' = items @ filter has_traffic [sampled_delta counters d u]"
    and "0 \<le> td_upload (sampled_delta counters d u) \<and> td_upload (sampled_delta counters d u) \<le> MaxInt64"
    and "0 \<le> td_download (sampled_delta counters d u) \<and> td_download (sampled_delta counters d u) \<le> MaxInt64"
    and "store_baseline u (counters_of counters u) at d = Inr d'"
proof -
  let ?c = "counters_of counters u"
  show sb: "store_baseline u ?c at d = Inr d'"
    using assms(1) by (auto simp: sample_step_def Let_def rbind_Inr_conv split: if_splits prod.splits)
  then have c: "0 \<le> tc_tx ?c" "0 \<le> tc_rx ?c" by (auto elim!: store_baseline_Inr)
  with counters_of_range [OF assms(3), of u] have m: "tc_tx ?c \<le> MaxInt64" "tc_rx ?c \<le> MaxInt64"
    by (auto simp: int64_range_def)
  obtain tx rx where prev: "(if u \<in> set rs then (0, 0) else
        case find_baseline u d of None \<Rightarrow> (0, 0) | Some b \<Rightarrow> (bl_tx b, bl_rx b)) = (tx, rx)"
    and p: "0 \<le> tx" "tx \<le> tc_tx ?c" "0 \<le> rx" "rx \<le> tc_rx ?c"
    and sd: "sampled_delta counters d u = \<lparr> td_user_id = u, td_upload = tc_tx ?c - tx, td_download = tc_rx ?c - rx \<rparr>"
  proof (cases "find_baseline u d")
    case None
    then show ?thesis using c that [of 0 0] by (simp add: sampled_delta_def baseline_of_def Let_def)
  next
    case (Some b)
    then have b: "baseline_of d u = Some (bl_tx b, bl_rx b)" by (simp add: baseline_of_def)
    show ?thesis
    proof (cases "counter_reset counters d u")
      case True
      then show ?thesis using c b Some assms(4) that [of 0 0]
        by (simp add: sampled_delta_def counter_reset_baseline Let_def)
    next
      case False
      then show ?thesis using c b Some assms(4) that [of "bl_tx b" "bl_rx b"] baselines_ok_range [OF assms(2) b]
        by (auto simp: sampled_delta_def counter_reset_baseline Let_def)
    qed
  qed
  have "sub64 (tc_tx ?c) tx = tc_tx ?c - tx" "sub64 (tc_rx ?c) rx = tc_rx ?c - rx"
    using p c m by simp_all
  with assms(1) sb p show "items' = items @ filter has_traffic [sampled_delta counters d u]"
    by (auto simp: sample_step_def Let_def prev sd has_traffic_def split: if_splits)
  show "0 \<le> td_upload (sampled_delta counters d u) \<and> td_upload (sampled_delta counters d u) \<le> MaxInt64"
    and "0 \<le> td_download (sampled_delta counters d u) \<and> td_download (sampled_delta counters d u) \<le> MaxInt64"
    using p m by (simp_all add: sd)
qed

lemma sample_steps:
  assumes "rfold (sample_step counters rs at) us (items, d) = Inr (items', d')"
    and "baselines_ok d" and "counters_in_range counters" and "distinct us"
    and "\<And>u. u \<in> set us \<Longrightarrow> u \<in> set rs \<longleftrightarrow> counter_reset counters d u"
  shows "items' = items @ filter has_traffic (map (sampled_delta counters d) us) \<and>
    (\<forall>u\<in>set us. 0 \<le> td_upload (sampled_delta counters d u) \<and> td_upload (sampled_delta counters d u) \<le> MaxInt64 \<and>
       0 \<le> td_download (sampled_delta counters d u) \<and> td_download (sampled_delta counters d u) \<le> MaxInt64) \<and>
    baselines_ok d' \<and> (\<exists>t. d' = d\<lparr>ls_baselines := t\<rparr>) \<and>
    (\<forall>u. baseline_of d' u = (if u \<in> set us then Some (tc_tx (counters_of counters u), tc_rx (counters_of counters u))
       else baseline_of d u))"
  using assms
proof (induction us arbitrary: items d)
  case Nil
  then show ?case by (auto intro: exI [of _ "ls_baselines d"])
next
  case (Cons u us)
  then obtain items1 d1 where s: "sample_step counters rs at u (items, d) = Inr (items1, d1)"
    and r: "rfold (sample_step counters rs at) us (items1, d1) = Inr (items', d')"
    by (auto simp: rbind_Inr_conv)
  note st = sample_step_Inr [OF s Cons.prems(2,3) Cons.prems(5) [of u, simplified]]
  obtain t where t: "d1 = d\<lparr>ls_baselines := t\<rparr>"
    and b: "\<And>v. baseline_of d1 v = (if v = u then Some (tc_tx (counters_of counters u), tc_rx (counters_of counters u)) else baseline_of d v)"
    and ok: "baselines_ok d1"
    using st(4) Cons.prems(2) counters_of_range [OF Cons.prems(3), of u] by (elim store_baseline_Inr) blast
  have same: "v \<in> set us \<Longrightarrow> baseline_of d1 v = baseline_of d v" for v using b Cons.prems(4) by auto
  then have sd: "v \<in> set us \<Longrightarrow> sampled_delta counters d1 v = sampled_delta counters d v" for v
    by (auto intro: sampled_delta_cong)
  then have m: "map (sampled_delta counters d1) us = map (sampled_delta counters d) us" by simp
  have "v \<in> set us \<Longrightarrow> v \<in> set rs \<longleftrightarrow> counter_reset counters d1 v" for v
    using Cons.prems(5) [of v] same [of v] by (simp add: counter_reset_baseline)
  then have ih: "items' = items1 @ filter has_traffic (map (sampled_delta counters d1) us) \<and>
      (\<forall>u\<in>set us. 0 \<le> td_upload (sampled_delta counters d1 u) \<and> td_upload (sampled_delta counters d1 u) \<le> MaxInt64 \<and>
         0 \<le> td_download (sampled_delta counters d1 u) \<and> td_download (sampled_delta counters d1 u) \<le> MaxInt64) \<and>
      baselines_ok d' \<and> (\<exists>t. d' = d1\<lparr>ls_baselines := t\<rparr>) \<and>
      (\<forall>u. baseline_of d' u = (if u \<in> set us then Some (tc_tx (counters_of counters u), tc_rx (counters_of counters u))
         else baseline_of d1 u))"
    using Cons.prems(4) by (intro Cons.IH [OF r ok Cons.prems(3)]) auto
  moreover have "\<exists>t. d' = d\<lparr>ls_baselines := t\<rparr>" using ih t by auto
  moreover have "items' = items @ filter has_traffic (map (sampled_delta counters d) (u # us))"
    using ih m st(1) by simp
  moreover have "\<forall>v. baseline_of d' v = (if v \<in> set (u # us) then Some (tc_tx (counters_of counters v), tc_rx (counters_of counters v))
       else baseline_of d v)" using ih b by simp
  ultimately show ?case using st(2,3) sd by simp
qed


lemma concat_chunks: "0 < n \<Longrightarrow> concat (chunks n xs) = xs"
  by (induction n xs rule: chunks.induct) (simp add: chunks.simps)

lemma chunks_bounds: "c \<in> set (chunks n xs) \<Longrightarrow> 1 \<le> length c \<and> length c \<le> n"
  by (induction n xs rule: chunks.induct)
    (subst (asm) (2) chunks.simps, auto split: if_splits simp: Suc_le_eq min_def)

text \<open>A batch waiting in the outbox is well formed: at most 1000 items, each with traffic, of
  different users, and the key columns agree with the payload.\<close>

definition delta_ok :: "traffic_delta \<Rightarrow> bool" where
  "delta_ok i \<longleftrightarrow> has_traffic i \<and> 0 \<le> td_upload i \<and> td_upload i \<le> MaxInt64 \<and> 0 \<le> td_download i \<and> td_download i \<le> MaxInt64"

definition items_ok :: "traffic_delta list \<Rightarrow> bool" where
  "items_ok items \<longleftrightarrow> 1 \<le> length items \<and> length items \<le> MaxTrafficItemsPerBatch \<and>
     distinct (map td_user_id items) \<and> list_all delta_ok items"

definition outbox_row_ok :: "outbox_row \<Rightarrow> bool" where
  "outbox_row_ok r \<longleftrightarrow> ox_id r = tb_id (ox_payload r) \<and>
     oskey r = (tb_source_epoch (ox_payload r), tb_sequence (ox_payload r)) \<and>
     1 \<le> ox_sequence r \<and> items_ok (tb_items (ox_payload r))"

definition outbox_ok :: "local_db \<Rightarrow> bool" where
  "outbox_ok d \<longleftrightarrow> unique_by ox_id (ls_outbox d) \<and> unique_by oskey (ls_outbox d) \<and>
     sorted (map ox_ordinal (ls_outbox d)) \<and>
     (\<forall>r\<in>set (ls_outbox d). ox_ordinal r < ls_next_ordinal d \<and> outbox_row_ok r)"

definition sampler_ok :: "local_db \<Rightarrow> bool" where
  "sampler_ok d \<longleftrightarrow> baselines_ok d \<and> outbox_ok d"

lemma insert_outbox_Inr:
  assumes "insert_outbox b created d = Inr d'" and "items_ok (tb_items b)" and "outbox_ok d"
  shows "outbox_ok d' \<and> map ox_payload (ls_outbox d') = map ox_payload (ls_outbox d) @ [b] \<and>
    (\<exists>t n. d' = d\<lparr>ls_outbox := t, ls_next_ordinal := n\<rparr>)"
proof -
  let ?row = "outbox_row_of (ls_next_ordinal d) b created"
  have d': "d' = d\<lparr>ls_outbox := ls_outbox d @ [?row], ls_next_ordinal := ls_next_ordinal d + 1\<rparr>"
    and seq: "1 \<le> tb_sequence b"
    and fresh: "\<forall>r\<in>set (ls_outbox d). ox_id r \<noteq> ox_id ?row" "\<forall>r\<in>set (ls_outbox d). oskey r \<noteq> oskey ?row"
    using assms(1) by (auto simp: insert_outbox_def Let_def sql_exists_iff split: if_splits)
  have row: "outbox_row_ok ?row" "ox_ordinal ?row = ls_next_ordinal d"
    using seq assms(2) by (simp_all add: outbox_row_ok_def outbox_row_of_def oskey_def)
  have "outbox_ok d'"
    using assms(3) fresh row
    by (auto simp: outbox_ok_def d' unique_by_append1 sorted_append less_imp_le dest: bspec)
  moreover have "ox_payload ?row = b" by (simp add: outbox_row_of_def)
  ultimately show ?thesis using d' by (auto intro: exI)
qed

lemma emit_batches:
  assumes "rfold (emit_batch e inst at created) slices (acc, d) = Inr (bs, d')"
    and "\<forall>s\<in>set slices. items_ok s" and "outbox_ok d"
  shows "outbox_ok d' \<and> (\<exists>new. bs = acc @ new \<and> map tb_items new = slices \<and>
      map ox_payload (ls_outbox d') = map ox_payload (ls_outbox d) @ new \<and>
      (\<exists>t n i. d' = d\<lparr>ls_outbox := t, ls_next_ordinal := n, ls_next_id := i\<rparr>) \<and>
      map tb_id new = map (\<lambda>i. env_new_id e (ls_next_id d + i)) [0..<length slices] \<and>
      map tb_sequence new = map (\<lambda>i. add64 (ls_next_sequence d) (int (length acc + i))) [0..<length slices] \<and>
      (\<forall>b\<in>set new. tb_installation_id b = inst \<and> tb_source_epoch b = ls_source_epoch d \<and> tb_sampled_at b = at))"
  using assms
proof (induction slices arbitrary: acc d)
  case Nil
  have "\<exists>t n i. d = d\<lparr>ls_outbox := t, ls_next_ordinal := n, ls_next_id := i\<rparr>"
    by (intro exI [of _ "ls_outbox d"] exI [of _ "ls_next_ordinal d"] exI [of _ "ls_next_id d"]) simp
  with Nil show ?case by simp
next
  case (Cons s slices)
  let ?b = "\<lparr> tb_id = env_new_id e (ls_next_id d), tb_installation_id = inst, tb_source_epoch = ls_source_epoch d,
      tb_sequence = add64 (ls_next_sequence d) (int (length acc)), tb_sampled_at = at, tb_items = s \<rparr>"
  let ?d0 = "d\<lparr>ls_next_id := Suc (ls_next_id d)\<rparr>"
  have step: "emit_batch e inst at created s (acc, d) =
      rbind (insert_outbox ?b created ?d0) (\<lambda>d2. Inr (acc @ [?b], d2))"
    by (simp add: emit_batch_def local_id_def Let_def)
  obtain d1 where i: "insert_outbox ?b created ?d0 = Inr d1"
    and r: "rfold (emit_batch e inst at created) slices (acc @ [?b], d1) = Inr (bs, d')"
    using Cons.prems(1) by (auto simp: step rbind_Inr_conv)
  have "outbox_ok ?d0" using Cons.prems(3) by (simp add: outbox_ok_def)
  from insert_outbox_Inr [OF i _ this] Cons.prems(2) obtain t n where
    d1: "outbox_ok d1" "map ox_payload (ls_outbox d1) = map ox_payload (ls_outbox d) @ [?b]"
      "d1 = d\<lparr>ls_next_id := Suc (ls_next_id d), ls_outbox := t, ls_next_ordinal := n\<rparr>" by auto
  from Cons.IH [OF r _ d1(1)] Cons.prems(2) obtain new t' n' j where
    ih: "outbox_ok d'" "bs = acc @ ?b # new" "map tb_items new = slices"
      "map ox_payload (ls_outbox d') = map ox_payload (ls_outbox d1) @ new"
      "d' = d1\<lparr>ls_outbox := t', ls_next_ordinal := n', ls_next_id := j\<rparr>"
      "map tb_id new = map (\<lambda>i. env_new_id e (ls_next_id d1 + i)) [0..<length slices]"
      "map tb_sequence new = map (\<lambda>i. add64 (ls_next_sequence d1) (int (length (acc @ [?b]) + i))) [0..<length slices]"
      "\<forall>b\<in>set new. tb_installation_id b = inst \<and> tb_source_epoch b = ls_source_epoch d1 \<and> tb_sampled_at b = at" by auto
  have upt: "map f [0..<length (s # slices)] = f 0 # map (\<lambda>i. f (Suc i)) [0..<length slices]" for f :: "nat \<Rightarrow> 'x"
    by (simp add: upt_conv_Cons map_Suc_upt [symmetric] del: upt_Suc)
  have dd: "ls_next_id d1 = Suc (ls_next_id d)" "ls_next_sequence d1 = ls_next_sequence d" "ls_source_epoch d1 = ls_source_epoch d"
    using d1(3) by simp_all
  have "d' = d\<lparr>ls_outbox := t', ls_next_ordinal := n', ls_next_id := j\<rparr>" using ih(5) d1(3) by simp
  then have "\<exists>t n i. d' = d\<lparr>ls_outbox := t, ls_next_ordinal := n, ls_next_id := i\<rparr>" by blast
  moreover have "map tb_id (?b # new) = map (\<lambda>i. env_new_id e (ls_next_id d + i)) [0..<length (s # slices)]"
    unfolding upt using ih(6) by (simp add: dd)
  moreover have "map tb_sequence (?b # new) = map (\<lambda>i. add64 (ls_next_sequence d) (int (length acc + i))) [0..<length (s # slices)]"
    unfolding upt using ih(7) by (simp add: dd)
  moreover have "map tb_items (?b # new) = s # slices" and "bs = acc @ (?b # new)"
    and "map ox_payload (ls_outbox d') = map ox_payload (ls_outbox d) @ (?b # new)"
    and "\<forall>b\<in>set (?b # new). tb_installation_id b = inst \<and> tb_source_epoch b = ls_source_epoch d \<and> tb_sampled_at b = at"
    using ih(2,3,4,8) d1(2) dd by simp_all
  ultimately show ?case using ih(1) by (intro conjI exI [where x = "?b # new"]) assumption+
qed


lemma observe_counter_epoch_Inr:
  assumes "observe_counter_epoch e epochs d = Inr d1"
  shows "ls_outbox d1 = ls_outbox d" and "ls_next_ordinal d1 = ls_next_ordinal d" and "ls_initialized d1 = ls_initialized d"
    and "ls_baselines d1 = ls_baselines d \<or> ls_baselines d1 = [] \<and> ls_initialized d"
    and "baselines_ok d \<Longrightarrow> baselines_ok d1" and "outbox_ok d \<Longrightarrow> outbox_ok d1"
proof -
  show "ls_outbox d1 = ls_outbox d" and "ls_next_ordinal d1 = ls_next_ordinal d" and "ls_initialized d1 = ls_initialized d"
    and b: "ls_baselines d1 = ls_baselines d \<or> ls_baselines d1 = [] \<and> ls_initialized d"
    using assms by (auto simp: observe_counter_epoch_def local_id_def Let_def split: if_splits)
  then show "baselines_ok d \<Longrightarrow> baselines_ok d1" and "outbox_ok d \<Longrightarrow> outbox_ok d1"
    by (auto simp: baselines_ok_def outbox_ok_def unique_by_def)
qed

definition rotated :: "env \<Rightarrow> counter_map \<Rightarrow> local_db \<Rightarrow> local_db" where
  "rotated e counters d =
     (if list_ex (counter_reset counters d) (map fst counters) then rotate_source e d else d)"

lemma rotated_frame [simp]:
  "ls_outbox (rotated e counters d) = ls_outbox d" "ls_baselines (rotated e counters d) = ls_baselines d"
  "ls_next_ordinal (rotated e counters d) = ls_next_ordinal d" "baseline_of (rotated e counters d) = baseline_of d"
  by (simp_all add: rotated_def rotate_source_def local_id_def baseline_of_def find_baseline_def fun_eq_iff)

lemma reset_users_rotated:
  "(if filter (counter_reset counters d) (sort (map fst counters)) \<noteq> [] then rotate_source e d else d) = rotated e counters d"
  by (auto simp: rotated_def filter_empty_conv list_ex_iff)

lemma items_ok_slices:
  assumes "distinct (map td_user_id items)" and "\<forall>i\<in>set items. delta_ok i"
    and "s \<in> set (chunks MaxTrafficItemsPerBatch items)"
  shows "items_ok s"
proof -
  have c: "concat (chunks MaxTrafficItemsPerBatch items) = items"
    by (rule concat_chunks) (simp add: MaxTrafficItemsPerBatch_def)
  obtain ys zs where "chunks MaxTrafficItemsPerBatch items = ys @ s # zs" using assms(3) by (meson split_list)
  with c have split: "items = concat ys @ s @ concat zs" by simp
  have "distinct (map td_user_id s)" "\<forall>i\<in>set s. delta_ok i" using assms(1,2) unfolding split by simp_all
  with chunks_bounds [OF assms(3)] show ?thesis by (simp add: items_ok_def list_all_iff)
qed

lemma record_sample_Inr:
  assumes "record_sample_body e inst counters at epochs created d = Inr (bs, d')"
    and "observe_counter_epoch e epochs d = Inr d1" and "ls_initialized d"
    and "sampler_ok d" and "counters_in_range counters"
  shows "sampler_ok d'"
    and "concat (map tb_items bs) = filter has_traffic (map (sampled_delta counters d1) (sort (map fst counters)))"
    and "\<forall>b\<in>set bs. items_ok (tb_items b) \<and> tb_installation_id b = inst \<and> tb_sampled_at b = at \<and>
           tb_source_epoch b = ls_source_epoch (rotated e counters d1)"
    and "map ox_payload (ls_outbox d') = map ox_payload (ls_outbox d) @ bs"
    and "map tb_id bs = map (\<lambda>i. env_new_id e (ls_next_id (rotated e counters d1) + i)) [0..<length bs]"
    and "map tb_sequence bs = map (\<lambda>i. add64 (ls_next_sequence (rotated e counters d1)) (int i)) [0..<length bs]"
    and "baseline_of d' u = (if u \<in> fst ` set counters
           then Some (tc_tx (counters_of counters u), tc_rx (counters_of counters u)) else baseline_of d1 u)"
proof -
  let ?us = "sort (map fst counters)" and ?d2 = "rotated e counters d1"
  let ?rs = "filter (counter_reset counters d1) ?us"
  note ob = observe_counter_epoch_Inr [OF assms(2)]
  let ?emit = "\<lambda>(items, d3). if items = [] then Inr ([], d3)
       else rbind (rfold (emit_batch e inst at created) (chunks MaxTrafficItemsPerBatch items) ([], d3))
              (\<lambda>(batches, d4). Inr (batches, d4\<lparr>ls_next_sequence := add64 (ls_next_sequence d4) (int (length batches))\<rparr>))"
  have "rbind (rfold (sample_step counters ?rs at) ?us ([], ?d2)) ?emit = Inr (bs, d')"
    using assms(1) unfolding record_sample_body_def assms(2) rbind_simps Let_def reset_users_rotated
    by (simp only: assms(3) not_True_eq_False if_False)
  then obtain items d3 where steps: "rfold (sample_step counters ?rs at) ?us ([], ?d2) = Inr (items, d3)"
    and rest: "?emit (items, d3) = Inr (bs, d')"
    unfolding rbind_Inr_conv by fast
  have "baselines_ok d1" "outbox_ok d1" using ob(5,6) assms(4) unfolding sampler_ok_def by blast+
  then have b2: "baselines_ok ?d2" and o2: "outbox_ok ?d2"
    unfolding baselines_ok_def outbox_ok_def rotated_frame by blast+
  have dist: "distinct ?us" using assms(5) by (simp add: counters_in_range_def)
  have "u \<in> set ?us \<Longrightarrow> u \<in> set ?rs \<longleftrightarrow> counter_reset counters ?d2 u" for u
    by (simp add: counter_reset_baseline)
  note ss = sample_steps [OF steps b2 assms(5) dist this]
  have sd: "sampled_delta counters ?d2 = sampled_delta counters d1"
    by (simp add: fun_eq_iff sampled_delta_cong [of ?d2 _ d1])
  have it: "items = filter has_traffic (map (sampled_delta counters d1) ?us)" using ss by (simp add: sd)
  obtain t where d3: "d3 = ?d2\<lparr>ls_baselines := t\<rparr>" using ss by blast
  have o3: "outbox_ok d3" using o2 by (simp add: d3 outbox_ok_def)
  have b3: "baselines_ok d3" using ss by blast
  have "distinct (map td_user_id items)"
    unfolding it using dist by (intro distinct_map_filter) (simp add: comp_def)
  moreover have "\<forall>i\<in>set items. delta_ok i" using ss by (auto simp: it sd delta_ok_def)
  ultimately have sl: "\<forall>s\<in>set (chunks MaxTrafficItemsPerBatch items). items_ok s" using items_ok_slices by blast
  have bl: "baseline_of d3 u = (if u \<in> fst ` set counters
       then Some (tc_tx (counters_of counters u), tc_rx (counters_of counters u)) else baseline_of d1 u)" for u
    using ss by simp
  obtain d4 where em: "rfold (emit_batch e inst at created) (chunks MaxTrafficItemsPerBatch items) ([], d3) = Inr (bs, d4)"
    and d': "d' = d4 \<or> d' = d4\<lparr>ls_next_sequence := add64 (ls_next_sequence d4) (int (length bs))\<rparr>"
    using rest by (cases "items = []") (auto simp: chunks.simps [of _ "[]"] rbind_Inr_conv)
  note eb = emit_batches [OF em sl o3]
  obtain t' n' j where d4: "d4 = d3\<lparr>ls_outbox := t', ls_next_ordinal := n', ls_next_id := j\<rparr>" using eb by auto
  have sl': "map tb_items bs = chunks MaxTrafficItemsPerBatch items" using eb by auto
  then have len: "length bs = length (chunks MaxTrafficItemsPerBatch items)" by (metis length_map)
  have frame: "ls_outbox d' = ls_outbox d4" "ls_baselines d' = ls_baselines d4" "ls_next_ordinal d' = ls_next_ordinal d4"
    using d' by auto
  show "sampler_ok d'"
    using eb b3 d4 by (simp add: sampler_ok_def frame baselines_ok_def outbox_ok_def)
  show "concat (map tb_items bs) = filter has_traffic (map (sampled_delta counters d1) ?us)"
    by (simp add: sl' it concat_chunks MaxTrafficItemsPerBatch_def)
  have "items_ok (tb_items b)" if "b \<in> set bs" for b
    using sl sl' that by (metis image_eqI list.set_map)
  with eb show "\<forall>b\<in>set bs. items_ok (tb_items b) \<and> tb_installation_id b = inst \<and> tb_sampled_at b = at \<and>
           tb_source_epoch b = ls_source_epoch ?d2" by (auto simp: d3)
  show "map ox_payload (ls_outbox d') = map ox_payload (ls_outbox d) @ bs"
    using eb ob(1) by (auto simp: frame d3)
  show "map tb_id bs = map (\<lambda>i. env_new_id e (ls_next_id ?d2 + i)) [0..<length bs]"
    using eb unfolding len by (auto simp: d3)
  show "map tb_sequence bs = map (\<lambda>i. add64 (ls_next_sequence ?d2) (int i)) [0..<length bs]"
    using eb unfolding len by (auto simp: d3)
  show "baseline_of d' u = (if u \<in> fst ` set counters
       then Some (tc_tx (counters_of counters u), tc_rx (counters_of counters u)) else baseline_of d1 u)"
    using bl [of u] d4 by (simp add: baseline_of_def find_baseline_def frame)
qed

text \<open>C7: A sample loses no byte and invents none.  When the sampler is initialised, the batches it
  hands to the outbox carry, in the order of the user ids, exactly the growth of every user's
  counters since the last sample (the whole counter when it restarted), the users without traffic
  left out; they have 1 to 1000 items of different users, the next sequence numbers of the current
  source, and are queued behind the waiting batches, and the counters become the new baselines.\<close>

theorem sample_exact:
  assumes "recordTrafficSample e inst counters at epochs created d = (Inr bs, d')"
    and "observe_counter_epoch e epochs d = Inr d1" and "ls_initialized d"
    and "sampler_ok d" and "counters_in_range counters"
  shows "concat (map tb_items bs) = filter has_traffic (map (sampled_delta counters d1) (sort (map fst counters))) \<and>
    (\<forall>b\<in>set bs. items_ok (tb_items b)) \<and>
    map tb_sequence bs = map (\<lambda>i. add64 (ls_next_sequence (rotated e counters d1)) (int i)) [0..<length bs] \<and>
    map ox_payload (ls_outbox d') = map ox_payload (ls_outbox d) @ bs \<and>
    (\<forall>u. baseline_of d' u = (if u \<in> fst ` set counters
       then Some (tc_tx (counters_of counters u), tc_rx (counters_of counters u)) else baseline_of d1 u)) \<and>
    sampler_ok d'"
proof -
  have "record_sample_body e inst counters at epochs created d = Inr (bs, d')"
    using assms(1) by (simp add: recordTrafficSample_def transact_commit)
  from record_sample_Inr [OF this assms(2-5)] show ?thesis by simp
qed

definition sample_counters :: counter_map where
  "sample_counters = [(''u2'', \<lparr> tc_tx = 10, tc_rx = 20 \<rparr>), (''u1'', \<lparr> tc_tx = 150, tc_rx = 700 \<rparr>)]"

theorem sample_exact_witness:
  "concat (map tb_items (projr (fst (recordTrafficSample sample_env ''inst1'' sample_counters 9 [] 9 sample_local)))) =
     [\<lparr> td_user_id = ''u1'', td_upload = 50, td_download = 0 \<rparr>, \<lparr> td_user_id = ''u2'', td_upload = 10, td_download = 20 \<rparr>]"
proof -
  let ?r = "recordTrafficSample sample_env ''inst1'' sample_counters 9 [] 9 sample_local"
  have r: "?r = (Inr (projr (fst ?r)), snd ?r)" by code_simp
  have o: "observe_counter_epoch sample_env [] sample_local = Inr sample_local" by code_simp
  have i: "ls_initialized sample_local" "sampler_ok sample_local" by code_simp+
  have c: "counters_in_range sample_counters" by code_simp
  have x: "filter has_traffic (map (sampled_delta sample_counters sample_local) (sort (map fst sample_counters))) =
      [\<lparr> td_user_id = ''u1'', td_upload = 50, td_download = 0 \<rparr>, \<lparr> td_user_id = ''u2'', td_upload = 10, td_download = 20 \<rparr>]"
    by code_simp
  from sample_exact [OF r o i c] x show ?thesis by simp
qed

end
