(* ===== verification/Delivery.thy ===== *)
theory Delivery
  imports Traffic Local_Store Go_Strings
begin

text \<open>
  The way of a byte from the data plane's counter to the controller's ledger: the agent's
  upload of its outbox (internal/agent/agent.go, \<open>flushTrafficOutbox\<close>), the endpoints of
  the controller (internal/server/traffic\_handlers.go), and the network between them, which may
  lose a request or a reply.  The outbox protocol is stated once as a locale and interpreted on
  the endpoint; the agent and the controller together refine an abstract meter.
\<close>

section \<open>The endpoints\<close>

definition maxTrafficBatchesPerRequest :: nat where "maxTrafficBatchesPerRequest = 20"
definition maxTrafficDeltaBytes :: int where "maxTrafficDeltaBytes = 1125899906842624"
definition maxOnlineUsersPerSnapshot :: nat where "maxOnlineUsersPerSnapshot = 10000"
definition maxOnlineConnectionCount :: int where "maxOnlineConnectionCount = 1000000"

text \<open>The loop ranges over code points; those below 0x80 are the bytes below 0x80.\<close>

definition validUsageUserID :: "string \<Rightarrow> bool" where
  "validUsageUserID v \<longleftrightarrow> v \<noteq> '''' \<and> length v \<le> 128 \<and> TrimSpace v = v \<and>
     list_all (\<lambda>c. \<not> (of_char c < (0x21 :: nat) \<or> of_char c = (0x7f :: nat))) v"

fun validate_items :: "traffic_delta list \<Rightarrow> string list \<Rightarrow> int \<Rightarrow> int \<Rightarrow> string" where
  "validate_items [] seen uploadTotal downloadTotal = ''''"
| "validate_items (item # items) seen uploadTotal downloadTotal =
     (if \<not> validUsageUserID (td_user_id item) then ''invalid_user_id''
      else if td_user_id item \<in> set seen then ''duplicate_user_id''
      else if td_upload item < 0 \<or> td_download item < 0 \<or>
         td_upload item > maxTrafficDeltaBytes \<or> td_download item > maxTrafficDeltaBytes \<or>
         (td_upload item = 0 \<and> td_download item = 0)
      then ''invalid_traffic_delta''
      else if uploadTotal > sub64 MaxInt64 (td_upload item) \<or> downloadTotal > sub64 MaxInt64 (td_download item)
      then ''batch_total_overflow''
      else validate_items items (td_user_id item # seen)
             (add64 uploadTotal (td_upload item)) (add64 downloadTotal (td_download item)))"

definition validateTrafficBatch :: "env \<Rightarrow> traffic_batch \<Rightarrow> gotime \<Rightarrow> string" where
  "validateTrafficBatch e batch now =
     (if \<not> env_uuid_valid e (tb_id batch) then ''invalid_batch_id''
      else if \<not> env_uuid_valid e (tb_installation_id batch) then ''invalid_installation_id''
      else if \<not> env_uuid_valid e (tb_source_epoch batch) then ''invalid_source_epoch''
      else if tb_sequence batch < 1 \<or> tb_sampled_at batch = zeroTime \<or> tb_sampled_at batch > now + 10 * minute
      then ''invalid_sample_metadata''
      else if length (tb_items batch) < 1 \<or> length (tb_items batch) > MaxTrafficItemsPerBatch
      then ''invalid_item_count''
      else validate_items (tb_items batch) [] 0 0)"

record batch_result =
  br_id :: string
  br_status :: string
  br_error_code :: string

text \<open>An answer of the endpoint: a status of 400 or more with an error code, or the results.\<close>

datatype traffic_reply = Refused int string | Results "batch_result list"

fun traffic_loop ::
  "env \<Rightarrow> agent_identity \<Rightarrow> gotime \<Rightarrow> traffic_batch list \<Rightarrow> batch_result list \<Rightarrow> db \<Rightarrow> traffic_reply \<times> db" where
  "traffic_loop e identity now [] results d = (Results results, d)"
| "traffic_loop e identity now (batch # batches) results d =
     (let code = validateTrafficBatch e batch now in
      if code \<noteq> '''' then
        traffic_loop e identity now batches
          (results @ [\<lparr> br_id = tb_id batch, br_status = ''rejected'', br_error_code = code \<rparr>]) d
      else case IngestTrafficBatch e identity batch now d of
             (Inl err, d1) \<Rightarrow> (Refused 500 ''traffic_ingest_failed'', d1)
           | (Inr (status, errorCode), d1) \<Rightarrow>
               traffic_loop e identity now batches
                 (results @ [\<lparr> br_id = tb_id batch, br_status = status, br_error_code = errorCode \<rparr>]) d1)"

definition handleAgentTrafficBatches ::
  "env \<Rightarrow> agent_identity \<Rightarrow> gotime \<Rightarrow> traffic_batch list \<Rightarrow> db \<Rightarrow> traffic_reply \<times> db" where
  "handleAgentTrafficBatches e identity now batches d =
     (if length batches < 1 \<or> length batches > maxTrafficBatchesPerRequest
      then (Refused 422 ''validation_failed'', d)
      else traffic_loop e identity now batches [] d)"

fun valid_online_users :: "online_user list \<Rightarrow> string list \<Rightarrow> bool" where
  "valid_online_users [] seen = True"
| "valid_online_users (user # users) seen =
     (if \<not> validUsageUserID (ou_user_id user) \<or> ou_connections user < 1 \<or> ou_connections user > maxOnlineConnectionCount
      then False
      else if ou_user_id user \<in> set seen then False
      else valid_online_users users (ou_user_id user # seen))"

definition validOnlineSnapshot :: "env \<Rightarrow> online_snapshot \<Rightarrow> gotime \<Rightarrow> bool" where
  "validOnlineSnapshot e input now =
     (if \<not> env_uuid_valid e (os_snapshot_id input) then False
      else if \<not> env_uuid_valid e (os_installation_id input) then False
      else if os_sampled_at input = zeroTime \<or> os_sampled_at input > now + 10 * minute \<or>
         length (os_users input) > maxOnlineUsersPerSnapshot then False
      else valid_online_users (os_users input) [])"

definition handleAgentOnlineSnapshot ::
  "env \<Rightarrow> agent_identity \<Rightarrow> gotime \<Rightarrow> online_snapshot \<Rightarrow> db \<Rightarrow> (int \<times> string + bool) \<times> db" where
  "handleAgentOnlineSnapshot e identity now input d =
     (if \<not> validOnlineSnapshot e input now then (Inl (422, ''validation_failed''), d)
      else case RecordOnlineSnapshot identity input now d of
             (Inl err, d1) \<Rightarrow>
               (Inl (if err = ErrUnsupported then (422, ''adapter_online_unsupported'')
                     else if err = ErrConflict then (409, ''installation_conflict'')
                     else (500, ''online_snapshot_failed'')), d1)
           | (Inr accepted, d1) \<Rightarrow> (Inr accepted, d1))"

section \<open>The upload\<close>

text \<open>What happens to one request: it is lost, its reply is lost, or both arrive.\<close>

datatype transmission = RequestLost | ReplyLost | Delivered

record exchange =
  xc_outcome :: transmission
  xc_server_now :: gotime
  xc_agent_now :: gotime

text \<open>The reply the agent gets, \<open>None\<close> when \<open>doJSON\<close> returns an error (a lost message or a
  status of 400 or more).\<close>

definition post_batch ::
  "env \<Rightarrow> agent_identity \<Rightarrow> exchange \<Rightarrow> traffic_batch \<Rightarrow> db \<Rightarrow> batch_result list option \<times> db" where
  "post_batch e identity x batch d =
     (case xc_outcome x of
        RequestLost \<Rightarrow> (None, d)
      | ReplyLost \<Rightarrow> (None, snd (handleAgentTrafficBatches e identity (xc_server_now x) [batch] d))
      | Delivered \<Rightarrow>
          (case handleAgentTrafficBatches e identity (xc_server_now x) [batch] d of
             (Refused status code, d1) \<Rightarrow> (None, d1)
           | (Results results, d1) \<Rightarrow> (Some results, d1)))"

text \<open>What the agent makes of a reply: the error code of the failure, or \<open>None\<close> when the
  batch is settled.\<close>

definition reply_failure :: "traffic_batch \<Rightarrow> batch_result list option \<Rightarrow> string option" where
  "reply_failure batch reply =
     (case reply of
        None \<Rightarrow> Some ''transport_error''
      | Some results \<Rightarrow>
          if length results \<noteq> 1 \<or> br_id (hd results) \<noteq> tb_id batch then Some ''invalid_response''
          else if br_status (hd results) = ''accepted'' \<or> br_status (hd results) = ''duplicate'' then None
          else if br_status (hd results) = ''rejected'' then
            Some (if br_error_code (hd results) = '''' then ''rejected'' else br_error_code (hd results))
          else Some ''invalid_status'')"

text \<open>The loop stops at the first batch that is not settled.  The exchanges are consumed in
  order; when none is left the request is lost.\<close>

fun flush_loop ::
  "env \<Rightarrow> agent_identity \<Rightarrow> exchange list \<Rightarrow> traffic_batch list \<Rightarrow> local_db \<Rightarrow> db \<Rightarrow> (string + unit) \<times> local_db \<times> db" where
  "flush_loop e identity xs [] l d = (Inr (), l, d)"
| "flush_loop e identity xs (batch # batches) l d =
     (let (x, xs') = (case xs of [] \<Rightarrow> (\<lparr> xc_outcome = RequestLost, xc_server_now = 0, xc_agent_now = 0 \<rparr>, [])
                                | x # xs' \<Rightarrow> (x, xs'));
          (reply, d1) = post_batch e identity x batch d in
      case reply_failure batch reply of
        Some code \<Rightarrow> (Inl code, recordTrafficFailure (tb_id batch) code (xc_agent_now x) l, d1)
      | None \<Rightarrow> flush_loop e identity xs' batches (deleteTrafficOutbox (tb_id batch) l) d1)"

definition flushTrafficOutbox ::
  "env \<Rightarrow> agent_identity \<Rightarrow> exchange list \<Rightarrow> local_db \<Rightarrow> db \<Rightarrow> (string + unit) \<times> local_db \<times> db" where
  "flushTrafficOutbox e identity xs l d = flush_loop e identity xs (listTrafficOutbox 20 l) l d"

section \<open>Outbox delivery\<close>

text \<open>
  The contract between a sender that keeps every message until it is settled and a receiver that
  books a message at most once: an attempt either changes nothing or books a message that was not
  booked before, and what the receiver reports as settled is booked.  The amount booked plus the
  amount of the waiting messages that are not booked yet is then the same before and after any
  attempt, whether the sender learns of its outcome or not.
\<close>

locale reliable_outbox =
  fixes deliver :: "'m \<Rightarrow> 's \<Rightarrow> bool \<times> 's"
    and ident :: "'m \<Rightarrow> 'i"
    and booked :: "'s \<Rightarrow> 'i \<Rightarrow> bool"
    and amount :: "'s \<Rightarrow> 'k \<Rightarrow> int"
    and load :: "'m \<Rightarrow> 'k \<Rightarrow> int"
  assumes settled_booked: "deliver m s = (True, s') \<Longrightarrow> booked s' (ident m)"
    and booked_once: "deliver m s = (r, s') \<Longrightarrow> s' = s \<or>
      \<not> booked s (ident m) \<and> (\<forall>i. booked s' i \<longleftrightarrow> booked s i \<or> i = ident m) \<and>
      (\<forall>k. amount s' k = amount s k + load m k)"
begin

definition outstanding :: "'m list \<Rightarrow> 's \<Rightarrow> 'k \<Rightarrow> int" where
  "outstanding ms s k = sum_by (\<lambda>m. \<not> booked s (ident m)) (\<lambda>m. load m k) ms"

definition committed :: "'m list \<Rightarrow> 's \<Rightarrow> 'k \<Rightarrow> int" where
  "committed ms s k = amount s k + outstanding ms s k"

lemma outstanding_settle:
  assumes "unique_by ident ms" and "m \<in> set ms" and "\<not> booked s (ident m)"
    and "\<forall>i. booked s' i \<longleftrightarrow> booked s i \<or> i = ident m"
  shows "outstanding ms s k = load m k + outstanding ms s' k"
  using assms(1,2)
proof (induction ms)
  case Nil
  then show ?case by simp
next
  case (Cons x ms)
  show ?case
  proof (cases "x = m")
    case True
    with Cons.prems have "\<forall>y\<in>set ms. ident y \<noteq> ident m" by (auto simp: unique_by_def image_iff)
    then have "outstanding ms s k = outstanding ms s' k"
      using assms(4) by (induction ms) (auto simp: outstanding_def)
    with True assms(3,4) show ?thesis by (simp add: outstanding_def)
  next
    case False
    with Cons.prems have "m \<in> set ms" "ident x \<noteq> ident m" "unique_by ident ms"
      by (auto simp: unique_by_def)
    with Cons.IH assms(4) show ?thesis by (simp add: outstanding_def)
  qed
qed

lemma deliver_committed:
  assumes "deliver m s = (r, s')" and "unique_by ident ms" and "m \<in> set ms"
  shows "committed ms s' k = committed ms s k"
  using booked_once [OF assms(1)] outstanding_settle [OF assms(2,3), of s s' k]
  by (auto simp: committed_def)

lemma remove_settled:
  assumes "booked s i"
  shows "committed (filter (\<lambda>m. ident m \<noteq> i) ms) s k = committed ms s k"
proof -
  have "outstanding (filter (\<lambda>m. ident m \<noteq> i) ms) s k = outstanding ms s k"
    using assms by (induction ms) (auto simp: outstanding_def)
  then show ?thesis by (simp add: committed_def)
qed

lemma enqueue_committed:
  assumes "\<forall>m\<in>set ns. \<not> booked s (ident m)"
  shows "committed (ms @ ns) s k = committed ms s k + sum_list (map (\<lambda>m. load m k) ns)"
proof -
  have "outstanding ns s k = sum_list (map (\<lambda>m. load m k) ns)"
    using assms by (induction ns) (auto simp: outstanding_def)
  then show ?thesis by (simp add: committed_def outstanding_def)
qed

lemma committed_empty: "\<forall>m\<in>set ms. booked s (ident m) \<Longrightarrow> committed ms s k = amount s k"
  by (simp add: committed_def outstanding_def sum_by_none)

end


section \<open>The endpoint keeps the contract\<close>

datatype direction = Upload | Download

fun delta_bytes :: "direction \<Rightarrow> traffic_delta \<Rightarrow> int" where
  "delta_bytes Upload = td_upload"
| "delta_bytes Download = td_download"

fun item_bytes :: "direction \<Rightarrow> batch_item_row \<Rightarrow> int" where
  "item_bytes Upload = bi_upload"
| "item_bytes Download = bi_download"

definition batch_load :: "traffic_batch \<Rightarrow> string \<times> direction \<Rightarrow> int" where
  "batch_load b k = sum_by (\<lambda>i. td_user_id i = fst k) (delta_bytes (snd k)) (tb_items b)"

definition booked_batch :: "db \<Rightarrow> string \<Rightarrow> bool" where
  "booked_batch d i \<longleftrightarrow> sql_exists (\<lambda>b. b_id b = i) (db_batches d)"

definition booked_traffic :: "string \<Rightarrow> db \<Rightarrow> string \<times> direction \<Rightarrow> int" where
  "booked_traffic nodeID d k =
     sum_by (\<lambda>i. bi_node_id i = nodeID \<and> bi_user_id i = fst k) (item_bytes (snd k)) (db_batch_items d)"

definition deliver_batch ::
  "env \<Rightarrow> agent_identity \<Rightarrow> exchange \<Rightarrow> traffic_batch \<Rightarrow> db \<Rightarrow> bool \<times> db" where
  "deliver_batch e identity x batch d =
     (let (reply, d1) = post_batch e identity x batch d in (reply_failure batch reply = None, d1))"

lemma ingest_item_log:
  assumes "ingest_item identity bid now item s = Inr s'"
  shows "\<exists>disp. db_batch_items (snd s') = db_batch_items (snd s) @ [item_row (ai_node_id identity) bid disp item]"
proof -
  obtain un d where s: "s = (un, d)" by (cases s)
  let ?row = "item_row (ai_node_id identity) bid (classifyTrafficItemTx (ai_node_id identity) (td_user_id item) d) item"
  have "db_batch_items (snd s') = db_batch_items (log_item ?row d)"
    using assms by (auto simp: s ingest_item_def Let_def rbind_Inr_conv insert_batch_item_Inr item_row_def log_item_def
      addAccountedTrafficTx_def update_users_def update_assignments_def split: if_splits option.splits)
  then show ?thesis by (auto simp: s log_item_def)
qed

lemma ingest_items_log:
  assumes "rfold (ingest_item identity bid now) items s = Inr s'"
  shows "\<exists>rows. db_batch_items (snd s') = db_batch_items (snd s) @ rows \<and>
    list_all2 (\<lambda>r i. \<exists>disp. r = item_row (ai_node_id identity) bid disp i) rows items"
  using assms
proof (induction items arbitrary: s)
  case Nil
  then show ?case by simp
next
  case (Cons i items)
  then obtain s1 where s1: "ingest_item identity bid now i s = Inr s1" "rfold (ingest_item identity bid now) items s1 = Inr s'"
    by (auto simp: rbind_Inr_conv)
  from ingest_item_log [OF s1(1)] obtain disp where
    a: "db_batch_items (snd s1) = db_batch_items (snd s) @ [item_row (ai_node_id identity) bid disp i]" by blast
  from Cons.IH [OF s1(2)] obtain rows where
    b: "db_batch_items (snd s') = db_batch_items (snd s1) @ rows"
      "list_all2 (\<lambda>r i. \<exists>disp. r = item_row (ai_node_id identity) bid disp i) rows items" by blast
  show ?case using a b by (intro exI [of _ "item_row (ai_node_id identity) bid disp i # rows"]) auto
qed

lemma addNodeTrafficTx_items: "addNodeTrafficTx i up down un s now d = Inr d' \<Longrightarrow> db_batch_items d' = db_batch_items d"
  by (auto simp: addNodeTrafficTx_def Let_def rbind_Inr_conv update_nodes_def split: option.splits if_splits)

lemma insert_batch_items: "insert_batch r d = Inr d' \<Longrightarrow> db_batch_items d' = db_batch_items d"
  by (auto simp: insert_batch_def split: if_splits option.splits)

lemma ingest_body_log:
  assumes "ingest_body e identity batch now d = Inr d'"
  shows "\<exists>rows. db_batch_items d' = db_batch_items d @ rows \<and>
    list_all2 (\<lambda>r i. \<exists>disp. r = item_row (ai_node_id identity) (tb_id batch) disp i) rows (tb_items batch)"
proof -
  from assms obtain ut dt un d1 d2 d3 ch d4 prior states where
    ib: "insert_batch (batch_row_of e identity batch ut dt now) d = Inr d1"
    and it: "rfold (ingest_item identity (tb_id batch) now) (tb_items batch) (0, d1) = Inr (un, d2)"
    and nt: "addNodeTrafficTx (ai_node_id identity) ut dt un (tb_sampled_at batch) now d2 = Inr d3"
    and qc: "rfold (quota_change prior now) states ([], d3) = Inr (ch, d4)"
    and bc: "bumpChangedAssignmentsTx e ch now d4 = Inr d'"
    by (auto simp: ingest_body_def Let_def rbind_Inr_conv split: option.splits if_splits)
  have "db_batch_items d' = db_batch_items d4" using bumpChanged_ledger_view [OF bc] by (simp add: ledger_view_def)
  also have "\<dots> = db_batch_items d3" using quota_changes_frame [OF qc] by auto
  finally show ?thesis
    using ingest_items_log [OF it] insert_batch_items [OF ib] addNodeTrafficTx_items [OF nt] by simp
qed

lemma logged_bytes:
  assumes "list_all2 (\<lambda>r i. \<exists>disp. r = item_row n bid disp i) rows items"
  shows "sum_by (\<lambda>i. bi_node_id i = m \<and> bi_user_id i = u) (item_bytes dir) rows =
    (if m = n then sum_by (\<lambda>i. td_user_id i = u) (delta_bytes dir) items else 0)"
  using assms
proof (induction rule: list_all2_induct)
  case Nil
  show ?case by simp
next
  case (Cons r rows i items)
  then show ?case by (cases dir) (auto simp: item_row_def)
qed

lemma ingest_body_booked:
  assumes "ingest_body e identity batch now d = Inr d'"
  shows "\<not> booked_batch d (tb_id batch)" and "booked_batch d' i \<longleftrightarrow> booked_batch d i \<or> i = tb_id batch"
    and "booked_traffic n d' k = booked_traffic n d k + (if n = ai_node_id identity then batch_load batch k else 0)"
proof -
  from ingest_body_batches [OF assms] show "\<not> booked_batch d (tb_id batch)"
    and "booked_batch d' i \<longleftrightarrow> booked_batch d i \<or> i = tb_id batch"
    by (auto simp: booked_batch_def sql_exists_iff)
  from ingest_body_log [OF assms] obtain rows where rows: "db_batch_items d' = db_batch_items d @ rows"
    and l: "list_all2 (\<lambda>r i. \<exists>disp. r = item_row (ai_node_id identity) (tb_id batch) disp i) rows (tb_items batch)" by blast
  show "booked_traffic n d' k = booked_traffic n d k + (if n = ai_node_id identity then batch_load batch k else 0)"
    by (simp add: booked_traffic_def batch_load_def rows logged_bytes [OF l])
qed

lemma IngestTrafficBatch_booked:
  assumes "IngestTrafficBatch e identity batch now d = (r, d')"
  shows "d' = d \<or> \<not> booked_batch d (tb_id batch) \<and> (\<forall>i. booked_batch d' i \<longleftrightarrow> booked_batch d i \<or> i = tb_id batch) \<and>
      (\<forall>n k. booked_traffic n d' k = booked_traffic n d k + (if n = ai_node_id identity then batch_load batch k else 0))"
    and "r = Inr (''accepted'', c) \<or> r = Inr (''duplicate'', c) \<Longrightarrow> booked_batch d' (tb_id batch)"
proof -
  note cs = IngestTrafficBatch_cases [OF assms]
  then show "d' = d \<or> \<not> booked_batch d (tb_id batch) \<and> (\<forall>i. booked_batch d' i \<longleftrightarrow> booked_batch d i \<or> i = tb_id batch) \<and>
      (\<forall>n k. booked_traffic n d' k = booked_traffic n d k + (if n = ai_node_id identity then batch_load batch k else 0))"
    by (elim disjE conjE) (simp_all add: ingest_body_booked)
  assume "r = Inr (''accepted'', c) \<or> r = Inr (''duplicate'', c)"
  then show "booked_batch d' (tb_id batch)"
  proof
    assume "r = Inr (''accepted'', c)"
    with cs ingest_body_booked show ?thesis by blast
  next
    assume r: "r = Inr (''duplicate'', c)"
    then have d': "d' = d" using cs by auto
    have "ingest_body e identity batch now d = Inl (Stopped ''duplicate'' c)"
      using assms r by (auto simp: IngestTrafficBatch_def split: sum.splits ingest_stop.splits if_splits)
    then have "sql_first (\<lambda>b. b_id b = tb_id batch) (db_batches d) \<noteq> None"
      by (auto simp: ingest_body_def Let_def rbind_Inl_conv failing_Inl split: option.splits if_splits prod.splits
          dest: ingest_items_Stopped)
    then show ?thesis by (auto simp: d' booked_batch_def sql_exists_iff sql_first_None)
  qed
qed

text \<open>One batch in one request.\<close>

lemma handle_one:
  assumes "handleAgentTrafficBatches e identity now [batch] d = (reply, d')"
  obtains code where "code \<noteq> ''''" "d' = d" "reply = Results [\<lparr> br_id = tb_id batch, br_status = ''rejected'', br_error_code = code \<rparr>]"
  | err where "IngestTrafficBatch e identity batch now d = (Inl err, d')" "reply = Refused 500 ''traffic_ingest_failed''"
  | st code where "IngestTrafficBatch e identity batch now d = (Inr (st, code), d')"
      "reply = Results [\<lparr> br_id = tb_id batch, br_status = st, br_error_code = code \<rparr>]"
  using assms by (auto simp: handleAgentTrafficBatches_def maxTrafficBatchesPerRequest_def Let_def
      split: if_splits sum.splits prod.splits)

lemma post_batch_booked:
  assumes "post_batch e identity x batch d = (reply, d')"
  shows "d' = d \<or> \<not> booked_batch d (tb_id batch) \<and> (\<forall>i. booked_batch d' i \<longleftrightarrow> booked_batch d i \<or> i = tb_id batch) \<and>
      (\<forall>n k. booked_traffic n d' k = booked_traffic n d k + (if n = ai_node_id identity then batch_load batch k else 0))"
    and "reply_failure batch reply = None \<Longrightarrow> booked_batch d' (tb_id batch)"
proof -
  obtain hr hd where h: "handleAgentTrafficBatches e identity (xc_server_now x) [batch] d = (hr, hd)"
    by (cases "handleAgentTrafficBatches e identity (xc_server_now x) [batch] d")
  have x: "d' = d \<and> reply = None \<or> d' = hd \<and> (reply = None \<or> (\<exists>rs. hr = Results rs \<and> reply = Some rs))"
    using assms h by (auto simp: post_batch_def split: transmission.splits traffic_reply.splits)
  show "d' = d \<or> \<not> booked_batch d (tb_id batch) \<and> (\<forall>i. booked_batch d' i \<longleftrightarrow> booked_batch d i \<or> i = tb_id batch) \<and>
      (\<forall>n k. booked_traffic n d' k = booked_traffic n d k + (if n = ai_node_id identity then batch_load batch k else 0))"
    using h by (rule handle_one) (use x IngestTrafficBatch_booked(1) in blast)+
  assume s: "reply_failure batch reply = None"
  with x have r: "d' = hd" "\<exists>rs. hr = Results rs \<and> reply = Some rs" by (auto simp: reply_failure_def)
  from h show "booked_batch d' (tb_id batch)"
  proof (rule handle_one)
    fix st code
    assume i: "IngestTrafficBatch e identity batch (xc_server_now x) d = (Inr (st, code), hd)"
      and hr: "hr = Results [\<lparr> br_id = tb_id batch, br_status = st, br_error_code = code \<rparr>]"
    from r hr s have "st = ''accepted'' \<or> st = ''duplicate''" by (auto simp: reply_failure_def split: if_splits)
    with IngestTrafficBatch_booked(2) [OF i, of code] r(1) show ?thesis by blast
  qed (use r s in \<open>auto simp: reply_failure_def\<close>)
qed

interpretation upload: reliable_outbox "deliver_batch e identity x" tb_id booked_batch
    "booked_traffic (ai_node_id identity)" batch_load for e identity x
proof
  fix b d d'
  assume "deliver_batch e identity x b d = (True, d')"
  then show "booked_batch d' (tb_id b)"
    by (auto simp: deliver_batch_def split: prod.splits dest: post_batch_booked(2))
next
  fix b d r d'
  assume "deliver_batch e identity x b d = (r, d')"
  then obtain reply where "post_batch e identity x b d = (reply, d')"
    by (auto simp: deliver_batch_def split: prod.splits)
  from post_batch_booked(1) [OF this]
  show "d' = d \<or> \<not> booked_batch d (tb_id b) \<and> (\<forall>i. booked_batch d' i \<longleftrightarrow> booked_batch d i \<or> i = tb_id b) \<and>
      (\<forall>k. booked_traffic (ai_node_id identity) d' k = booked_traffic (ai_node_id identity) d k + batch_load b k)"
    by auto
qed


section \<open>The agent and the controller refine a meter\<close>

definition waiting :: "local_db \<Rightarrow> traffic_batch list" where
  "waiting l = map ox_payload (ls_outbox l)"

text \<open>The traffic of a node that is accounted for: booked by the controller, or waiting in the
  agent's outbox without having been booked.\<close>

definition metered :: "string \<Rightarrow> traffic_batch list \<Rightarrow> db \<Rightarrow> string \<times> direction \<Rightarrow> int" where
  "metered nodeID ms d k =
     booked_traffic nodeID d k + sum_by (\<lambda>b. \<not> booked_batch d (tb_id b)) (\<lambda>b. batch_load b k) ms"

lemma metered_committed: "metered (ai_node_id identity) ms d k = upload.committed identity ms d k"
  by (simp add: metered_def upload.committed_def upload.outstanding_def)

lemma outbox_failure_fields [simp]:
  "ox_id (outbox_failure_row c now r) = ox_id r" "oskey (outbox_failure_row c now r) = oskey r"
  "ox_ordinal (outbox_failure_row c now r) = ox_ordinal r" "ox_payload (outbox_failure_row c now r) = ox_payload r"
  "outbox_row_ok (outbox_failure_row c now r) = outbox_row_ok r"
  by (simp_all add: outbox_failure_row_def oskey_def outbox_row_ok_def)

lemma waiting_failure [simp]: "waiting (recordTrafficFailure i c now l) = waiting l"
  by (simp add: waiting_def recordTrafficFailure_def sql_update_def comp_def)

lemma outbox_ok_failure: "outbox_ok l \<Longrightarrow> outbox_ok (recordTrafficFailure i c now l)"
  by (auto simp: outbox_ok_def recordTrafficFailure_def sql_update_def unique_by_def comp_def if_distrib
      cong: if_cong split: if_splits)

lemma waiting_delete:
  "outbox_ok l \<Longrightarrow> waiting (deleteTrafficOutbox i l) = filter (\<lambda>b. tb_id b \<noteq> i) (waiting l)"
  by (auto simp: waiting_def deleteTrafficOutbox_def sql_delete_def filter_map comp_def outbox_ok_def outbox_row_ok_def
      intro!: arg_cong [of _ _ "map ox_payload"] filter_cong)

lemma outbox_ok_delete: "outbox_ok l \<Longrightarrow> outbox_ok (deleteTrafficOutbox i l)"
  by (auto simp: outbox_ok_def deleteTrafficOutbox_def sql_delete_def unique_by_def distinct_map_filter
      intro: sorted_filter)

lemma waiting_unique: "outbox_ok l \<Longrightarrow> unique_by tb_id (waiting l)"
proof -
  assume ok: "outbox_ok l"
  then have "map tb_id (waiting l) = map ox_id (ls_outbox l)"
    by (simp add: waiting_def outbox_ok_def outbox_row_ok_def)
  with ok show ?thesis by (simp add: unique_by_def outbox_ok_def)
qed

lemma listTrafficOutbox_waiting: "outbox_ok l \<Longrightarrow> listTrafficOutbox 20 l = take 20 (waiting l)"
  by (simp add: listTrafficOutbox_def waiting_def outbox_ok_def sort_key_id_if_sorted take_map)

lemma flush_loop_metered:
  assumes "flush_loop e identity xs bs l d = (r, l', d')" and "outbox_ok l"
    and "unique_by tb_id bs" and "set bs \<subseteq> set (waiting l)"
  shows "outbox_ok l' \<and> ls_baselines l' = ls_baselines l \<and>
    metered (ai_node_id identity) (waiting l') d' k = metered (ai_node_id identity) (waiting l) d k \<and>
    (\<forall>i. booked_batch d i \<longrightarrow> booked_batch d' i) \<and>
    (r = Inr () \<longrightarrow> waiting l' = filter (\<lambda>b. tb_id b \<notin> tb_id ` set bs) (waiting l) \<and>
       (\<forall>b\<in>set bs. booked_batch d' (tb_id b)))"
  using assms
proof (induction bs arbitrary: xs l d)
  case Nil
  then show ?case by simp
next
  case (Cons b bs)
  obtain x xs' where x: "(case xs of [] \<Rightarrow> (\<lparr> xc_outcome = RequestLost, xc_server_now = 0, xc_agent_now = 0 \<rparr>, [])
      | x # xs' \<Rightarrow> (x, xs')) = (x, xs')" by (cases xs) auto
  obtain reply d1 where p: "post_batch e identity x b d = (reply, d1)" by (cases "post_batch e identity x b d")
  have del: "deliver_batch e identity x b d = (reply_failure b reply = None, d1)"
    by (simp add: deliver_batch_def p)
  have bw: "b \<in> set (waiting l)" using Cons.prems(4) by simp
  have m: "metered (ai_node_id identity) (waiting l) d1 k = metered (ai_node_id identity) (waiting l) d k"
    unfolding metered_committed by (rule upload.deliver_committed [OF del waiting_unique [OF Cons.prems(2)] bw])
  have mono: "booked_batch d i \<Longrightarrow> booked_batch d1 i" for i using post_batch_booked(1) [OF p] by blast
  show ?case
  proof (cases "reply_failure b reply")
    case (Some code)
    with Cons.prems(1) x p have "r = Inl code" "l' = recordTrafficFailure (tb_id b) code (xc_agent_now x) l" "d' = d1"
      by (auto split: prod.splits)
    with m mono Cons.prems(2) show ?thesis by (simp add: outbox_ok_failure) (simp add: recordTrafficFailure_def)
  next
    case None
    let ?l = "deleteTrafficOutbox (tb_id b) l"
    have r: "flush_loop e identity xs' bs ?l d1 = (r, l', d')" using Cons.prems(1) x p None by simp
    have bk: "booked_batch d1 (tb_id b)" using post_batch_booked(2) [OF p] None by simp
    note ok = outbox_ok_delete [OF Cons.prems(2), of "tb_id b"] and w = waiting_delete [OF Cons.prems(2), of "tb_id b"]
    have u: "unique_by tb_id bs" "\<forall>y\<in>set bs. tb_id y \<noteq> tb_id b"
      using Cons.prems(3) by (auto simp: unique_by_def image_iff)
    then have sub: "set bs \<subseteq> set (waiting ?l)" using Cons.prems(4) by (auto simp: w)
    have "metered (ai_node_id identity) (waiting ?l) d1 k = metered (ai_node_id identity) (waiting l) d1 k"
      unfolding metered_committed w by (rule upload.remove_settled [OF bk])
    moreover have "ls_baselines ?l = ls_baselines l" by (simp add: deleteTrafficOutbox_def)
    moreover note Cons.IH [OF r ok u(1) sub]
    ultimately show ?thesis using m bk mono by (auto simp: w conj_commute intro!: filter_cong)
  qed
qed

lemma flush_metered:
  assumes "flushTrafficOutbox e identity xs l d = (r, l', d')" and "outbox_ok l"
  shows "outbox_ok l'" and "ls_baselines l' = ls_baselines l"
    and "metered (ai_node_id identity) (waiting l') d' k = metered (ai_node_id identity) (waiting l) d k"
    and "\<forall>i. booked_batch d i \<longrightarrow> booked_batch d' i"
    and "r = Inr () \<Longrightarrow> waiting l' = drop 20 (waiting l) \<and> (\<forall>b\<in>set (take 20 (waiting l)). booked_batch d' (tb_id b))"
proof -
  let ?w = "waiting l"
  have f: "flush_loop e identity xs (take 20 ?w) l d = (r, l', d')"
    using assms by (simp add: flushTrafficOutbox_def listTrafficOutbox_waiting)
  have u: "unique_by tb_id ?w" by (rule waiting_unique [OF assms(2)])
  then have "unique_by tb_id (take 20 ?w)" by (simp add: unique_by_def take_map [symmetric] distinct_take)
  note fl = flush_loop_metered [OF f assms(2) this set_take_subset]
  show "outbox_ok l'" "ls_baselines l' = ls_baselines l"
    "metered (ai_node_id identity) (waiting l') d' k = metered (ai_node_id identity) ?w d k"
    "\<forall>i. booked_batch d i \<longrightarrow> booked_batch d' i" using fl by blast+
  have rest: "filter (\<lambda>b. tb_id b \<notin> tb_id ` set xs) ws = drop n ws"
    if "xs = take n ws" "unique_by tb_id ws" for n xs and ws :: "traffic_batch list"
  proof -
    have "unique_by tb_id (take n ws @ drop n ws)" using that(2) by simp
    then have "\<forall>b\<in>set (drop n ws). tb_id b \<notin> tb_id ` set (take n ws)"
      unfolding unique_by_def map_append distinct_append by fastforce
    then have "filter (\<lambda>b. tb_id b \<notin> tb_id ` set (take n ws)) (take n ws @ drop n ws) = drop n ws"
      unfolding filter_append by (auto simp: filter_empty_conv filter_id_conv)
    with that(1) show ?thesis by simp
  qed
  show "r = Inr () \<Longrightarrow> waiting l' = drop 20 ?w \<and> (\<forall>b\<in>set (take 20 ?w). booked_batch d' (tb_id b))"
    using fl rest [OF refl u, of 20] by simp
qed


text \<open>The abstract meter: a total per user and direction, and the counters seen last.  An
  observation adds the growth of every counter; a counter that went backwards counts from zero.\<close>

record meter =
  mt_total :: "string \<times> direction \<Rightarrow> int"
  mt_last :: "string \<Rightarrow> (int \<times> int) option"

datatype meter_event = Primed counter_map | Restarted | Observed counter_map

fun growth :: "traffic_counters \<Rightarrow> (int \<times> int) option \<Rightarrow> direction \<Rightarrow> int" where
  "growth c None Upload = tc_tx c"
| "growth c None Download = tc_rx c"
| "growth c (Some (tx, rx)) dir =
     (if tc_tx c < tx \<or> tc_rx c < rx then growth c None dir
      else growth c None dir - (case dir of Upload \<Rightarrow> tx | Download \<Rightarrow> rx))"

definition seen_last :: "counter_map \<Rightarrow> (string \<Rightarrow> (int \<times> int) option) \<Rightarrow> string \<Rightarrow> (int \<times> int) option" where
  "seen_last counters lst u =
     (if u \<in> fst ` set counters then Some (tc_tx (counters_of counters u), tc_rx (counters_of counters u)) else lst u)"

fun meter_apply :: "meter_event \<Rightarrow> meter \<Rightarrow> meter" where
  "meter_apply (Primed counters) m = m\<lparr>mt_last := seen_last counters (mt_last m)\<rparr>"
| "meter_apply Restarted m = m\<lparr>mt_last := \<lambda>_. None\<rparr>"
| "meter_apply (Observed counters) m =
     m\<lparr>mt_total := \<lambda>(u, dir). mt_total m (u, dir) +
          (if u \<in> fst ` set counters then growth (counters_of counters u) (mt_last m u) dir else 0),
       mt_last := seen_last counters (mt_last m)\<rparr>"

definition meter_of :: "string \<Rightarrow> local_db \<times> db \<Rightarrow> meter" where
  "meter_of nodeID s = \<lparr> mt_total = metered nodeID (waiting (fst s)) (snd s), mt_last = baseline_of (fst s) \<rparr>"

definition sample_events :: "string list \<Rightarrow> counter_map \<Rightarrow> local_db \<Rightarrow> meter_event list" where
  "sample_events epochs counters l =
     (let current = (case epochs of [] \<Rightarrow> '''' | c # _ \<Rightarrow> c) in
      if \<not> ls_initialized l then [Primed counters]
      else if current \<noteq> '''' \<and> ls_counter_epoch l \<noteq> current then [Restarted, Observed counters]
      else [Observed counters])"

text \<open>The steps of one agent and the controller, labelled with what the meter sees: samples, uploads
  over a network that may lose messages, and deliveries of other nodes.  The only assumption on
  identifiers is that a new batch does not reuse one the controller knows.\<close>

inductive metering_step ::
  "env \<Rightarrow> agent_identity \<Rightarrow> local_db \<times> db \<Rightarrow> meter_event list \<Rightarrow> local_db \<times> db \<Rightarrow> bool" for e identity where
  sampled: "recordTrafficSample e inst counters at epochs created l = (Inr bs, l') \<Longrightarrow> counters_in_range counters \<Longrightarrow>
    \<forall>b\<in>set bs. \<not> booked_batch d (tb_id b) \<Longrightarrow>
    metering_step e identity (l, d) (sample_events epochs counters l) (l', d)"
| sample_failed: "recordTrafficSample e inst counters at epochs created l = (Inl err, l') \<Longrightarrow>
    metering_step e identity (l, d) [] (l', d)"
| flushed: "flushTrafficOutbox e identity xs l d = (r, l', d') \<Longrightarrow> metering_step e identity (l, d) [] (l', d')"
| elsewhere: "IngestTrafficBatch e other b now d = (r, d') \<Longrightarrow> ai_node_id other \<noteq> ai_node_id identity \<Longrightarrow>
    \<forall>m\<in>set (waiting l). tb_id m \<noteq> tb_id b \<Longrightarrow> metering_step e identity (l, d) [] (l, d')"

inductive metering_run ::
  "env \<Rightarrow> agent_identity \<Rightarrow> local_db \<times> db \<Rightarrow> meter_event list \<Rightarrow> local_db \<times> db \<Rightarrow> bool" for e identity where
  start: "metering_run e identity s [] s"
| step: "metering_run e identity s evs t \<Longrightarrow> metering_step e identity t evs' u \<Longrightarrow> metering_run e identity s (evs @ evs') u"

lemma sampled_delta_growth: "delta_bytes dir (sampled_delta counters l u) = growth (counters_of counters u) (baseline_of l u) dir"
  by (cases dir; cases "baseline_of l u") (auto simp: sampled_delta_def Let_def)

lemma sum_by_concat: "sum_list (map (\<lambda>b. sum_by p f (g b)) bs) = sum_by p f (concat (map g bs))"
  by (induction bs) auto

lemma sum_by_sampled:
  assumes "distinct us"
  shows "sum_by (\<lambda>i. td_user_id i = u) (delta_bytes dir) (filter has_traffic (map (sampled_delta counters l) us)) =
    (if u \<in> set us then delta_bytes dir (sampled_delta counters l u) else 0)"
  using assms
proof (induction us)
  case Nil
  show ?case by simp
next
  case (Cons v us)
  have "\<not> has_traffic (sampled_delta counters l v) \<Longrightarrow> delta_bytes dir (sampled_delta counters l v) = 0"
    by (cases dir) (auto simp: has_traffic_def)
  with Cons show ?case by auto
qed

lemma batch_loads:
  assumes "concat (map tb_items bs) = filter has_traffic (map (sampled_delta counters l) (sort (map fst counters)))"
    and "counters_in_range counters"
  shows "sum_list (map (\<lambda>b. batch_load b (u, dir)) bs) =
    (if u \<in> fst ` set counters then growth (counters_of counters u) (baseline_of l u) dir else 0)"
proof -
  have "distinct (sort (map fst counters))" using assms(2) by (simp add: counters_in_range_def)
  from sum_by_sampled [OF this, of u dir counters l] show ?thesis
    by (simp add: batch_load_def sum_by_concat assms(1) sampled_delta_growth)
qed

lemma store_baselines:
  assumes "rfold (\<lambda>u. store_baseline u (counters_of counters u) at) us l = Inr l'"
    and "baselines_ok l" and "counters_in_range counters"
  shows "baselines_ok l' \<and> (\<exists>t. l' = l\<lparr>ls_baselines := t\<rparr>) \<and>
    (\<forall>u. baseline_of l' u = (if u \<in> set us then Some (tc_tx (counters_of counters u), tc_rx (counters_of counters u))
       else baseline_of l u))"
  using assms
proof (induction us arbitrary: l)
  case Nil
  then show ?case by (auto intro: exI [of _ "ls_baselines l"])
next
  case (Cons u us)
  then obtain l1 where l1: "store_baseline u (counters_of counters u) at l = Inr l1"
    "rfold (\<lambda>u. store_baseline u (counters_of counters u) at) us l1 = Inr l'" by (auto simp: rbind_Inr_conv)
  from l1(1) Cons.prems(2) counters_of_range [OF Cons.prems(3), of u] obtain t where
    t: "l1 = l\<lparr>ls_baselines := t\<rparr>" "baselines_ok l1"
    "\<And>v. baseline_of l1 v = (if v = u then Some (tc_tx (counters_of counters u), tc_rx (counters_of counters u)) else baseline_of l v)"
    by (elim store_baseline_Inr) blast
  from Cons.IH [OF l1(2) t(2) Cons.prems(3)] t(1,3) show ?case by auto
qed

lemma waiting_cong: "map ox_payload (ls_outbox l') = map ox_payload (ls_outbox l) \<Longrightarrow> waiting l' = waiting l"
  by (simp add: waiting_def)

lemma baseline_cong: "ls_baselines l' = ls_baselines l \<Longrightarrow> baseline_of l' = baseline_of l"
  by (simp add: baseline_of_def find_baseline_def fun_eq_iff)

lemma primed_meter:
  assumes "record_sample_body e inst counters at epochs created l = Inr (bs, l')" and "\<not> ls_initialized l"
    and "sampler_ok l" and "counters_in_range counters"
  shows "sampler_ok l' \<and> waiting l' = waiting l \<and> baseline_of l' = seen_last counters (baseline_of l)"
proof -
  from assms(1,2) obtain l1 l2 where o: "observe_counter_epoch e epochs l = Inr l1"
    and r: "rfold (\<lambda>u. store_baseline u (counters_of counters u) at) (sort (map fst counters)) l1 = Inr l2"
    and l': "l' = l2\<lparr>ls_initialized := True\<rparr>"
    by (auto simp: record_sample_body_def Let_def rbind_Inr_conv)
  note ob = observe_counter_epoch_Inr [OF o]
  have b1: "baselines_ok l1" and o1: "outbox_ok l1" using ob(5,6) assms(3) unfolding sampler_ok_def by blast+
  from store_baselines [OF r b1 assms(4)] obtain t where
    t: "baselines_ok l2" "l2 = l1\<lparr>ls_baselines := t\<rparr>"
    "\<And>u. baseline_of l2 u = (if u \<in> fst ` set counters
        then Some (tc_tx (counters_of counters u), tc_rx (counters_of counters u)) else baseline_of l1 u)" by auto
  have "baseline_of l1 = baseline_of l" using ob(4) assms(2) by (intro baseline_cong) auto
  moreover have "baseline_of l' = baseline_of l2" by (rule baseline_cong) (simp add: l')
  ultimately have "baseline_of l' = seen_last counters (baseline_of l)"
    using t(3) by (simp add: seen_last_def fun_eq_iff)
  moreover have "sampler_ok l'" using t(1,2) o1 by (simp add: sampler_ok_def baselines_ok_def outbox_ok_def l')
  moreover have "waiting l' = waiting l" using t(2) ob(1) by (simp add: waiting_def l')
  ultimately show ?thesis by blast
qed

lemma observed_baselines:
  assumes "observe_counter_epoch e epochs l = Inr l1" and "ls_initialized l"
  shows "\<exists>evs. sample_events epochs counters l = evs @ [Observed counters] \<and>
      (evs = [] \<and> baseline_of l1 = baseline_of l \<or> evs = [Restarted] \<and> baseline_of l1 = (\<lambda>_. None))"
  using assms
  by (auto simp: observe_counter_epoch_def sample_events_def Let_def local_id_def baseline_of_def find_baseline_def
        split: if_splits)


lemma metering_step_refines:
  assumes "metering_step e identity s evs t" and "sampler_ok (fst s)"
  shows "sampler_ok (fst t) \<and> meter_of (ai_node_id identity) t = fold meter_apply evs (meter_of (ai_node_id identity) s)"
  using assms
proof (induction rule: metering_step.induct)
  case (sampled inst counters at epochs created l bs l' d)
  let ?n = "ai_node_id identity"
  have body: "record_sample_body e inst counters at epochs created l = Inr (bs, l')"
    using sampled.hyps(1) by (simp add: recordTrafficSample_def transact_commit)
  have ok: "sampler_ok l" using sampled.prems by simp
  show ?case
  proof (cases "ls_initialized l")
    case False
    note p = primed_meter [OF body False ok sampled.hyps(2)]
    with False show ?thesis by (simp add: sample_events_def meter_of_def)
  next
    case True
    obtain l1 where o: "observe_counter_epoch e epochs l = Inr l1"
      using body by (auto simp: record_sample_body_def rbind_Inr_conv)
    note r = record_sample_Inr [OF body o True ok sampled.hyps(2)]
    obtain evs where evs: "sample_events epochs counters l = evs @ [Observed counters]"
      and b1: "evs = [] \<and> baseline_of l1 = baseline_of l \<or> evs = [Restarted] \<and> baseline_of l1 = (\<lambda>_. None)"
      using observed_baselines [OF o True] by blast
    have pre: "fold meter_apply evs (meter_of ?n (l, d)) = \<lparr> mt_total = metered ?n (waiting l) d, mt_last = baseline_of l1 \<rparr>"
      using b1 by (auto simp: meter_of_def)
    have "waiting l' = waiting l @ bs" using r(4) by (simp add: waiting_def)
    then have tot: "metered ?n (waiting l') d (u, dir) = metered ?n (waiting l) d (u, dir) +
        (if u \<in> fst ` set counters then growth (counters_of counters u) (baseline_of l1 u) dir else 0)" for u dir
      using upload.enqueue_committed [OF sampled.hyps(3), of identity "waiting l" "(u, dir)"]
      by (simp add: metered_committed batch_loads [OF r(2) sampled.hyps(2)])
    have lst: "baseline_of l' = seen_last counters (baseline_of l1)"
      using r(7) by (simp add: seen_last_def fun_eq_iff)
    have "meter_of ?n (l', d) = meter_apply (Observed counters) (fold meter_apply evs (meter_of ?n (l, d)))"
      unfolding pre by (simp add: meter_of_def lst fun_eq_iff tot)
    with r(1) show ?thesis by (simp add: evs)
  qed
next
  case (sample_failed inst counters at epochs created l err l' d)
  then have "l' = l" by (auto simp: recordTrafficSample_def dest: transact_rollback)
  with sample_failed.prems show ?case by simp
next
  case (flushed xs l d r l' d')
  have ok: "outbox_ok l" using flushed.prems by (simp add: sampler_ok_def)
  note f = flush_metered [OF flushed.hyps ok]
  have "metered (ai_node_id identity) (waiting l') d' = metered (ai_node_id identity) (waiting l) d"
    by (rule ext) (rule f(3))
  moreover have "sampler_ok l'" using flushed.prems f(1,2) by (simp add: sampler_ok_def baselines_ok_def)
  ultimately show ?case by (simp add: meter_of_def baseline_cong [OF f(2)])
next
  case (elsewhere other b now d r d' l)
  have "metered (ai_node_id identity) (waiting l) d' k = metered (ai_node_id identity) (waiting l) d k" for k
  proof -
    have same: "m \<in> set (waiting l) \<Longrightarrow> booked_batch d' (tb_id m) = booked_batch d (tb_id m)" for m
      using IngestTrafficBatch_booked(1) [OF elsewhere.hyps(1)] elsewhere.hyps(3) by auto
    have "booked_traffic (ai_node_id identity) d' k = booked_traffic (ai_node_id identity) d k"
      using IngestTrafficBatch_booked(1) [OF elsewhere.hyps(1)] elsewhere.hyps(2) by (cases k) auto
    with same show ?thesis by (simp add: metered_def sum_by_def cong: filter_cong)
  qed
  with elsewhere.prems show ?case by (simp add: meter_of_def fun_eq_iff)
qed

text \<open>C3: Metering is exact end to end.  Whatever the agent samples, whichever requests and replies
  the network loses, however often a batch is retried, and whatever other nodes deliver in between:
  the bytes the controller has booked for the node, together with those still waiting in the agent's
  outbox, are exactly what an abstract meter computes from the observed counters.  Uploads do not
  change the meter, so no byte is counted twice or dropped; when nothing is waiting the controller's
  log alone is the meter.\<close>

theorem metering_refinement:
  assumes "metering_run e identity s evs t" and "sampler_ok (fst s)"
  shows "sampler_ok (fst t) \<and>
    meter_of (ai_node_id identity) t = fold meter_apply evs (meter_of (ai_node_id identity) s) \<and>
    (waiting (fst t) = [] \<longrightarrow>
       booked_traffic (ai_node_id identity) (snd t) = mt_total (fold meter_apply evs (meter_of (ai_node_id identity) s)))"
proof -
  have r: "sampler_ok (fst t) \<and> meter_of (ai_node_id identity) t = fold meter_apply evs (meter_of (ai_node_id identity) s)"
    using assms
  proof (induction rule: metering_run.induct)
    case (start s)
    then show ?case by simp
  next
    case (step s evs t evs' u)
    then show ?case using metering_step_refines [OF step.hyps(2)] by simp
  qed
  have "booked_traffic (ai_node_id identity) (snd t) = mt_total (meter_of (ai_node_id identity) t)" if "waiting (fst t) = []"
    by (simp add: meter_of_def metered_def that fun_eq_iff)
  with r show ?thesis by simp
qed


text \<open>A run of the example fleet: a sample, an upload whose reply is lost, and a second upload.\<close>

definition sample_lossy :: exchange where
  "sample_lossy = \<lparr> xc_outcome = ReplyLost, xc_server_now = sample_now, xc_agent_now = sample_now \<rparr>"

definition sample_clear :: exchange where
  "sample_clear = \<lparr> xc_outcome = Delivered, xc_server_now = sample_now, xc_agent_now = sample_now \<rparr>"

definition sample_posted :: traffic_batch where
  "sample_posted = \<lparr> tb_id = ''idx'', tb_installation_id = ''inst1'', tb_source_epoch = ''id'', tb_sequence = 1,
     tb_sampled_at = sample_now,
     tb_items = [\<lparr> td_user_id = ''u1'', td_upload = 50, td_download = 0 \<rparr>,
                 \<lparr> td_user_id = ''u2'', td_upload = 10, td_download = 20 \<rparr>] \<rparr>"

definition sample_sampled :: local_db where
  "sample_sampled = snd (recordTrafficSample sample_env ''inst1'' sample_counters sample_now [] sample_now sample_local)"

definition sample_received :: db where
  "sample_received = snd (IngestTrafficBatch sample_env sample_identity sample_posted sample_now sample_db)"

lemma sample_sampled_result:
  "recordTrafficSample sample_env ''inst1'' sample_counters sample_now [] sample_now sample_local =
     (Inr [sample_posted], sample_sampled)"
  by code_simp

lemma sample_sampled_waiting: "listTrafficOutbox 20 sample_sampled = [sample_posted]" "waiting sample_sampled = [sample_posted]"
  by code_simp+

lemma sample_posted_valid: "validateTrafficBatch sample_env sample_posted sample_now = ''''"
  by code_simp

lemma sample_posted_accepted:
  "IngestTrafficBatch sample_env sample_identity sample_posted sample_now sample_db = (Inr (''accepted'', ''''), sample_received)"
proof -
  have "fst (IngestTrafficBatch sample_env sample_identity sample_posted sample_now sample_db) = Inr (''accepted'', '''')"
    by code_simp
  then show ?thesis by (simp add: prod_eq_iff sample_received_def)
qed

lemma sample_posted_duplicate:
  "IngestTrafficBatch sample_env sample_identity sample_posted sample_now sample_received = (Inr (''duplicate'', ''''), sample_received)"
proof -
  from IngestTrafficBatch_cases [OF sample_posted_accepted]
  have b: "ingest_body sample_env sample_identity sample_posted sample_now sample_db = Inr sample_received"
    and i: "tb_installation_id sample_posted = ai_installation_id sample_identity" by auto
  from accepted_recorded [OF b, of sample_received "[]"] i show ?thesis by (auto intro: duplicate_if_recorded)
qed

lemma sample_lossy_upload:
  "flushTrafficOutbox sample_env sample_identity [sample_lossy] sample_sampled sample_db =
     (Inl ''transport_error'', recordTrafficFailure ''idx'' ''transport_error'' sample_now sample_sampled, sample_received)"
  by (simp add: flushTrafficOutbox_def sample_sampled_waiting post_batch_def sample_lossy_def handleAgentTrafficBatches_def
      maxTrafficBatchesPerRequest_def sample_posted_valid sample_posted_accepted reply_failure_def Let_def)
    (simp add: sample_posted_def)

lemma sample_clear_upload:
  "flushTrafficOutbox sample_env sample_identity [sample_clear] sample_sampled sample_db =
     (Inr (), deleteTrafficOutbox ''idx'' sample_sampled, sample_received)"
  by (simp add: flushTrafficOutbox_def sample_sampled_waiting post_batch_def sample_clear_def handleAgentTrafficBatches_def
      maxTrafficBatchesPerRequest_def sample_posted_valid sample_posted_accepted reply_failure_def Let_def)
    (simp add: sample_posted_def)

lemma sample_again_upload:
  "flushTrafficOutbox sample_env sample_identity [sample_clear]
     (recordTrafficFailure ''idx'' ''transport_error'' sample_now sample_sampled) sample_received =
   (Inr (), deleteTrafficOutbox ''idx'' (recordTrafficFailure ''idx'' ''transport_error'' sample_now sample_sampled), sample_received)"
proof -
  have w: "listTrafficOutbox 20 (recordTrafficFailure ''idx'' ''transport_error'' sample_now sample_sampled) = [sample_posted]"
    by code_simp
  show ?thesis
    by (simp add: flushTrafficOutbox_def w post_batch_def sample_clear_def handleAgentTrafficBatches_def
        maxTrafficBatchesPerRequest_def sample_posted_valid sample_posted_duplicate reply_failure_def Let_def)
      (simp add: sample_posted_def)
qed

theorem metering_refinement_witness:
  "booked_traffic ''n1'' sample_received (''u1'', Upload) = 50 \<and> booked_traffic ''n1'' sample_received (''u2'', Download) = 20"
proof -
  let ?s0 = "(sample_local, sample_db)" and ?o = "[Observed sample_counters]"
  let ?l1 = "recordTrafficFailure ''idx'' ''transport_error'' sample_now sample_sampled"
  let ?l2 = "deleteTrafficOutbox ''idx'' ?l1"
  have "counters_in_range sample_counters" by code_simp
  moreover have "\<forall>b\<in>set [sample_posted]. \<not> booked_batch sample_db (tb_id b)" by code_simp
  moreover have "sample_events [] sample_counters sample_local = ?o" by code_simp
  ultimately have "metering_step sample_env sample_identity ?s0 ?o (sample_sampled, sample_db)"
    using metering_step.sampled [OF sample_sampled_result] by metis
  from metering_run.step [OF metering_run.start this]
  have r1: "metering_run sample_env sample_identity ?s0 ?o (sample_sampled, sample_db)" by simp
  from metering_run.step [OF this metering_step.flushed [OF sample_lossy_upload]]
  have r2: "metering_run sample_env sample_identity ?s0 ?o (?l1, sample_received)" by simp
  from metering_run.step [OF this metering_step.flushed [OF sample_again_upload]]
  have r3: "metering_run sample_env sample_identity ?s0 ?o (?l2, sample_received)" by simp
  have n: "ai_node_id sample_identity = ''n1''" by code_simp
  have ok: "sampler_ok (fst ?s0)" by code_simp
  have w: "waiting (fst (?l2, sample_received)) = []" by code_simp
  have g: "metered ''n1'' (waiting sample_local) sample_db (''u1'', Upload) = 0"
    "metered ''n1'' (waiting sample_local) sample_db (''u2'', Download) = 0"
    "growth (counters_of sample_counters ''u1'') (baseline_of sample_local ''u1'') Upload = 50"
    "growth (counters_of sample_counters ''u2'') (baseline_of sample_local ''u2'') Download = 20"
    "''u1'' \<in> fst ` set sample_counters" "''u2'' \<in> fst ` set sample_counters" by code_simp+
  from metering_refinement [OF r3 ok] w n
  have "booked_traffic ''n1'' sample_received = mt_total (meter_apply (Observed sample_counters) (meter_of ''n1'' ?s0))" by simp
  with g show ?thesis by (simp add: meter_of_def)
qed

section \<open>Draining the outbox\<close>

text \<open>Successive usage cycles, each with its own exchanges; a cycle that fails ends the run.\<close>

fun flush_rounds ::
  "env \<Rightarrow> agent_identity \<Rightarrow> exchange list list \<Rightarrow> local_db \<Rightarrow> db \<Rightarrow> (string + unit) \<times> local_db \<times> db" where
  "flush_rounds e identity [] l d = (Inr (), l, d)"
| "flush_rounds e identity (xs # rounds) l d =
     (case flushTrafficOutbox e identity xs l d of
        (Inl code, l', d') \<Rightarrow> (Inl code, l', d')
      | (Inr _, l', d') \<Rightarrow> flush_rounds e identity rounds l' d')"

lemma flush_rounds_Cons:
  "flush_rounds e identity (xs # rounds) l d = (Inr (), l', d') \<longleftrightarrow>
     (\<exists>l1 d1. flushTrafficOutbox e identity xs l d = (Inr (), l1, d1) \<and> flush_rounds e identity rounds l1 d1 = (Inr (), l', d'))"
  by (cases "flushTrafficOutbox e identity xs l d") (auto split: sum.splits)

text \<open>C40: The outbox drains in batches of 20 and in order: after k successful cycles exactly the first
  20 * k waiting batches are gone from the outbox, every one of them is in the controller's log,
  the rest keep their order, and what the controller had booked stays booked; so a backlog of
  n batches is empty after n / 20 cycles, rounded up.\<close>

theorem outbox_drains:
  assumes "flush_rounds e identity rounds l d = (Inr (), l', d')" and "outbox_ok l"
  shows "outbox_ok l' \<and> (\<forall>i. booked_batch d i \<longrightarrow> booked_batch d' i) \<and>
    waiting l' = drop (20 * length rounds) (waiting l) \<and>
    (\<forall>b\<in>set (take (20 * length rounds) (waiting l)). booked_batch d' (tb_id b)) \<and>
    (length (waiting l) \<le> 20 * length rounds \<longrightarrow> waiting l' = [])"
  using assms
proof (induction rounds arbitrary: l d)
  case (Cons xs rounds)
  from Cons.prems(1) obtain l1 d1 where f: "flushTrafficOutbox e identity xs l d = (Inr (), l1, d1)"
    and r: "flush_rounds e identity rounds l1 d1 = (Inr (), l', d')" unfolding flush_rounds_Cons by blast
  note one = flush_metered(1,4,5) [OF f Cons.prems(2)]
  let ?k = "20 * length rounds"
  from one have w1: "waiting l1 = drop 20 (waiting l)" and b1: "\<forall>b\<in>set (take 20 (waiting l)). booked_batch d1 (tb_id b)"
    by simp_all
  from Cons.IH [OF r one(1)] have ih: "outbox_ok l'" "\<forall>i. booked_batch d1 i \<longrightarrow> booked_batch d' i"
    "waiting l' = drop ?k (waiting l1)" "\<forall>b\<in>set (take ?k (waiting l1)). booked_batch d' (tb_id b)" by simp_all
  have "take (20 + ?k) (waiting l) = take 20 (waiting l) @ take ?k (drop 20 (waiting l))" by (rule take_add)
  with ih b1 w1 have "\<forall>b\<in>set (take (20 * length (xs # rounds)) (waiting l)). booked_batch d' (tb_id b)" by auto
  moreover have "waiting l' = drop (20 * length (xs # rounds)) (waiting l)" using ih(3) w1 by (simp add: add.commute)
  ultimately show ?case using ih(1,2) one(2) by auto
qed simp

theorem outbox_drains_witness:
  "waiting (deleteTrafficOutbox ''idx'' sample_sampled) = [] \<and> booked_batch sample_received ''idx''"
proof -
  have ok: "outbox_ok sample_sampled" by code_simp
  have id: "tb_id sample_posted = ''idx''" by (simp add: sample_posted_def)
  have "flush_rounds sample_env sample_identity [[sample_clear]] sample_sampled sample_db =
      (Inr (), deleteTrafficOutbox ''idx'' sample_sampled, sample_received)"
    by (simp add: sample_clear_upload)
  from outbox_drains [OF this ok] show ?thesis by (simp add: sample_sampled_waiting id)
qed

end
