(* ===== verification/Auth_Cache.thy ===== *)
theory Auth_Cache
  imports Desired_State Go_Strings Base64 Sample
begin

text \<open>
  The agent's authentication of Hysteria 2 clients (internal/agent/auth\_cache.go and
  auth\_server.go): the cache of the last applied snapshot, its file, and the answer to a client
  that presents a secret.  The file holds the document; writing it is an atomic replacement, whose
  success is an argument.  Together with the snapshots of \<open>Desired_State\<close> the theory shows
  exactly who gets in.
\<close>

definition authCacheSchemaVersion :: int where "authCacheSchemaVersion = 1"
definition maxCachedAuthUsers :: nat where "maxCachedAuthUsers = 10000"
definition sha256_Size :: nat where "sha256_Size = 32"

record cached_auth_user =
  cu_id :: string
  cu_username :: string
  cu_credential_ref :: string
  cu_fingerprint :: string
  cu_verifier :: string
  cu_enabled :: bool
  cu_expires_at :: "gotime option"
  cu_quota_state :: string

record auth_document =
  ad_schema_version :: int
  ad_node_id :: string
  ad_desired_version :: int
  ad_snapshot_hash :: string
  ad_applied_at :: gotime
  ad_users :: "cached_auth_user list"

record auth_entry =
  ae_id :: string
  ae_verifier :: string
  ae_enabled :: bool
  ae_expires_at :: "gotime option"
  ae_quota_state :: string

text \<open>The map of entries is an association list with distinct keys.\<close>

record auth_cache =
  ac_document :: auth_document
  ac_entries :: "(string \<times> auth_entry) list"
  ac_file :: "auth_document option"

section \<open>Building the index\<close>

definition user_error :: "nat \<Rightarrow> string \<Rightarrow> string" where
  "user_error index what = ''auth cache user '' @ itoa (int index) @ '' has invalid '' @ what"

definition index_step ::
  "env \<Rightarrow> nat \<times> cached_auth_user \<Rightarrow> (string \<times> auth_entry) list \<times> string list \<Rightarrow>
     string + (string \<times> auth_entry) list \<times> string list" where
  "index_step e = (\<lambda>(index, user) (entries, seenUsers).
     if \<not> env_uuid_valid e (cu_id user) \<or> length (cu_username user) < 1 \<or> length (cu_username user) > 64
     then Inl (user_error index ''identity'')
     else if \<not> env_uuid_valid e (cu_credential_ref user) \<or> cu_fingerprint user = '''' \<or> length (cu_fingerprint user) > 64
     then Inl (user_error index ''credential metadata'')
     else if cu_quota_state user \<noteq> ''unlimited'' \<and> cu_quota_state user \<noteq> ''active'' \<and> cu_quota_state user \<noteq> ''limited''
     then Inl (user_error index ''quota state'')
     else case b64_decode (cu_verifier user) of
            None \<Rightarrow> Inl (user_error index ''verifier'')
          | Some verifier \<Rightarrow>
              if length verifier \<noteq> sha256_Size then Inl (user_error index ''verifier'')
              else if map_of entries verifier \<noteq> None then Inl ''auth cache contains a duplicate verifier''
              else if cu_id user \<in> set seenUsers then Inl ''auth cache contains a duplicate user''
              else Inr (entries @ [(verifier, \<lparr> ae_id = cu_id user, ae_verifier = verifier, ae_enabled = cu_enabled user,
                          ae_expires_at = cu_expires_at user, ae_quota_state = cu_quota_state user \<rparr>)],
                        cu_id user # seenUsers))"

definition valid_hash :: "string \<Rightarrow> bool" where
  "valid_hash h = (case b64_decode h of None \<Rightarrow> False | Some hash \<Rightarrow> length hash = sha256_Size)"

definition buildAuthIndex :: "env \<Rightarrow> auth_document \<Rightarrow> string + (string \<times> auth_entry) list" where
  "buildAuthIndex e doc =
     (if ad_schema_version doc \<noteq> authCacheSchemaVersion then Inl ''unsupported auth cache schema version''
      else if ad_desired_version doc < 0 \<or> length (ad_users doc) > maxCachedAuthUsers
      then Inl ''auth cache version or user count is invalid''
      else if ad_desired_version doc > 0 \<and> \<not> env_uuid_valid e (ad_node_id doc)
      then Inl ''auth cache node ID is invalid''
      else if ad_desired_version doc > 0 \<and> \<not> valid_hash (ad_snapshot_hash doc)
      then Inl ''auth cache snapshot hash is invalid''
      else rbind (rfold (index_step e) (enumerate 0 (ad_users doc)) ([], [])) (\<lambda>(entries, seen). Inr entries))"

definition empty_document :: auth_document where
  "empty_document = \<lparr> ad_schema_version = authCacheSchemaVersion, ad_node_id = '''', ad_desired_version = 0,
     ad_snapshot_hash = '''', ad_applied_at = zeroTime, ad_users = [] \<rparr>"

definition LoadAuthCache :: "env \<Rightarrow> auth_document option \<Rightarrow> string + auth_cache" where
  "LoadAuthCache e file =
     (case file of
        None \<Rightarrow> Inr \<lparr> ac_document = empty_document, ac_entries = [], ac_file = None \<rparr>
      | Some doc \<Rightarrow> rbind (buildAuthIndex e doc) (\<lambda>entries.
          Inr \<lparr> ac_document = doc, ac_entries = entries, ac_file = Some doc \<rparr>))"

section \<open>Applying a snapshot\<close>

definition cached_user_of :: "desired_user \<Rightarrow> cached_auth_user" where
  "cached_user_of user = \<lparr> cu_id = du_id user, cu_username = du_username user,
     cu_credential_ref = dc_ref (du_credential user), cu_fingerprint = dc_fingerprint (du_credential user),
     cu_verifier = dc_verifier (du_credential user), cu_enabled = du_enabled user,
     cu_expires_at = du_expires_at user, cu_quota_state = du_quota_state user \<rparr>"

definition document_of :: "desired_snapshot \<Rightarrow> string \<Rightarrow> gotime \<Rightarrow> auth_document" where
  "document_of snapshot snapshotHash appliedAt = \<lparr> ad_schema_version = authCacheSchemaVersion,
     ad_node_id = ds_node_id snapshot, ad_desired_version = ds_version snapshot, ad_snapshot_hash = snapshotHash,
     ad_applied_at = appliedAt, ad_users = map cached_user_of (ds_users snapshot) \<rparr>"

definition cache_Apply ::
  "env \<Rightarrow> desired_snapshot \<Rightarrow> string \<Rightarrow> gotime \<Rightarrow> bool \<Rightarrow> auth_cache \<Rightarrow> (string + unit) \<times> auth_cache" where
  "cache_Apply e snapshot snapshotHash appliedAt saved cache =
     (let current = ac_document cache in
      if ad_node_id current \<noteq> '''' \<and> ad_node_id current \<noteq> ds_node_id snapshot
      then (Inl ''native auth snapshot belongs to another node'', cache)
      else if ds_version snapshot < ad_desired_version current \<or>
         (ds_version snapshot = ad_desired_version current \<and> ad_snapshot_hash current \<noteq> '''' \<and>
          ad_snapshot_hash current \<noteq> snapshotHash)
      then (Inl ''native auth snapshot is stale or conflicts with cached version'', cache)
      else
        let document = document_of snapshot snapshotHash appliedAt in
        case buildAuthIndex e document of
          Inl err \<Rightarrow> (Inl err, cache)
        | Inr entries \<Rightarrow>
            if \<not> saved then (Inl ''replace native auth cache'', cache)
            else (Inr (), \<lparr> ac_document = document, ac_entries = entries, ac_file = Some document \<rparr>))"

section \<open>Authentication\<close>

definition Authenticate :: "env \<Rightarrow> string \<Rightarrow> gotime \<Rightarrow> auth_cache \<Rightarrow> string \<times> bool" where
  "Authenticate e secret now cache =
     (let verifier = env_sha256 e secret in
      case map_of (ac_entries cache) verifier of
        None \<Rightarrow> ('''', False)
      | Some entry \<Rightarrow>
          if verifier \<noteq> ae_verifier entry \<or> \<not> ae_enabled entry then ('''', False)
          else if (case ae_expires_at entry of None \<Rightarrow> False | Some t \<Rightarrow> \<not> now < t) then ('''', False)
          else if ae_quota_state entry = ''limited'' then ('''', False)
          else (ae_id entry, True))"

definition Metadata :: "auth_cache \<Rightarrow> string \<times> int \<times> nat" where
  "Metadata cache = (ad_node_id (ac_document cache), ad_desired_version (ac_document cache), length (ac_entries cache))"

record hysteria_auth_request =
  ha_address :: string
  ha_auth :: string
  ha_tx :: int

text \<open>The handler; a body that does not decode to exactly one request is \<open>None\<close>.\<close>

definition handleHysteriaAuth ::
  "env \<Rightarrow> hysteria_auth_request option \<Rightarrow> gotime \<Rightarrow> auth_cache \<Rightarrow> string \<times> bool" where
  "handleHysteriaAuth e input now cache =
     (case input of
        None \<Rightarrow> ('''', False)
      | Some r \<Rightarrow>
          if ha_auth r = '''' \<or> length (ha_auth r) > 512 \<or> length (ha_address r) > 256 \<or> ha_tx r < 0 then ('''', False)
          else Authenticate e (ha_auth r) now cache)"

section \<open>What the index holds\<close>

definition entry_of :: "cached_auth_user \<Rightarrow> string \<Rightarrow> auth_entry" where
  "entry_of user verifier = \<lparr> ae_id = cu_id user, ae_verifier = verifier, ae_enabled = cu_enabled user,
     ae_expires_at = cu_expires_at user, ae_quota_state = cu_quota_state user \<rparr>"

definition indexes :: "cached_auth_user list \<Rightarrow> (string \<times> auth_entry) list \<Rightarrow> bool" where
  "indexes users entries \<longleftrightarrow> distinct (map fst entries) \<and>
     list_all2 (\<lambda>u (v, a). b64_decode (cu_verifier u) = Some v \<and> length v = sha256_Size \<and> a = entry_of u v) users entries"

lemma index_steps:
  assumes "rfold (index_step e) (enumerate n users) (entries, seen) = Inr (entries', seen')"
    and "indexes prev entries" and "set seen = cu_id ` set prev" and "distinct (map cu_id prev)"
  shows "indexes (prev @ users) entries' \<and> distinct (map cu_id (prev @ users))"
  using assms
proof (induction users arbitrary: n entries seen prev)
  case Nil
  then show ?case by simp
next
  case (Cons u users)
  then obtain entries1 seen1 where s: "index_step e (n, u) (entries, seen) = Inr (entries1, seen1)"
    and r: "rfold (index_step e) (enumerate (Suc n) users) (entries1, seen1) = Inr (entries', seen')"
    by (auto simp: rbind_Inr_conv)
  from s obtain v where v: "b64_decode (cu_verifier u) = Some v" "length v = sha256_Size" "map_of entries v = None"
    "cu_id u \<notin> set seen" "entries1 = entries @ [(v, entry_of u v)]" "seen1 = cu_id u # seen"
    by (auto simp: index_step_def entry_of_def split: if_splits option.splits)
  have "indexes (prev @ [u]) entries1"
    using Cons.prems(2) v by (auto simp: indexes_def map_of_eq_None_iff intro: list_all2_appendI)
  moreover have "set seen1 = cu_id ` set (prev @ [u])" using Cons.prems(3) v by simp
  moreover have "distinct (map cu_id (prev @ [u]))" using Cons.prems(3,4) v by auto
  ultimately show ?case using Cons.IH [OF r, of "prev @ [u]"] by simp
qed

lemma buildAuthIndex_Inr:
  assumes "buildAuthIndex e doc = Inr entries"
  shows "indexes (ad_users doc) entries" and "distinct (map cu_id (ad_users doc))"
proof -
  obtain seen where "rfold (index_step e) (enumerate 0 (ad_users doc)) ([], []) = Inr (entries, seen)"
    using assms by (auto simp: buildAuthIndex_def rbind_Inr_conv split: if_splits)
  from index_steps [OF this, of "[]"] show "indexes (ad_users doc) entries" "distinct (map cu_id (ad_users doc))"
    by (auto simp: indexes_def)
qed

lemma indexes_lookup:
  assumes "indexes users entries"
  shows "map_of entries v = Some a \<longleftrightarrow> (\<exists>u\<in>set users. b64_decode (cu_verifier u) = Some v \<and> a = entry_of u v)"
proof -
  have d: "distinct (map fst entries)" using assms by (simp add: indexes_def)
  have l: "list_all2 (\<lambda>u (v, a). b64_decode (cu_verifier u) = Some v \<and> length v = sha256_Size \<and> a = entry_of u v) users entries"
    using assms by (simp add: indexes_def)
  have "(v, a) \<in> set entries \<longleftrightarrow> (\<exists>u\<in>set users. b64_decode (cu_verifier u) = Some v \<and> a = entry_of u v)"
    using l by (induction rule: list_all2_induct) auto
  then show ?thesis using d by (metis map_of_SomeD map_of_is_SomeI)
qed

text \<open>Who may use a secret, in terms of the applied document.\<close>

definition admits :: "env \<Rightarrow> string \<Rightarrow> gotime \<Rightarrow> cached_auth_user \<Rightarrow> bool" where
  "admits e secret now u \<longleftrightarrow> b64_decode (cu_verifier u) = Some (env_sha256 e secret) \<and> cu_enabled u \<and>
     (case cu_expires_at u of None \<Rightarrow> True | Some t \<Rightarrow> now < t) \<and> cu_quota_state u \<noteq> ''limited''"

lemma Authenticate_iff:
  assumes "indexes (ad_users (ac_document cache)) (ac_entries cache)"
  shows "Authenticate e secret now cache = (i, True) \<longleftrightarrow> (\<exists>u\<in>set (ad_users (ac_document cache)). cu_id u = i \<and> admits e secret now u)"
proof (cases "map_of (ac_entries cache) (env_sha256 e secret)")
  case None
  then have "\<not> (\<exists>u\<in>set (ad_users (ac_document cache)). b64_decode (cu_verifier u) = Some (env_sha256 e secret))"
    using indexes_lookup [OF assms, of "env_sha256 e secret"] by auto
  with None show ?thesis by (auto simp: Authenticate_def admits_def Let_def)
next
  case (Some a)
  then obtain u where u: "u \<in> set (ad_users (ac_document cache))" "b64_decode (cu_verifier u) = Some (env_sha256 e secret)"
    "a = entry_of u (env_sha256 e secret)" using indexes_lookup [OF assms] by blast
  have uniq: "entry_of w (env_sha256 e secret) = a"
    if "w \<in> set (ad_users (ac_document cache))" "b64_decode (cu_verifier w) = Some (env_sha256 e secret)" for w
    using indexes_lookup [OF assms, of "env_sha256 e secret" "entry_of w (env_sha256 e secret)"] that Some by auto
  have "Authenticate e secret now cache = (i, True) \<longleftrightarrow> cu_id u = i \<and> admits e secret now u"
    using Some u(2) by (auto simp: Authenticate_def admits_def u(3) entry_of_def Let_def split: option.split if_splits)
  moreover have "cu_id w = cu_id u \<and> (admits e secret now w \<longleftrightarrow> admits e secret now u)"
    if "w \<in> set (ad_users (ac_document cache))" "b64_decode (cu_verifier w) = Some (env_sha256 e secret)" for w
    using uniq [OF that] that(2) u(2) by (auto simp: u(3) entry_of_def admits_def)
  ultimately show ?thesis using u(1) by (auto simp: admits_def)
qed

definition cache_ok :: "env \<Rightarrow> auth_cache \<Rightarrow> bool" where
  "cache_ok e cache \<longleftrightarrow> indexes (ad_users (ac_document cache)) (ac_entries cache) \<and>
     LoadAuthCache e (ac_file cache) = Inr cache"

lemma cache_Apply_Inr:
  assumes "cache_Apply e snapshot hash at saved cache = (Inr (), cache')"
  shows "ac_document cache' = document_of snapshot hash at" and "cache_ok e cache'"
    and "ad_desired_version (ac_document cache) \<le> ds_version snapshot"
proof -
  obtain entries where b: "buildAuthIndex e (document_of snapshot hash at) = Inr entries"
    and c: "cache' = \<lparr> ac_document = document_of snapshot hash at, ac_entries = entries, ac_file = Some (document_of snapshot hash at) \<rparr>"
    and v: "ad_desired_version (ac_document cache) \<le> ds_version snapshot"
    using assms by (auto simp: cache_Apply_def Let_def split: if_splits sum.splits)
  show "ac_document cache' = document_of snapshot hash at" using c by simp
  show "cache_ok e cache'" using buildAuthIndex_Inr(1) [OF b] by (simp add: cache_ok_def c LoadAuthCache_def b)
  show "ad_desired_version (ac_document cache) \<le> ds_version snapshot" by (rule v)
qed

lemma cache_Apply_Inl: "cache_Apply e snapshot hash at saved cache = (Inl err, cache') \<Longrightarrow> cache' = cache"
  by (auto simp: cache_Apply_def Let_def split: if_splits sum.splits)


section \<open>Who gets in\<close>

text \<open>A client is let in under an account when the account's assignment to the node is usable.\<close>

definition may_use :: "gotime \<Rightarrow> assignment_row \<Rightarrow> user_row \<Rightarrow> node_row \<Rightarrow> bool" where
  "may_use now a u n \<longleftrightarrow> u_enabled u \<and> a_enabled a \<and> n_enabled n \<and>
     (case u_expires_at u of None \<Rightarrow> True | Some t \<Rightarrow> now < unixTime t) \<and>
     u_quota_state u \<noteq> ''limited'' \<and> a_quota_state a \<noteq> ''limited''"

lemma desired_user_admits:
  assumes "desired_user_of ''native_hysteria2'' built (a, u, n, c) = Inr du"
  shows "cu_id (cached_user_of du) = u_id u"
    and "admits e secret now (cached_user_of du) \<longleftrightarrow> c_verifier c = env_sha256 e secret \<and> may_use now a u n"
  using assms by (auto simp: desired_user_of_def Let_def cached_user_of_def admits_def may_use_def b64_roundtrip
      snapshot_quota_def AdapterSingBoxVLESSReality_def split: if_splits option.splits)

text \<open>C8: Access is exactly what the controller's database says.  After the agent of a Hysteria 2 node
  has applied the snapshot the controller built, a client that presents a secret is let in as a
  user if and only if some assignment of that user to the node (user not archived, credential staged
  or applied) has a credential whose verifier is the hash of the secret, user, assignment and node
  are enabled, the account has not expired at the moment of the attempt, and neither quota is
  exhausted.  The answer is the same after a restart of the agent from its cache file.\<close>

theorem access_exact:
  assumes "build_snapshot i ''native_hysteria2'' v built d = Inr snap"
    and "cache_Apply e snap hash at saved cache = (Inr (), cache')"
  shows "(Authenticate e secret now cache' = (uid, True) \<longleftrightarrow>
      (\<exists>a u n c. (a, u, n, c) \<in> set (snapshot_rows i d) \<and> u_id u = uid \<and>
         c_verifier c = env_sha256 e secret \<and> may_use now a u n)) \<and>
    LoadAuthCache e (ac_file cache') = Inr cache'"
proof -
  note ap = cache_Apply_Inr [OF assms(2)]
  have ix: "indexes (ad_users (ac_document cache')) (ac_entries cache')" and ld: "LoadAuthCache e (ac_file cache') = Inr cache'"
    using ap(2) by (simp_all add: cache_ok_def)
  have us: "ad_users (ac_document cache') = map cached_user_of (ds_users snap)" by (simp add: ap(1) document_of_def)
  have mg: "supportsManagedUsers ''native_hysteria2''" by code_simp
  have "Authenticate e secret now cache' = (uid, True) \<longleftrightarrow>
      (\<exists>du\<in>set (ds_users snap). cu_id (cached_user_of du) = uid \<and> admits e secret now (cached_user_of du))"
    by (simp add: Authenticate_iff [OF ix] us)
  also have "\<dots> \<longleftrightarrow> (\<exists>a u n c. (a, u, n, c) \<in> set (snapshot_rows i d) \<and> u_id u = uid \<and>
         c_verifier c = env_sha256 e secret \<and> may_use now a u n)"
  proof
    assume "\<exists>du\<in>set (ds_users snap). cu_id (cached_user_of du) = uid \<and> admits e secret now (cached_user_of du)"
    then obtain du where du: "du \<in> set (ds_users snap)" "cu_id (cached_user_of du) = uid" "admits e secret now (cached_user_of du)" by blast
    from snapshot_user_sound [OF assms(1) du(1)] obtain a u n c where
      r: "(a, u, n, c) \<in> set (snapshot_rows i d)" "desired_user_of ''native_hysteria2'' built (a, u, n, c) = Inr du" by blast
    with du desired_user_admits [OF r(2)] show "\<exists>a u n c. (a, u, n, c) \<in> set (snapshot_rows i d) \<and> u_id u = uid \<and>
         c_verifier c = env_sha256 e secret \<and> may_use now a u n" by auto
  next
    assume "\<exists>a u n c. (a, u, n, c) \<in> set (snapshot_rows i d) \<and> u_id u = uid \<and>
         c_verifier c = env_sha256 e secret \<and> may_use now a u n"
    then obtain a u n c where r: "(a, u, n, c) \<in> set (snapshot_rows i d)" "u_id u = uid" "c_verifier c = env_sha256 e secret" "may_use now a u n" by blast
    from snapshot_user_complete [OF assms(1) mg r(1)] obtain du where
      du: "du \<in> set (ds_users snap)" "desired_user_of ''native_hysteria2'' built (a, u, n, c) = Inr du" by blast
    with r desired_user_admits [OF du(2)] show "\<exists>du\<in>set (ds_users snap). cu_id (cached_user_of du) = uid \<and> admits e secret now (cached_user_of du)"
      by blast
  qed
  finally show ?thesis using ld by blast
qed

definition sample_fresh_cache :: auth_cache where
  "sample_fresh_cache = \<lparr> ac_document = empty_document, ac_entries = [], ac_file = None \<rparr>"

definition sample_secret_db :: db where
  "sample_secret_db = sample_db\<lparr>db_credentials := [sample_credential\<lparr>c_verifier := env_sha256 sample_env ''pass''\<rparr>]\<rparr>"

definition sample_hash :: string where "sample_hash = b64_encode (replicate 32 CHR ''h'')"

definition sample_secret_snapshot :: desired_snapshot where
  "sample_secret_snapshot = projr (build_snapshot ''n1'' ''native_hysteria2'' 2 5 sample_secret_db)"

definition sample_cache :: auth_cache where
  "sample_cache = snd (cache_Apply sample_env sample_secret_snapshot sample_hash 6 True sample_fresh_cache)"

theorem access_exact_witness:
  "Authenticate sample_env ''pass'' 7 sample_cache = (''u1'', True) \<and>
   Authenticate sample_env ''pass'' (unixTime 1000) sample_cache \<noteq> (''u1'', True)"
proof -
  have b: "build_snapshot ''n1'' ''native_hysteria2'' 2 5 sample_secret_db = Inr sample_secret_snapshot" by code_simp
  have "fst (cache_Apply sample_env sample_secret_snapshot sample_hash 6 True sample_fresh_cache) = Inr ()" by code_simp
  then have a: "cache_Apply sample_env sample_secret_snapshot sample_hash 6 True sample_fresh_cache = (Inr (), sample_cache)"
    by (simp add: prod_eq_iff sample_cache_def)
  have r: "set (snapshot_rows ''n1'' sample_secret_db) =
      {(sample_assignment, sample_user, sample_node, sample_credential\<lparr>c_verifier := env_sha256 sample_env ''pass''\<rparr>)}" by code_simp
  have "u_id sample_user = ''u1''" "may_use 7 sample_assignment sample_user sample_node"
    "\<not> may_use (unixTime 1000) sample_assignment sample_user sample_node" by code_simp+
  with access_exact [OF b a, of "''pass''" 7 "''u1''"] access_exact [OF b a, of "''pass''" "unixTime 1000" "''u1''"] r
  show ?thesis by auto
qed

text \<open>A snapshot that is older than the applied one, conflicts with it, belongs to another node or
  has an invalid user is refused and leaves the cache and its file as they were; an accepted one
  never lowers the version.\<close>

lemma stale_snapshot_refused:
  "(case cache_Apply e snap hash at saved cache of
      (Inl err, cache') \<Rightarrow> cache' = cache
    | (Inr x, cache') \<Rightarrow> ad_desired_version (ac_document cache) \<le> ad_desired_version (ac_document cache') \<and>
        (ad_node_id (ac_document cache) = '''' \<or> ad_node_id (ac_document cache') = ad_node_id (ac_document cache)) \<and>
        (ad_desired_version (ac_document cache') = ad_desired_version (ac_document cache) \<longrightarrow>
           ad_snapshot_hash (ac_document cache) = '''' \<or> ad_snapshot_hash (ac_document cache) = hash) \<and>
        distinct (map du_id (ds_users snap)) \<and> cache_ok e cache')"
proof (cases "cache_Apply e snap hash at saved cache")
  case (Pair r cache')
  show ?thesis
  proof (cases r)
    case (Inl err)
    with Pair show ?thesis by (auto dest: cache_Apply_Inl)
  next
    case (Inr x)
    with Pair have ap: "cache_Apply e snap hash at saved cache = (Inr (), cache')" by simp
    note c = cache_Apply_Inr [OF ap]
    have "buildAuthIndex e (document_of snap hash at) \<noteq> Inl err" for err
      using ap by (auto simp: cache_Apply_def Let_def split: if_splits sum.splits)
    then obtain entries where "buildAuthIndex e (document_of snap hash at) = Inr entries"
      by (cases "buildAuthIndex e (document_of snap hash at)") auto
    from buildAuthIndex_Inr(2) [OF this] have "distinct (map du_id (ds_users snap))"
      by (simp add: document_of_def cached_user_of_def comp_def)
    moreover have "ad_node_id (ac_document cache) = '''' \<or> ds_node_id snap = ad_node_id (ac_document cache)"
      and "ds_version snap = ad_desired_version (ac_document cache) \<Longrightarrow>
        ad_snapshot_hash (ac_document cache) = '''' \<or> ad_snapshot_hash (ac_document cache) = hash"
      using ap by (auto simp: cache_Apply_def Let_def split: if_splits)
    moreover have "ad_desired_version (ac_document cache') = ds_version snap" "ad_node_id (ac_document cache') = ds_node_id snap"
      by (simp_all add: c(1) document_of_def)
    ultimately show ?thesis using c(2,3) Pair Inr by auto
  qed
qed

end
