(* ===== verification/Agent_Sync.thy ===== *)
theory Agent_Sync
  imports Agent_Registry Auth_Cache Delivery
begin

text \<open>
  How an agent follows the desired state (internal/agent/agent.go, \<open>pollDesired\<close>,
  \<open>sendPendingAck\<close> and their helpers, and state.go) and the endpoints it talks to
  (internal/server/agent\_handlers.go).  The theory covers the native Hysteria 2 adapter and the
  read-only one; the reconciliation of the S-UI and Reality data planes is not modelled.  Requests
  and replies may be lost and the agent may restart at any moment.
\<close>

section \<open>Messages\<close>

text \<open>What \<open>doJSON\<close> gives: an error of the transport, a status of 400 or more with the
  code of the error body, or a status with the decoded body.\<close>

datatype 'a reply = Unreachable | Rejected int string | Answered int "'a option"

definition transmit :: "transmission \<Rightarrow> ('d \<Rightarrow> 'a reply \<times> 'd) \<Rightarrow> 'd \<Rightarrow> 'a reply \<times> 'd" where
  "transmit t handler d =
     (case t of RequestLost \<Rightarrow> (Unreachable, d)
      | ReplyLost \<Rightarrow> (Unreachable, snd (handler d))
      | Delivered \<Rightarrow> handler d)"

record ack_request =
  aq_status :: string
  aq_snapshot_hash :: string
  aq_adapter :: string
  aq_error_code :: string
  aq_message :: string
  aq_reality :: "reality_material option"

section \<open>The endpoints\<close>

definition handleAgentDesired :: "agent_identity \<Rightarrow> int \<Rightarrow> db \<Rightarrow> desired_envelope reply \<times> db" where
  "handleAgentDesired identity after d =
     (if after < 0 then (Rejected 400 ''invalid_version'', d)
      else case find_active_node (ai_node_id identity) d of
        None \<Rightarrow> (Rejected 404 ''node_not_found'', d)
      | Some n \<Rightarrow>
      if n_adapter_type n = AdapterSingBoxVLESSReality \<and> find_reality (n_id n) d = None
      then (Rejected 404 ''node_not_found'', d)
      else if n_desired_version n \<le> after then (Answered 204 None, d)
      else case (if n_adapter_type n = AdapterSingBoxVLESSReality
                 then HasAgentCapabilities (ai_node_id identity)
                   [''desired_state_v2'', ''credential_material_v1'', ''sing_box_vless_reality'', ''reality_user_control_v1''] d
                 else Inr True) of
        Inl err \<Rightarrow> (Rejected 500 ''desired_read_failed'', d)
      | Inr compatible \<Rightarrow>
          if \<not> compatible then (Rejected 426 ''agent_capabilities_missing'', d)
          else case GetDesiredSnapshot (ai_node_id identity) (n_desired_version n) d of
                 Inl err \<Rightarrow> (Rejected 500 ''desired_read_failed'', d)
               | Inr envelope \<Rightarrow> (Answered 200 (Some envelope), d))"

definition validRealityAckMaterial :: "reality_material option \<Rightarrow> bool" where
  "validRealityAckMaterial material =
     (case material of None \<Rightarrow> False
      | Some r \<Rightarrow> \<not> (rm_key_generation r < 1 \<or> length (rm_short_id r) \<noteq> 16) \<and>
          (case b64_decode (rm_public_key r) of None \<Rightarrow> False | Some key \<Rightarrow> length key = 32) \<and>
          list_all (\<lambda>c. c \<in> set ''0123456789abcdef'') (rm_short_id r))"

definition handleAgentDesiredAck ::
  "agent_identity \<Rightarrow> int \<Rightarrow> ack_request \<Rightarrow> gotime \<Rightarrow> db \<Rightarrow> unit reply \<times> db" where
  "handleAgentDesiredAck identity version input now d =
     (if version < 1 then (Rejected 400 ''invalid_version'', d)
      else if aq_status input \<noteq> ''applied'' \<and> aq_status input \<noteq> ''failed''
      then (Rejected 422 ''validation_failed'', d)
      else case b64_decode (aq_snapshot_hash input) of
        None \<Rightarrow> (Rejected 422 ''validation_failed'', d)
      | Some hash \<Rightarrow>
      if length hash \<noteq> 32 \<or> length (aq_error_code input) > 64 \<or> length (aq_message input) > 512
      then (Rejected 422 ''validation_failed'', d)
      else if aq_adapter input \<noteq> ai_adapter_type identity then (Rejected 409 ''adapter_conflict'', d)
      else if aq_status input = ''failed'' \<and> aq_reality input \<noteq> None then (Rejected 422 ''validation_failed'', d)
      else if ai_adapter_type identity = AdapterSingBoxVLESSReality \<and> aq_status input = ''applied'' \<and>
         \<not> validRealityAckMaterial (aq_reality input)
      then (Rejected 422 ''validation_failed'', d)
      else if ai_adapter_type identity \<noteq> AdapterSingBoxVLESSReality \<and> aq_reality input \<noteq> None
      then (Rejected 422 ''validation_failed'', d)
      else case AcknowledgeDesiredWithMaterial identity version hash (aq_status input)
                  (TrimSpace (aq_error_code input)) (TrimSpace (aq_message input)) (aq_reality input) now d of
             (Inl err, d1) \<Rightarrow>
               (if err = ErrVersionConflict then Rejected 409 ''desired_version_conflict''
                else Rejected 500 ''acknowledgement_failed'', d1)
           | (Inr x, d1) \<Rightarrow> (Answered 204 None, d1))"

section \<open>The agent\<close>

record agent_state =
  st_installation_id :: string
  st_node_id :: string
  st_node_credential :: string
  st_applied_version :: int
  st_applied_hash :: string
  st_pending_enrollment :: string
  st_pending_version :: int
  st_pending_hash :: string
  st_pending_reality :: "reality_material option"

text \<open>The running agent with its files: the state file, the local database and the cache.\<close>

record agent =
  ag_adapter :: string
  ag_state :: agent_state
  ag_state_file :: agent_state
  ag_cache :: auth_cache
  ag_local :: local_db

text \<open>One attempt: the fate of the requests it may send, the clock, whether the files can be
  replaced, and the data plane's answer to kicks.\<close>

record attempt =
  at_first :: transmission
  at_second :: transmission
  at_third :: transmission
  at_now :: gotime
  at_cache_saved :: bool
  at_state_saved :: bool
  at_kicks_configured :: bool
  at_kick :: "string list \<Rightarrow> bool"

definition SaveState :: "bool \<Rightarrow> agent \<Rightarrow> (string + unit) \<times> agent" where
  "SaveState saved g = (if saved then (Inr (), g\<lparr>ag_state_file := ag_state g\<rparr>) else (Inl ''replace Agent state'', g))"

definition clearPendingAck :: "attempt \<Rightarrow> agent \<Rightarrow> (string + unit) \<times> agent" where
  "clearPendingAck x g =
     (let g1 = g\<lparr>ag_state := (ag_state g)\<lparr>st_pending_version := 0, st_pending_hash := '''', st_pending_reality := None\<rparr>\<rparr> in
      case SaveState (at_state_saved x) g1 of
        (Inl err, g2) \<Rightarrow> (Inl err, g2\<lparr>ag_state := ag_state g\<rparr>)
      | (Inr _, g2) \<Rightarrow> (Inr (), g2))"

definition pendingAckIsSuperseded ::
  "agent_identity \<Rightarrow> attempt \<Rightarrow> int \<Rightarrow> agent \<Rightarrow> db \<Rightarrow> string + bool" where
  "pendingAckIsSuperseded identity x pendingVersion g d =
     (case fst (transmit (at_second x) (handleAgentDesired identity pendingVersion) d) of
        Unreachable \<Rightarrow> Inl ''send request''
      | Rejected status code \<Rightarrow> Inl code
      | Answered status body \<Rightarrow>
          if status = 204 then Inr False
          else if status \<noteq> 200 then Inl ''desired-state confirmation returned status''
          else case body of
                 None \<Rightarrow> Inl ''decode response''
               | Some envelope \<Rightarrow>
                   if ds_node_id (de_snapshot envelope) \<noteq> st_node_id (ag_state g) \<or>
                      ds_adapter (de_snapshot envelope) \<noteq> ag_adapter g
                   then Inl ''desired-state confirmation identity is invalid''
                   else Inr (ds_version (de_snapshot envelope) > pendingVersion))"

definition pending_ack :: "agent \<Rightarrow> ack_request" where
  "pending_ack g = \<lparr> aq_status = ''applied'', aq_snapshot_hash = st_pending_hash (ag_state g), aq_adapter = ag_adapter g,
     aq_error_code = '''', aq_message = '''', aq_reality = st_pending_reality (ag_state g) \<rparr>"

definition sendPendingAck ::
  "agent_identity \<Rightarrow> attempt \<Rightarrow> agent \<Rightarrow> db \<Rightarrow> (string + unit) \<times> agent \<times> db" where
  "sendPendingAck identity x g d =
     (let pendingVersion = st_pending_version (ag_state g) in
      if pendingVersion = 0 then (Inr (), g, d)
      else let (reply, d1) = transmit (at_first x) (handleAgentDesiredAck identity pendingVersion (pending_ack g) (at_now x)) d in
      case reply of
        Unreachable \<Rightarrow> (Inl ''send request'', g, d1)
      | Rejected status code \<Rightarrow>
          if status = 409 \<and> code = ''desired_version_conflict'' then
            (case pendingAckIsSuperseded identity x pendingVersion g d1 of
               Inl err \<Rightarrow> (Inl err, g, d1)
             | Inr superseded \<Rightarrow>
                 if \<not> superseded then (Inl code, g, d1)
                 else let (r, g1) = clearPendingAck x g in (r, g1, d1))
          else (Inl code, g, d1)
      | Answered status body \<Rightarrow>
          if status \<noteq> 204 then (Inl ''desired acknowledgement returned status'', g, d1)
          else let (r, g1) = clearPendingAck x g in (r, g1, d1))"

definition ackFailed ::
  "agent_identity \<Rightarrow> attempt \<Rightarrow> desired_envelope \<Rightarrow> string \<Rightarrow> string \<Rightarrow> agent \<Rightarrow> db \<Rightarrow> (string + unit) \<times> agent \<times> db" where
  "ackFailed identity x desired code message g d =
     (let input = \<lparr> aq_status = ''failed'', aq_snapshot_hash = de_sha256 desired, aq_adapter = ag_adapter g,
            aq_error_code = code, aq_message = message, aq_reality = None \<rparr>;
          (reply, d1) = transmit (at_second x) (handleAgentDesiredAck identity (ds_version (de_snapshot desired)) input (at_now x)) d
      in (case reply of
            Unreachable \<Rightarrow> Inl ''send request''
          | Rejected status c \<Rightarrow> Inl c
          | Answered status body \<Rightarrow> if status \<noteq> 204 then Inl ''failed acknowledgement returned status'' else Inr (), g, d1))"

text \<open>The part of \<open>pollDesired\<close> after the reply has been verified.  The acknowledgement is the
  attempt's second request, its confirmation the third.\<close>

definition apply_envelope ::
  "env \<Rightarrow> agent_identity \<Rightarrow> attempt \<Rightarrow> desired_envelope \<Rightarrow> agent \<Rightarrow> db \<Rightarrow> (string + unit) \<times> agent \<times> db" where
  "apply_envelope e identity x result g d =
     (let snapshot = de_snapshot result;
          settle = (\<lambda>g1. let g2 = g1\<lparr>ag_state := (ag_state g1)\<lparr>st_applied_version := ds_version snapshot,
                            st_applied_hash := de_sha256 result, st_pending_version := ds_version snapshot,
                            st_pending_hash := de_sha256 result\<rparr>\<rparr> in
                     case SaveState (at_state_saved x) g2 of
                       (Inl err, g3) \<Rightarrow> (Inl err, g3, d)
                     | (Inr _, g3) \<Rightarrow> sendPendingAck identity (x\<lparr>at_first := at_second x, at_second := at_third x\<rparr>) g3 d) in
      if ag_adapter g = ''native_hysteria2'' then
        (case queueKicks (ds_kicks snapshot) (at_now x) (ag_local g) of
           (Inl err, l1) \<Rightarrow> ackFailed identity x result ''kick_queue_failed'' ''native kick queue rejected desired state''
                            (g\<lparr>ag_local := l1\<rparr>) d
         | (Inr _, l1) \<Rightarrow>
         (case cache_Apply e snapshot (de_sha256 result) (at_now x) (at_cache_saved x) (ag_cache g) of
           (Inl err, c1) \<Rightarrow> ackFailed identity x result ''auth_cache_apply_failed'' ''native auth cache rejected desired state''
                            (g\<lparr>ag_local := l1, ag_cache := c1\<rparr>) d
         | (Inr _, c1) \<Rightarrow>
         (case executePendingKicks (at_kicks_configured x) (at_kick x) (at_now x) l1 of
           (Inl err, l2) \<Rightarrow> ackFailed identity x result ''kick_apply_failed'' ''native kick requests could not be applied''
                            (g\<lparr>ag_local := l2, ag_cache := c1\<rparr>) d
         | (Inr _, l2) \<Rightarrow> settle (g\<lparr>ag_local := l2, ag_cache := c1\<rparr>))))
      else if ds_users snapshot \<noteq> [] then
        ackFailed identity x result ''adapter_users_unsupported'' ''this adapter cannot apply users in Phase 2'' g d
      else settle g)"

definition pollDesired ::
  "env \<Rightarrow> agent_identity \<Rightarrow> attempt \<Rightarrow> agent \<Rightarrow> db \<Rightarrow> (string + unit) \<times> agent \<times> db" where
  "pollDesired e identity x g d =
     (case fst (transmit (at_first x) (handleAgentDesired identity (st_applied_version (ag_state g))) d) of
        Unreachable \<Rightarrow> (Inl ''send request'', g, d)
      | Rejected status code \<Rightarrow> (Inl code, g, d)
      | Answered status body \<Rightarrow>
          if status = 204 then (Inr (), g, d)
          else if status \<noteq> 200 then (Inl ''desired-state poll returned status'', g, d)
          else case body of
            None \<Rightarrow> (Inl ''decode response'', g, d)
          | Some result \<Rightarrow>
              if ds_node_id (de_snapshot result) \<noteq> st_node_id (ag_state g) \<or>
                 ds_adapter (de_snapshot result) \<noteq> ag_adapter g \<or>
                 ds_version (de_snapshot result) \<le> st_applied_version (ag_state g) \<or>
                 ds_schema_version (de_snapshot result) \<noteq> 1
              then (Inl ''desired snapshot identity or version is invalid'', g, d)
              else if b64_encode (env_snapshot_sha256 e (de_snapshot result)) \<noteq> de_sha256 result
              then (Inl ''desired snapshot hash mismatch'', g, d)
              else apply_envelope e identity x result g d)"

text \<open>A restart reads the state file and the cache file back.\<close>

definition restart :: "env \<Rightarrow> agent \<Rightarrow> string + agent" where
  "restart e g = rbind (LoadAuthCache e (ac_file (ag_cache g))) (\<lambda>c.
     if st_node_id (ag_state_file g) \<noteq> '''' \<and> ad_node_id (ac_document c) \<noteq> '''' \<and>
        st_node_id (ag_state_file g) \<noteq> ad_node_id (ac_document c)
     then Inl ''native auth cache belongs to another node''
     else Inr (g\<lparr>ag_state := ag_state_file g, ag_cache := c\<rparr>))"


section \<open>The controller never runs ahead of the agent\<close>

definition applied_version :: "string \<Rightarrow> db \<Rightarrow> int" where
  "applied_version nodeID d = (case find_node nodeID d of None \<Rightarrow> 0 | Some n \<Rightarrow> n_applied_version n)"

lemma applied_version_update:
  assumes "\<And>n. n_id (f n) = n_id n"
  shows "applied_version i (update_nodes (\<lambda>n. n_id n = j) f d) =
    (case find_node i d of None \<Rightarrow> 0 | Some n \<Rightarrow> if i = j then n_applied_version (f n) else n_applied_version n)"
proof -
  have "find_node i (update_nodes (\<lambda>n. n_id n = j) f d) = map_option (\<lambda>n. if n_id n = j then f n else n) (find_node i d)"
    unfolding find_node_def update_nodes_def using assms by (simp add: sql_first_update)
  then show ?thesis by (auto simp: applied_version_def find_node_def split: option.split dest: sql_first_SomeD)
qed

lemma applied_version_cong: "db_nodes d' = db_nodes d \<Longrightarrow> applied_version i d' = applied_version i d"
  by (simp add: applied_version_def find_node_def)

lemma applied_version_applied:
  "applied_version i (record_applied identity v now d) = applied_version i d \<or>
   i = ai_node_id identity \<and> applied_version i (record_applied identity v now d) = v"
proof -
  have "applied_version i (record_applied identity v now d) =
      applied_version i (update_nodes (\<lambda>n. n_id n = ai_node_id identity) (applied_node_row (ai_enabled identity) v now) d)"
    by (rule applied_version_cong) (simp add: record_applied_def Let_def update_credentials_def update_assignments_def)
  then show ?thesis
    by (subst (asm) applied_version_update)
      (auto simp: applied_node_row_def applied_version_def split: option.splits if_splits)
qed

lemma applied_version_failed: "applied_version i (record_failed j v ec msg now d) = applied_version i d"
proof -
  let ?f = "\<lambda>n. n\<lparr>n_status := ''degraded'', n_status_reason :=
      (if take 240 msg \<noteq> '''' then ec @ '': '' @ take 240 msg else ec), n_updated_at := unixMilli now\<rparr>"
  have "applied_version i (record_failed j v ec msg now d) = applied_version i (update_nodes (\<lambda>n. n_id n = j) ?f d)"
    by (rule applied_version_cong) (simp add: record_failed_def Let_def update_assignments_def)
  also have "\<dots> = applied_version i d"
    by (subst applied_version_update) (auto simp: applied_version_def split: option.split)
  finally show ?thesis .
qed

lemma acknowledge_applied_version:
  assumes "AcknowledgeDesiredWithMaterial identity v hash status ec msg reality now d = (r, d')"
  shows "applied_version i d' = applied_version i d \<or> i = ai_node_id identity \<and> status = ''applied'' \<and> applied_version i d' = v"
proof (cases r)
  case (Inl err)
  with assms have "d' = d" unfolding AcknowledgeDesiredWithMaterial_def by (auto dest: transact_rollback)
  then show ?thesis by simp
next
  case (Inr x)
  with assms have b: "acknowledge_body identity v hash status ec msg reality now d = Inr (x, d')"
    by (simp add: AcknowledgeDesiredWithMaterial_def transact_commit)
  have mat: "db_nodes d1 = db_nodes d" if "store_material j w reality now d = Inr d1" for j w d1
    using that by (auto simp: store_material_def split: option.splits if_splits)
  have "\<exists>d1. db_nodes d1 = db_nodes d \<and> d' = (if status = ''applied'' then record_applied identity v now d1
      else record_failed (ai_node_id identity) v ec msg now d1)"
    using b by (auto simp: acknowledge_body_def rbind_Inr_conv split: option.splits if_splits dest!: mat)
  then obtain d1 where d1: "db_nodes d1 = db_nodes d" "d' = (if status = ''applied'' then record_applied identity v now d1
      else record_failed (ai_node_id identity) v ec msg now d1)" by blast
  with applied_version_applied [of i identity v now d1] applied_version_failed [of i "ai_node_id identity" v ec msg now d1]
    applied_version_cong [OF d1(1), of i] show ?thesis by (auto split: if_splits)
qed

lemma handleAck_applied_version:
  assumes "handleAgentDesiredAck identity v input now d = (reply, d')"
  shows "applied_version i d' = applied_version i d \<or>
    i = ai_node_id identity \<and> aq_status input = ''applied'' \<and> applied_version i d' = v"
  using assms by (auto simp: handleAgentDesiredAck_def split: if_splits option.splits prod.splits sum.splits
      dest: acknowledge_applied_version [where i = i])

lemma handleDesired_reads: "snd (handleAgentDesired identity after d) = d"
  by (simp add: handleAgentDesired_def split: option.split sum.split)

lemma transmitAck_applied_version:
  assumes "transmit t (handleAgentDesiredAck identity v input now) d = (reply, d')"
  shows "applied_version i d' = applied_version i d \<or>
    i = ai_node_id identity \<and> aq_status input = ''applied'' \<and> applied_version i d' = v"
  using assms handleAck_applied_version [where i = i]
  by (cases "handleAgentDesiredAck identity v input now d") (auto simp: transmit_def split: transmission.splits)

definition cache_version :: "agent \<Rightarrow> int" where
  "cache_version g = ad_desired_version (ac_document (ag_cache g))"

text \<open>The controller's record of the applied version and every acknowledgement the agent may still
  send are covered by the cache, which is on disk.\<close>

definition in_step :: "env \<Rightarrow> string \<Rightarrow> agent \<times> db \<Rightarrow> bool" where
  "in_step e nodeID = (\<lambda>(g, d). ag_adapter g = ''native_hysteria2'' \<and> cache_ok e (ag_cache g) \<and>
     applied_version nodeID d \<le> cache_version g \<and>
     st_pending_version (ag_state g) \<le> cache_version g \<and> st_pending_version (ag_state_file g) \<le> cache_version g \<and>
     0 \<le> cache_version g)"

lemma clearPendingAck_in_step:
  assumes "clearPendingAck x g = (r, g')" and "in_step e i (g, d)"
  shows "in_step e i (g', d)"
  using assms by (auto simp: clearPendingAck_def SaveState_def in_step_def cache_version_def Let_def split: if_splits)

lemma sendPendingAck_in_step:
  assumes "sendPendingAck identity x g d = (r, g', d')" and "in_step e (ai_node_id identity) (g, d)"
  shows "in_step e (ai_node_id identity) (g', d')"
proof (cases "st_pending_version (ag_state g) = 0")
  case True
  with assms show ?thesis by (simp add: sendPendingAck_def)
next
  case False
  obtain reply d1 where t: "transmit (at_first x) (handleAgentDesiredAck identity (st_pending_version (ag_state g))
      (pending_ack g) (at_now x)) d = (reply, d1)" by fastforce
  have d1: "in_step e (ai_node_id identity) (g, d1)"
    using transmitAck_applied_version [OF t, of "ai_node_id identity"] assms(2) by (auto simp: in_step_def)
  have "d' = d1 \<and> (g' = g \<or> (\<exists>r. clearPendingAck x g = (r, g')))"
    using assms(1) False t by (auto simp: sendPendingAck_def split: reply.splits if_splits sum.splits prod.splits)
  with d1 show ?thesis by (auto intro: clearPendingAck_in_step)
qed

lemma ackFailed_in_step:
  assumes "ackFailed identity x desired code msg g d = (r, g', d')" and "in_step e i (g, d)"
  shows "in_step e i (g', d')"
proof -
  obtain reply where t: "transmit (at_second x) (handleAgentDesiredAck identity (ds_version (de_snapshot desired))
       \<lparr> aq_status = ''failed'', aq_snapshot_hash = de_sha256 desired, aq_adapter = ag_adapter g,
         aq_error_code = code, aq_message = msg, aq_reality = None \<rparr> (at_now x)) d = (reply, d')" and "g' = g"
    using assms(1) by (auto simp: ackFailed_def Let_def split: prod.splits)
  with transmitAck_applied_version [OF t, of i] assms(2) show ?thesis by (auto simp: in_step_def)
qed


definition settle ::
  "agent_identity \<Rightarrow> attempt \<Rightarrow> desired_envelope \<Rightarrow> agent \<Rightarrow> db \<Rightarrow> (string + unit) \<times> agent \<times> db" where
  "settle identity x result g1 d =
     (let g2 = g1\<lparr>ag_state := (ag_state g1)\<lparr>st_applied_version := ds_version (de_snapshot result),
                   st_applied_hash := de_sha256 result, st_pending_version := ds_version (de_snapshot result),
                   st_pending_hash := de_sha256 result\<rparr>\<rparr> in
      case SaveState (at_state_saved x) g2 of
        (Inl err, g3) \<Rightarrow> (Inl err, g3, d)
      | (Inr _, g3) \<Rightarrow> sendPendingAck identity (x\<lparr>at_first := at_second x, at_second := at_third x\<rparr>) g3 d)"

lemma apply_native:
  assumes "ag_adapter g = ''native_hysteria2''"
  shows "apply_envelope e identity x result g d =
    (case queueKicks (ds_kicks (de_snapshot result)) (at_now x) (ag_local g) of
       (Inl err, l1) \<Rightarrow> ackFailed identity x result ''kick_queue_failed'' ''native kick queue rejected desired state''
                        (g\<lparr>ag_local := l1\<rparr>) d
     | (Inr _, l1) \<Rightarrow>
     (case cache_Apply e (de_snapshot result) (de_sha256 result) (at_now x) (at_cache_saved x) (ag_cache g) of
       (Inl err, c1) \<Rightarrow> ackFailed identity x result ''auth_cache_apply_failed'' ''native auth cache rejected desired state''
                        (g\<lparr>ag_local := l1, ag_cache := c1\<rparr>) d
     | (Inr _, c1) \<Rightarrow>
     (case executePendingKicks (at_kicks_configured x) (at_kick x) (at_now x) l1 of
       (Inl err, l2) \<Rightarrow> ackFailed identity x result ''kick_apply_failed'' ''native kick requests could not be applied''
                        (g\<lparr>ag_local := l2, ag_cache := c1\<rparr>) d
     | (Inr _, l2) \<Rightarrow> settle identity x result (g\<lparr>ag_local := l2, ag_cache := c1\<rparr>) d)))"
  using assms unfolding apply_envelope_def Let_def settle_def by (simp cong: if_cong)

lemma settle_in_step:
  assumes "settle identity x result g d = (r, g', d')" and "in_step e (ai_node_id identity) (g, d)"
    and "cache_version g = ds_version (de_snapshot result)"
  shows "in_step e (ai_node_id identity) (g', d')"
proof -
  let ?g2 = "g\<lparr>ag_state := (ag_state g)\<lparr>st_applied_version := ds_version (de_snapshot result),
      st_applied_hash := de_sha256 result, st_pending_version := ds_version (de_snapshot result),
      st_pending_hash := de_sha256 result\<rparr>\<rparr>"
  have g2: "in_step e (ai_node_id identity) (?g2, d)" "in_step e (ai_node_id identity) (?g2\<lparr>ag_state_file := ag_state ?g2\<rparr>, d)"
    using assms(2,3) by (auto simp: in_step_def cache_version_def)
  have "g' = ?g2 \<and> d' = d \<or> sendPendingAck identity (x\<lparr>at_first := at_second x, at_second := at_third x\<rparr>)
      (?g2\<lparr>ag_state_file := ag_state ?g2\<rparr>) d = (r, g', d')"
    using assms(1) by (auto simp: settle_def SaveState_def Let_def split: if_splits)
  with g2 show ?thesis by (auto intro: sendPendingAck_in_step)
qed

lemma in_step_local: "in_step e i (g\<lparr>ag_local := l\<rparr>, d) = in_step e i (g, d)"
  by (simp add: in_step_def cache_version_def)

lemma in_step_applied:
  assumes "in_step e i (g, d)" and "cache_Apply e snap hash at saved (ag_cache g) = (Inr y, c1)"
  shows "in_step e i (g\<lparr>ag_local := l, ag_cache := c1\<rparr>, d)" and "cache_version (g\<lparr>ag_local := l, ag_cache := c1\<rparr>) = ds_version snap"
proof -
  have ap: "cache_Apply e snap hash at saved (ag_cache g) = (Inr (), c1)" using assms(2) by simp
  note c = cache_Apply_Inr [OF ap]
  show v: "cache_version (g\<lparr>ag_local := l, ag_cache := c1\<rparr>) = ds_version snap"
    by (simp add: cache_version_def c(1) document_of_def)
  have "cache_version g \<le> ds_version snap" using c(3) by (simp add: cache_version_def)
  with v assms(1) c(2) show "in_step e i (g\<lparr>ag_local := l, ag_cache := c1\<rparr>, d)" by (auto simp: in_step_def)
qed

lemma apply_envelope_in_step:
  assumes "apply_envelope e identity x result g d = (r, g', d')" and "in_step e (ai_node_id identity) (g, d)"
  shows "in_step e (ai_node_id identity) (g', d')"
proof -
  let ?i = "ai_node_id identity"
  have ad: "ag_adapter g = ''native_hysteria2''" using assms(2) by (simp add: in_step_def)
  obtain kr l1 where k: "queueKicks (ds_kicks (de_snapshot result)) (at_now x) (ag_local g) = (kr, l1)" by fastforce
  obtain cr c1 where c: "cache_Apply e (de_snapshot result) (de_sha256 result) (at_now x) (at_cache_saved x) (ag_cache g) = (cr, c1)" by (meson surj_pair)
  obtain xr l2 where ex: "executePendingKicks (at_kicks_configured x) (at_kick x) (at_now x) l1 = (xr, l2)" by (meson surj_pair)
  note a = assms(1) [unfolded apply_native [OF ad] k c ex prod.case]
  show ?thesis
  proof (cases kr)
    case (Inl err)
    with a have f: "ackFailed identity x result ''kick_queue_failed'' ''native kick queue rejected desired state''
        (g\<lparr>ag_local := l1\<rparr>) d = (r, g', d')" by simp
    have "in_step e ?i (g\<lparr>ag_local := l1\<rparr>, d)" using assms(2) by (simp only: in_step_local)
    with f show ?thesis by (rule ackFailed_in_step)
  next
    case kr: (Inr y)
    show ?thesis
    proof (cases cr)
      case (Inl err)
      with c have "c1 = ag_cache g" by (auto dest: cache_Apply_Inl)
      then have i: "in_step e ?i (g\<lparr>ag_local := l1, ag_cache := c1\<rparr>, d)" using assms(2) by (simp add: in_step_def cache_version_def)
      from a kr Inl have "ackFailed identity x result ''auth_cache_apply_failed'' ''native auth cache rejected desired state''
          (g\<lparr>ag_local := l1, ag_cache := c1\<rparr>) d = (r, g', d')" by simp
      then show ?thesis using i by (rule ackFailed_in_step)
    next
      case cr: (Inr z)
      with c have c': "cache_Apply e (de_snapshot result) (de_sha256 result) (at_now x) (at_cache_saved x) (ag_cache g) = (Inr z, c1)" by simp
      note s = in_step_applied [OF assms(2) c', of l2]
      show ?thesis
      proof (cases xr)
        case (Inl err)
        with a kr cr have "ackFailed identity x result ''kick_apply_failed'' ''native kick requests could not be applied''
            (g\<lparr>ag_local := l2, ag_cache := c1\<rparr>) d = (r, g', d')" by simp
        then show ?thesis using s(1) by (rule ackFailed_in_step)
      next
        case (Inr w)
        with a kr cr have "settle identity x result (g\<lparr>ag_local := l2, ag_cache := c1\<rparr>) d = (r, g', d')" by simp
        then show ?thesis using s by (rule settle_in_step)
      qed
    qed
  qed
qed

lemma pollDesired_in_step:
  assumes "pollDesired e identity x g d = (r, g', d')" and "in_step e (ai_node_id identity) (g, d)"
  shows "in_step e (ai_node_id identity) (g', d')"
proof -
  have "g' = g \<and> d' = d \<or> (\<exists>result. apply_envelope e identity x result g d = (r, g', d'))"
    using assms(1) by (auto simp: pollDesired_def split: reply.splits if_splits option.splits)
  with assms(2) show ?thesis by (auto intro: apply_envelope_in_step)
qed

lemma restart_in_step:
  assumes "restart e g = Inr g'" and "in_step e i (g, d)"
  shows "in_step e i (g', d)"
  using assms by (auto simp: restart_def in_step_def cache_ok_def cache_version_def split: if_splits)

text \<open>The steps of an agent, the network and the controller: polls, retried acknowledgements, restarts,
  and whatever the controller does on its own, which never raises a node's applied version.\<close>

inductive sync_step :: "env \<Rightarrow> agent_identity \<Rightarrow> agent \<times> db \<Rightarrow> agent \<times> db \<Rightarrow> bool" for e identity where
  polled: "pollDesired e identity x g d = (r, g', d') \<Longrightarrow> sync_step e identity (g, d) (g', d')"
| acknowledged: "sendPendingAck identity x g d = (r, g', d') \<Longrightarrow> sync_step e identity (g, d) (g', d')"
| restarted: "restart e g = Inr g' \<Longrightarrow> sync_step e identity (g, d) (g', d)"
| controller: "applied_version (ai_node_id identity) d' \<le> applied_version (ai_node_id identity) d \<Longrightarrow>
    sync_step e identity (g, d) (g, d')"

inductive sync_reachable :: "env \<Rightarrow> agent_identity \<Rightarrow> agent \<times> db \<Rightarrow> agent \<times> db \<Rightarrow> bool" for e identity s where
  start: "sync_reachable e identity s s"
| step: "sync_reachable e identity s t \<Longrightarrow> sync_step e identity t u \<Longrightarrow> sync_reachable e identity s u"

lemma sync_step_in_step:
  assumes "sync_step e identity s t" and "in_step e (ai_node_id identity) s"
  shows "in_step e (ai_node_id identity) t"
  using assms
proof (induction rule: sync_step.induct)
  case (polled x g d r g' d')
  then show ?case by (rule pollDesired_in_step)
next
  case (acknowledged x g d r g' d')
  then show ?case by (rule sendPendingAck_in_step)
next
  case (restarted g g' d)
  then show ?case by (rule restart_in_step)
next
  case (controller d' d g)
  then show ?case by (auto simp: in_step_def)
qed

text \<open>C9: The controller never believes more than the node has done.  In every state reachable by
  polls, acknowledgements, losses of requests and replies, failed writes, restarts and actions of
  the controller, the version the controller records as applied is at most the version of the
  agent's authentication cache, and that cache is on disk: a restart loads exactly it.\<close>

theorem acknowledgement_sound:
  assumes "sync_reachable e identity s t" and "in_step e (ai_node_id identity) s"
  shows "applied_version (ai_node_id identity) (snd t) \<le> ad_desired_version (ac_document (ag_cache (fst t))) \<and>
    LoadAuthCache e (ac_file (ag_cache (fst t))) = Inr (ag_cache (fst t)) \<and>
    in_step e (ai_node_id identity) t"
proof -
  have "in_step e (ai_node_id identity) t"
    using assms by (induction rule: sync_reachable.induct) (auto intro: sync_step_in_step)
  then show ?thesis by (cases t) (auto simp: in_step_def cache_version_def cache_ok_def)
qed


definition sample_agent_state :: agent_state where
  "sample_agent_state = \<lparr> st_installation_id = ''inst1'', st_node_id = ''n1'', st_node_credential = ''cred'',
     st_applied_version = 1, st_applied_hash = sample_hash, st_pending_enrollment = '''',
     st_pending_version = 1, st_pending_hash = sample_hash, st_pending_reality = None \<rparr>"

definition sample_running :: agent where
  "sample_running = \<lparr> ag_adapter = ''native_hysteria2'', ag_state = sample_agent_state, ag_state_file = sample_agent_state,
     ag_cache = sample_cache, ag_local = sample_local \<rparr>"

definition sample_attempt :: attempt where
  "sample_attempt = \<lparr> at_first = ReplyLost, at_second = Delivered, at_third = Delivered, at_now = sample_now,
     at_cache_saved = True, at_state_saved = True, at_kicks_configured = True, at_kick = (\<lambda>_. True) \<rparr>"

definition sample_acked :: "(string + unit) \<times> agent \<times> db" where
  "sample_acked = sendPendingAck sample_identity sample_attempt sample_running sample_db"

lemma sample_cache_ok: "cache_ok sample_env sample_cache" "ad_desired_version (ac_document sample_cache) = 2"
proof -
  have "fst (cache_Apply sample_env sample_secret_snapshot sample_hash 6 True sample_fresh_cache) = Inr ()" by code_simp
  then have a: "cache_Apply sample_env sample_secret_snapshot sample_hash 6 True sample_fresh_cache = (Inr (), sample_cache)"
    by (simp add: prod_eq_iff sample_cache_def)
  then show "cache_ok sample_env sample_cache" by (rule cache_Apply_Inr(2))
  have "ds_version sample_secret_snapshot = 2" by code_simp
  then show "ad_desired_version (ac_document sample_cache) = 2" by (simp add: cache_Apply_Inr(1) [OF a] document_of_def)
qed

theorem acknowledgement_sound_witness:
  "applied_version ''n1'' (snd (snd sample_acked)) \<le> ad_desired_version (ac_document (ag_cache (fst (snd sample_acked))))"
proof -
  have n: "ai_node_id sample_identity = ''n1''" by code_simp
  have v: "cache_version sample_running = 2" by (simp add: cache_version_def sample_running_def sample_cache_ok)
  have "applied_version ''n1'' sample_db = 1" by code_simp
  then have "ag_adapter sample_running = ''native_hysteria2''" "applied_version ''n1'' sample_db \<le> cache_version sample_running"
    "st_pending_version (ag_state sample_running) \<le> cache_version sample_running"
    "st_pending_version (ag_state_file sample_running) \<le> cache_version sample_running" "0 \<le> cache_version sample_running"
    unfolding v by (simp_all add: sample_running_def sample_agent_state_def)
  moreover have "cache_ok sample_env (ag_cache sample_running)" using sample_cache_ok by (simp add: sample_running_def)
  ultimately have ok: "in_step sample_env (ai_node_id sample_identity) (sample_running, sample_db)"
    by (simp add: in_step_def n)
  have "sync_step sample_env sample_identity (sample_running, sample_db) (snd sample_acked)"
    using sync_step.acknowledged [of sample_identity sample_attempt sample_running sample_db "fst sample_acked"
        "fst (snd sample_acked)" "snd (snd sample_acked)" sample_env] by (simp add: sample_acked_def)
  from sync_reachable.step [OF sync_reachable.start this] acknowledgement_sound [OF _ ok] n show ?thesis by simp
qed

end
