(* ===== verification/Fleet.thy ===== *)
theory Fleet
  imports Nodes
begin

text \<open>
  The store as a transition system: every exported operation that changes the tables of the
  fleet is a step, an empty database the initial state.  The invariant \<open>fleet_ok\<close> (exact
  traffic ledger, numbered snapshots with exactly one live one per node, no dangling ledger
  entry) holds in every reachable state.
\<close>

section \<open>Steps outside the invariant's tables\<close>

definition fleet_frame :: "db \<Rightarrow> db \<Rightarrow> bool" where
  "fleet_frame d d' \<longleftrightarrow> ledger_view d' = ledger_view d \<and>
     map node_version_view (db_nodes d') = map node_version_view (db_nodes d) \<and> db_snapshots d' = db_snapshots d"

lemma fleet_frame_ok: "fleet_frame d d' \<Longrightarrow> fleet_ok d' = fleet_ok d"
  unfolding fleet_frame_def by (rule fleet_ok_view) simp_all

lemma fleet_frame_refl: "fleet_frame d d"
  by (simp add: fleet_frame_def)

lemma fleet_frame_trans: "fleet_frame a b \<Longrightarrow> fleet_frame b c \<Longrightarrow> fleet_frame a c"
  by (simp add: fleet_frame_def)

lemma fleet_frame_tables [simp]:
  "fleet_frame d (d\<lparr>db_alerts := al\<rparr>)" "fleet_frame d (d\<lparr>db_operations := ops\<rparr>)"
  "fleet_frame d (d\<lparr>db_deliveries := dl\<rparr>)" "fleet_frame d (d\<lparr>db_next_id := k\<rparr>)"
  "fleet_frame d (d\<lparr>db_online_users := ou\<rparr>)" "fleet_frame d (d\<lparr>db_online_snapshots := os\<rparr>)"
  "fleet_frame d (d\<lparr>db_exit_proxies := xs\<rparr>)" "fleet_frame d (d\<lparr>db_backups := bs\<rparr>)"
  "fleet_frame d (d\<lparr>db_kicks := ks\<rparr>)"
  by (simp_all add: fleet_frame_def ledger_view_def)

lemma fleet_frame_nodes:
  assumes "\<And>n. node_view (f n) = node_view n" and "\<And>n. node_version_view (f n) = node_version_view n"
  shows "fleet_frame d (update_nodes p f d)"
  by (simp add: fleet_frame_def update_nodes_def ledger_view_def map_view_update assms)

lemma fleet_frame_fold: "(\<And>x s. fleet_frame s (f x s)) \<Longrightarrow> fleet_frame d (fold f xs d)"
  by (induction xs arbitrary: d) (auto simp: fleet_frame_refl intro: fleet_frame_trans)

lemma fleet_frame_rfold:
  "rfold f xs d = Inr d' \<Longrightarrow> (\<And>x s s'. f x s = Inr s' \<Longrightarrow> fleet_frame s s') \<Longrightarrow> fleet_frame d d'"
  by (erule rfold_relation) (auto intro: fleet_frame_refl fleet_frame_trans)

lemma transact_frame:
  assumes "\<And>x d'. body d = Inr (x, d') \<Longrightarrow> fleet_frame d d'"
  shows "fleet_frame d (snd (transact body d))"
  using assms transact_preserves [of body d "fleet_frame d"] fleet_frame_refl by blast

lemma notification_frame: "enqueueAlertNotificationTx e i ev pl now d = Inr d' \<Longrightarrow> fleet_frame d d'"
proof -
  have one: "fleet_frame s (enqueue_one e i ev pl now x s)" for x s
    by (simp add: enqueue_one_def NewID_def Let_def fleet_frame_def ledger_view_def)
  assume "enqueueAlertNotificationTx e i ev pl now d = Inr d'"
  then show ?thesis
    using fleet_frame_fold [of "enqueue_one e i ev pl now", OF one]
    by (auto simp: enqueueAlertNotificationTx_def split: if_splits)
qed

lemma upsertAlert_frame: "upsertAlertTx e i ty sev msg now d = Inr d' \<Longrightarrow> fleet_frame d d'"
  by (auto simp: upsertAlertTx_def NewID_def Let_def rbind_Inr_conv split: option.splits if_splits dest!: notification_frame)
    (simp add: fleet_frame_def ledger_view_def)

lemma resolveAlert_frame: "resolveAlertTx e i ty now d = Inr d' \<Longrightarrow> fleet_frame d d'"
  by (auto simp: resolveAlertTx_def Let_def rbind_Inr_conv fleet_frame_refl split: option.splits dest!: notification_frame)
    (simp add: fleet_frame_def ledger_view_def)

lemma ReconcileAlerts_frame: "fleet_frame d (snd (ReconcileAlerts e now off stuck d))"
  unfolding ReconcileAlerts_def Let_def
proof (rule transact_frame, goal_cases)
  case (1 x d')
  have step: "run_check e now c s = Inr s' \<Longrightarrow> fleet_frame s s'" for c s s'
    by (auto simp: run_check_def split: prod.splits if_splits dest: upsertAlert_frame resolveAlert_frame)
  from 1 obtain cs where "rfold (run_check e now) cs (expire_queued (\<lambda>_. True) now d) = Inr d'"
    by (auto simp: rbind_Inr_conv)
  from fleet_frame_rfold [OF this step] have "fleet_frame (expire_queued (\<lambda>_. True) now d) d'" by simp
  then show ?case by (rule fleet_frame_trans [rotated]) (simp add: expire_queued_def)
qed

lemma AcknowledgeAlert_frame: "fleet_frame d (snd (AcknowledgeAlert i admin now d))"
  by (simp add: AcknowledgeAlert_def Let_def fleet_frame_refl)

lemma snd_read_back [simp]: "snd (read_back i p) = snd p"
  by (cases p) (simp add: read_back_def)

lemma insertOperation_frame: "insertNodeOperationTx e i ty ml tg ro at rb now d = Inr (x, d') \<Longrightarrow> fleet_frame d d'"
  by (auto simp: insertNodeOperationTx_def NewID_def Let_def fleet_frame_def ledger_view_def split: if_splits)

lemma CreateOperation_frame: "fleet_frame d (snd (CreateTargetedNodeOperation e i ty ml tg rb now d))"
  unfolding CreateTargetedNodeOperation_def snd_read_back
  by (rule transact_frame)
    (auto simp: rbind_Inr_conv split: if_splits option.splits dest: insertOperation_frame)

lemma RetryOperation_frame: "fleet_frame d (snd (RetryNodeOperation e i oid rb now d))"
  unfolding RetryNodeOperation_def snd_read_back
  by (rule transact_frame)
    (auto simp: rbind_Inr_conv split: if_splits option.splits dest: insertOperation_frame)

lemma ListPending_frame: "fleet_frame d (snd (ListPendingNodeOperations identity after now limit d))"
proof -
  have mark: "fleet_frame s (fold (mark_running now) xs s)" for xs s
    by (rule fleet_frame_fold) (simp add: mark_running_def)
  have "fleet_frame d (expire_queued p now d)" for p by (simp add: expire_queued_def)
  then show ?thesis unfolding ListPendingNodeOperations_def
    by (intro transact_frame) (auto simp: Let_def split: option.splits if_splits intro: fleet_frame_trans mark)
qed

lemma RecordResult_frame: "fleet_frame d (snd (RecordNodeOperationResult e identity oid result now d))"
proof -
  have settle: "settle_failure_alert e i ty result now s = Inr s' \<Longrightarrow> fleet_frame s s'" for i ty s s'
    by (auto simp: settle_failure_alert_def fleet_frame_refl split: if_splits dest: upsertAlert_frame resolveAlert_frame)
  have backup: "record_backup e i oid c b s = Inr s' \<Longrightarrow> fleet_frame s s'" for i c b s s'
    by (auto dest!: record_backup_frame simp: fleet_frame_def ledger_view_def)
  have ops: "fleet_frame s s'" if "fleet_frame (s\<lparr>db_operations := t\<rparr>) s'" for s s' t
    using that by (simp add: fleet_frame_def ledger_view_def)
  show ?thesis unfolding RecordNodeOperationResult_def
    by (rule transact_frame) (auto simp: Let_def rbind_Inr_conv fleet_frame_refl split: option.splits if_splits
        dest!: settle backup intro: ops fleet_frame_trans)
qed

lemma RecordOnline_frame: "fleet_frame d (snd (RecordOnlineSnapshot identity snapshot now d))"
proof -
  have step: "fleet_frame (snd s) (snd s')" if "online_step identity t user s = Inr s'" for t user s s'
    using that by (cases s) (auto simp: online_step_def Let_def split: if_splits option.splits)
  have "fleet_frame (snd s) (snd s')" if "rfold (online_step identity t) users s = Inr s'" for t users s s'
    by (rule rfold_relation [where R = "\<lambda>a b. fleet_frame (snd a) (snd b)", OF that])
      (auto intro: fleet_frame_refl fleet_frame_trans step)
  note users = this
  let ?f = "\<lambda>a b c x. x\<lparr>n_online := \<lparr> no_users = b, no_connections = a, no_unknown_users = c,
      no_sampled_at = Some (unixMilli (os_sampled_at snapshot)), no_last_report_at = Some (unixMilli now) \<rparr>,
      n_updated_at := unixMilli now\<rparr>"
  have row: "fleet_frame s (update_nodes p (?f a b c) s)" for s p a b c
    by (rule fleet_frame_nodes) (simp_all add: node_view_def node_version_view_def)
  have "fleet_frame d d'" if r: "rfold (online_step identity t) us (z, d\<lparr>db_online_users := o0\<rparr>) = Inr ((a, b, c), d1)"
      "d' = update_nodes p (?f a b c) (d1\<lparr>db_online_snapshots := os\<rparr>)" for t us z o0 a b c d1 os p d'
    unfolding r(2)
    by (rule fleet_frame_trans [OF _ row], rule fleet_frame_trans [OF _ fleet_frame_tables(6)],
        rule fleet_frame_trans [OF fleet_frame_tables(5)]) (use users [OF r(1)] in simp)
  then show ?thesis unfolding RecordOnlineSnapshot_def Let_def
    by (simp add: fleet_frame_refl) (intro impI transact_frame; auto simp: rbind_Inr_conv; blast)
qed

lemma Calibrate_frame: "fleet_frame d (snd (CalibrateNodeTraffic i used now d))"
proof -
  have "fleet_frame d (update_nodes p (\<lambda>x. x\<lparr>n_traffic := (n_traffic x)\<lparr> nt_cycle_started_at := a,
      nt_cycle_upload := b, nt_cycle_download := c, nt_calibration := g, nt_calibration_proxy := h,
      nt_calibrated_at := k\<rparr>, n_updated_at := m\<rparr>) d)" for p a b c g h k m
    by (rule fleet_frame_nodes) (simp_all add: node_view_def node_version_view_def)
  then show ?thesis unfolding CalibrateNodeTraffic_def Let_def
    by (simp add: fleet_frame_refl) (intro impI transact_frame; auto simp: rbind_Inr_conv split: option.splits)
qed

lemma proxies_frame:
  "fleet_frame d (snd (CreateExitProxy e new d))" "fleet_frame d (snd (UpdateExitProxy e p upd d))"
  "fleet_frame d (snd (DeleteExitProxy p d))" "fleet_frame d (snd (ReplaceExitProxyNodes p ids now d))"
proof -
  have seal: "sealExitProxyPassword e mk i pw s = Inr (ct, s') \<Longrightarrow> fleet_frame s s'" for mk i pw s ct s'
    by (auto dest!: seal_frame)
  have add: "fleet_frame s s' \<Longrightarrow> fleet_frame s (s'\<lparr>db_exit_proxies := t\<rparr>)" for s s' t
    by (rule fleet_frame_trans [OF _ fleet_frame_tables(7)])
  show "fleet_frame d (snd (CreateExitProxy e new d))"
    unfolding CreateExitProxy_def snd_then_get_proxy
    by (rule transact_frame) (auto simp: rbind_Inr_conv Let_def split: if_splits dest!: seal intro: add)
  show "fleet_frame d (snd (UpdateExitProxy e p upd d))"
    unfolding UpdateExitProxy_def snd_then_get_proxy
    by (rule transact_frame)
      (auto simp: rbind_Inr_conv Let_def split: if_splits option.splits dest!: seal intro: add)
  have use: "fleet_frame s (update_nodes q (use_proxy_row x now) s)" for s q x
    by (rule fleet_frame_nodes) (simp_all add: use_proxy_row_def node_view_def node_version_view_def)
  have drop: "fleet_frame s (update_nodes q (\<lambda>n. n\<lparr>n_exit_proxy_id := None\<rparr>) s)" for s q
    by (rule fleet_frame_nodes) (simp_all add: node_view_def node_version_view_def)
  show "fleet_frame d (snd (DeleteExitProxy p d))"
    by (simp add: DeleteExitProxy_def fleet_frame_refl) (intro impI fleet_frame_trans [OF _ drop]; simp)
  have assign: "rfold (assign_proxy p now) xs s = Inr s' \<Longrightarrow> fleet_frame s s'" for xs s s'
    by (erule fleet_frame_rfold) (auto simp: assign_proxy_def use split: if_splits)
  have "fleet_frame d (snd (transact (\<lambda>d. rbind (rfold (assign_proxy p now) (unique_node_ids ids)
      (update_nodes (\<lambda>n. n_archived_at n = None \<and> n_exit_proxy_id n = Some p) (use_proxy_row None now) d))
        (\<lambda>d1. Inr ((), d1))) d))"
    by (rule transact_frame) (auto simp: rbind_Inr_conv dest!: assign intro: fleet_frame_trans [OF use])
  then show "fleet_frame d (snd (ReplaceExitProxyNodes p ids now d))"
    by (simp add: ReplaceExitProxyNodes_def fleet_frame_refl split: sum.split)
qed

section \<open>Traffic and kicks\<close>

text \<open>An item is accounted only to a stored user, and ingestion keeps users, nodes' versions and
  snapshots until the final bump.\<close>

lemma ingest_item_known:
  assumes "items_known (snd s)" and "ingest_item identity bid now item s = Inr s'"
  shows "items_known (snd s') \<and> db_snapshots (snd s') = db_snapshots (snd s) \<and> db_nodes (snd s') = db_nodes (snd s)"
proof -
  obtain un d un' d' where s: "s = (un, d)" "s' = (un', d')" by (cases s; cases s') auto
  let ?disp = "classifyTrafficItemTx (ai_node_id identity) (td_user_id item) d"
  let ?row = "item_row (ai_node_id identity) bid ?disp item"
  have known: "td_user_id item \<in> u_id ` set (db_users d)" if "?disp = ''accounted''"
    using that by (auto simp: classifyTrafficItemTx_def find_user_def image_iff dest!: sql_first_SomeD
        split: option.splits if_splits; metis)
  have row: "items_known (log_item ?row d)"
    using assms(1) known by (auto simp: s items_known_def log_item_def item_row_def)
  have acc: "db_batch_items x' = db_batch_items x \<and> map u_id (db_users x') = map u_id (db_users x) \<and>
      db_snapshots x' = db_snapshots x \<and> db_nodes x' = db_nodes x"
    if "addAccountedTrafficTx (ai_node_id identity) bid item now x = Inr x'" for x x'
    using that
    by (auto simp: addAccountedTrafficTx_def Let_def update_users_def update_assignments_def
        user_traffic.map_key_update split: option.splits if_splits)
  from assms(2) have "d' = log_item ?row d \<or> (\<exists>x. addAccountedTrafficTx (ai_node_id identity) bid item now (log_item ?row d) = Inr d')"
    by (auto simp: s ingest_item_def Let_def rbind_Inr_conv insert_batch_item_Inr item_row_def failing_def
        split: if_splits option.splits sum.splits)
  then show ?thesis
  proof
    assume "d' = log_item ?row d"
    with row show ?thesis by (simp add: s log_item_def)
  next
    assume "\<exists>x. addAccountedTrafficTx (ai_node_id identity) bid item now (log_item ?row d) = Inr d'"
    then have "addAccountedTrafficTx (ai_node_id identity) bid item now (log_item ?row d) = Inr d'" by blast
    note x = acc [OF this]
    from row x show ?thesis unfolding s snd_conv items_known_def by (simp add: log_item_def del: set_map)
  qed
qed

lemma fleet_ok_Ingest:
  assumes "fleet_ok d" and "\<forall>item\<in>set (tb_items batch). item_ok item"
  shows "fleet_ok (snd (IngestTrafficBatch e identity batch now d))"
proof (cases "IngestTrafficBatch e identity batch now d")
  case (Pair r d')
  show ?thesis
  proof (cases "d' = d")
    case False
    then have body: "ingest_body e identity batch now d = Inr d'" using IngestTrafficBatch_cases [OF Pair] by blast
    have led: "ledger_ok d'" using ingest_body_Inr(1) [OF _ assms(2) body] assms(1) by (simp add: fleet_ok_def)
    from body obtain ut dt un d1 d2 d3 ch d4 prior states where
      ib: "insert_batch (batch_row_of e identity batch ut dt now) d = Inr d1"
      and it: "rfold (ingest_item identity (tb_id batch) now) (tb_items batch) (0, d1) = Inr (un, d2)"
      and nt: "addNodeTrafficTx (ai_node_id identity) ut dt un (tb_sampled_at batch) now d2 = Inr d3"
      and qc: "rfold (quota_change prior now) states ([], d3) = Inr (ch, d4)"
      and bc: "bumpChangedAssignmentsTx e ch now d4 = Inr d'"
      by (auto simp: ingest_body_def Let_def rbind_Inr_conv split: option.splits if_splits)
    have 1: "items_known d1 \<and> db_snapshots d1 = db_snapshots d \<and> db_nodes d1 = db_nodes d"
      using ib assms(1) by (auto simp: insert_batch_def fleet_ok_def items_known_def split: if_splits)
    have "items_known (snd (un, d2)) \<and> db_snapshots (snd (un, d2)) = db_snapshots d1 \<and> db_nodes (snd (un, d2)) = db_nodes d1"
      by (rule rfold_invariant [where P = "\<lambda>s. items_known (snd s) \<and> db_snapshots (snd s) = db_snapshots d1 \<and>
          db_nodes (snd s) = db_nodes d1", OF it]) (use 1 ingest_item_known in \<open>simp, metis\<close>)
    with 1 have 2: "items_known d2" "db_snapshots d2 = db_snapshots d" "db_nodes d2 = db_nodes d" by simp_all
    have 3: "items_known d3 \<and> db_snapshots d3 = db_snapshots d2 \<and>
        map node_version_view (db_nodes d3) = map node_version_view (db_nodes d2)"
      using nt 2(1) by (auto simp: addNodeTrafficTx_def Let_def rbind_Inr_conv update_nodes_def items_known_def
          map_view_update node_version_view_def split: option.splits if_splits prod.splits)
    from quota_changes_frame [OF qc] obtain ks where d4: "d4 = d3\<lparr>db_kicks := ks\<rparr>" by blast
    have "versions_ok d4"
      using versions_ok_view [of d4 d] 2 3 assms(1) by (simp add: d4 fleet_ok_def)
    then have "versions_ok d'" using bumpChanged_versions [OF _ bc] by blast
    moreover have "items_known d'"
      using items_known_view [OF bumpChanged_ledger_view [OF bc]] 3 by (simp add: d4 items_known_def)
    ultimately show ?thesis using led Pair by (simp add: fleet_ok_def)
  qed (use Pair assms(1) in simp)
qed

lemma kick_steps_frame:
  assumes "rfold (kick_step u reason now) is (ch, d) = Inr (ch', d')"
  shows "fleet_frame d d'"
proof -
  have "fleet_frame (snd (ch, d)) (snd (ch', d'))"
    by (rule rfold_relation [where R = "\<lambda>s s'. fleet_frame (snd s) (snd s')", OF assms])
      (auto simp: kick_step_def rbind_Inr_conv dest!: requestKickTx_frame intro: fleet_frame_refl fleet_frame_trans)
  then show ?thesis by simp
qed

lemma fleet_ok_RequestUserKick: "fleet_ok d \<Longrightarrow> fleet_ok (snd (RequestUserKick e u i now d))"
  unfolding RequestUserKick_def Let_def
proof (rule transact_preserves, goal_cases)
  case (1 x d')
  then obtain ids ch d1 where "rfold (kick_step u ''manual'' now) ids ([], d) = Inr (ch, d1)"
    "bumpChangedAssignmentsTx e ch now d1 = Inr d'"
    by (auto simp: rbind_Inr_conv split: if_splits)
  with fleet_frame_ok [OF kick_steps_frame] 1(1) show ?case using fleet_ok_bumpChanged by blast
qed

lemma enforce_steps_frame:
  assumes "rfold (enforce_step now) us (s, d) = Inr (s', d')"
  shows "fleet_frame d d'"
proof -
  have enforced: "fleet_frame x (update_users p
      (\<lambda>u. u\<lparr>u_expiry_enforced_at := Some (unixMilli now), u_updated_at := unixMilli now\<rparr>) x)" for p x
    by (simp add: fleet_frame_def update_users_def ledger_view_def map_view_update user_view_def)
  have step: "fleet_frame (snd a) (snd b)" if "enforce_step now u a = Inr b" for u a b
    using that by (cases a; cases b)
      (auto simp: enforce_step_def Let_def rbind_Inr_conv fleet_frame_refl split: if_splits
        dest!: kick_steps_frame intro: fleet_frame_trans [OF enforced])
  have "fleet_frame (snd (s, d)) (snd (s', d'))"
    by (rule rfold_relation [where R = "\<lambda>a b. fleet_frame (snd a) (snd b)", OF assms])
      (auto intro: fleet_frame_refl fleet_frame_trans step)
  then show ?thesis by simp
qed

lemma fleet_ok_EnforceExpiredUsers: "fleet_ok d \<Longrightarrow> fleet_ok (snd (EnforceExpiredUsers e now limit d))"
proof -
  assume ok: "fleet_ok d"
  have "fleet_ok (snd (transact (\<lambda>d. rbind (rfold (enforce_step now) us ((0, []), d)) (\<lambda>((enforced, changed), d1).
        rbind (bumpChangedAssignmentsTx e changed now d1) (\<lambda>d2. Inr (enforced, d2)))) d))" for us
  proof (rule transact_preserves)
    fix x d' assume "rbind (rfold (enforce_step now) us ((0, []), d)) (\<lambda>((enforced, changed), d1).
        rbind (bumpChangedAssignmentsTx e changed now d1) (\<lambda>d2. Inr (enforced, d2))) = Inr (x, d')"
    then obtain n ch d1 where "rfold (enforce_step now) us ((0, []), d) = Inr ((n, ch), d1)"
      "bumpChangedAssignmentsTx e ch now d1 = Inr d'" by (auto simp: rbind_Inr_conv)
    with fleet_frame_ok [OF enforce_steps_frame] ok show "fleet_ok d'" using fleet_ok_bumpChanged by blast
  qed (rule ok)
  with ok show ?thesis by (simp add: EnforceExpiredUsers_def Let_def)
qed

lemma fleet_ok_RetryNodeSync: "fleet_ok d \<Longrightarrow> fleet_ok (snd (RetryNodeSync e i now d))"
  unfolding RetryNodeSync_def Let_def
proof (rule transact_preserves, goal_cases)
  case (1 x d')
  then obtain v d1 st where b: "bumpNodeSnapshot e i now d = Inr (v, d1)"
    and r: "resolveAlertTx e i ''sync_failed'' now (update_nodes (\<lambda>x. n_id x = i)
      (\<lambda>x. x\<lparr>n_status := st, n_status_reason := '''', n_updated_at := unixMilli now\<rparr>)
      (mark_node_assignments i v now d1)) = Inr d'"
    by (auto simp: rbind_Inr_conv mark_node_assignments_def split: option.splits if_splits)
  from fleet_frame_ok [OF resolveAlert_frame [OF r]] fleet_ok_bump [OF 1(1) b] show ?case by simp
qed

section \<open>The transition system\<close>

definition empty_db :: db where
  "empty_db = \<lparr> db_nodes = [], db_users = [], db_assignments = [], db_credentials = [], db_snapshots = [],
     db_kicks = [], db_batches = [], db_batch_items = [], db_totals = [], db_online_users = [],
     db_online_snapshots = [], db_operations = [], db_backups = [], db_alerts = [], db_tokens = [],
     db_capabilities = [], db_reality = [], db_metrics = [], db_notifiers = [], db_deliveries = [],
     db_exit_proxies = [], db_next_id = 0 \<rparr>"

inductive store_step :: "env \<Rightarrow> db \<Rightarrow> db \<Rightarrow> bool" for e where
  node_created: "store_step e d (snd (CreateNode e new d))"
| node_changed: "store_step e d (snd (UpdateNode e i change d))"
| node_archived: "store_step e d (snd (ArchiveNodeWithForce i force now d))"
| identity_rotated: "store_step e d (snd (RotateVLESSRealityIdentity e i g v now d))"
| sync_retried: "store_step e d (snd (RetryNodeSync e i now d))"
| proxy_created: "store_step e d (snd (CreateExitProxy e proxy d))"
| proxy_changed: "store_step e d (snd (UpdateExitProxy e p pchange d))"
| proxy_deleted: "store_step e d (snd (DeleteExitProxy p d))"
| proxy_nodes: "store_step e d (snd (ReplaceExitProxyNodes p ids now d))"
| user_created: "store_step e d (snd (CreateUser e user mk d))"
| user_changed: "store_step e d (snd (UpdateUser e u uchange d))"
| user_archived: "store_step e d (snd (ArchiveUser e u now d))"
| user_assigned: "store_step e d (snd (AssignUser e u i limit now mk d))"
| user_unassigned: "store_step e d (snd (UnassignUser e u i now d))"
| assignment_changed: "store_step e d (snd (UpdateAssignment e u i achange d))"
| assignment_switched: "store_step e d (snd (SetAssignmentEnabled e u i on now d))"
| credential_rotated: "store_step e d (snd (RotateAssignmentCredential e u i now mk d))"
| credentials_rotated: "store_step e d (snd (RotateUserCredentials e u now mk d))"
| token_created: "store_step e d (snd (CreateEnrollmentToken e i admin now lifetime d))"
| agent_enrolled: "store_step e d (snd (EnrollAgent e token facts mk now d))"
| heartbeat: "store_step e d (snd (RecordHeartbeat e identity hb now d))"
| acknowledged: "store_step e d (snd (AcknowledgeDesiredWithMaterial identity v hash st ec msg reality now d))"
| traffic_ingested: "\<forall>item\<in>set (tb_items batch). item_ok item \<Longrightarrow>
    store_step e d (snd (IngestTrafficBatch e identity batch now d))"
| online_recorded: "store_step e d (snd (RecordOnlineSnapshot identity snapshot now d))"
| user_kicked: "store_step e d (snd (RequestUserKick e u i now d))"
| expiry_enforced: "store_step e d (snd (EnforceExpiredUsers e now k d))"
| traffic_calibrated: "store_step e d (snd (CalibrateNodeTraffic i used now d))"
| alerts_reconciled: "store_step e d (snd (ReconcileAlerts e now off stuck d))"
| alert_acknowledged: "store_step e d (snd (AcknowledgeAlert al admin now d))"
| operation_created: "store_step e d (snd (CreateTargetedNodeOperation e i ty lines tg admin now d))"
| operation_retried: "store_step e d (snd (RetryNodeOperation e i oid admin now d))"
| operations_fetched: "store_step e d (snd (ListPendingNodeOperations identity after now k d))"
| operation_reported: "store_step e d (snd (RecordNodeOperationResult e identity oid result now d))"

lemmas fleet_frames = proxies_frame RecordOnline_frame Calibrate_frame ReconcileAlerts_frame AcknowledgeAlert_frame
  CreateOperation_frame RetryOperation_frame ListPending_frame RecordResult_frame

lemmas fleet_ok_operations = fleet_ok_CreateNode fleet_ok_UpdateNode fleet_ok_ArchiveNode fleet_ok_Rotate
  fleet_ok_RetryNodeSync fleet_ok_CreateUser fleet_ok_UpdateUser fleet_ok_ArchiveUser fleet_ok_AssignUser
  fleet_ok_UnassignUser fleet_ok_UpdateAssignment fleet_ok_SetAssignmentEnabled
  fleet_ok_RotateAssignmentCredential fleet_ok_RotateUserCredentials fleet_ok_CreateEnrollmentToken
  fleet_ok_EnrollAgent fleet_ok_RecordHeartbeat fleet_ok_Acknowledge fleet_ok_Ingest fleet_ok_RequestUserKick
  fleet_ok_EnforceExpiredUsers fleet_frames [THEN fleet_frame_ok, THEN iffD2]

lemma store_step_ok: "store_step e d d' \<Longrightarrow> fleet_ok d \<Longrightarrow> fleet_ok d'"
  by (induction rule: store_step.induct) (rule fleet_ok_operations; assumption)+

lemma empty_fleet_ok: "fleet_ok empty_db"
  by (simp add: fleet_ok_def ledger_ok_def counters_ok_def ledger_users_def ledger_assignments_def
      ledger_totals_def ledger_items_def ledger_nodes_def ledger_batches_def total_of_def versions_ok_def
      items_known_def empty_db_def unique_by_def)

lemma live_snapshot_unique:
  assumes "versions_ok d" and "n \<in> set (db_nodes d)"
  shows "\<exists>!s. s \<in> set (db_snapshots d) \<and> s_node_id s = n_id n \<and> s_superseded_at s = None"
proof -
  from assms obtain s where s: "s \<in> set (db_snapshots d)" "skey s = (n_id n, n_desired_version n)"
    by (auto simp: versions_ok_def)
  have live: "s_superseded_at x = None \<longleftrightarrow> s_version x = n_desired_version n"
    if "x \<in> set (db_snapshots d)" "s_node_id x = n_id n" for x
    using assms that by (auto simp: versions_ok_def)
  have u: "unique_by skey (db_snapshots d)" using assms(1) by (simp add: versions_ok_def)
  show ?thesis
  proof (rule ex1I [of _ s])
    show "s \<in> set (db_snapshots d) \<and> s_node_id s = n_id n \<and> s_superseded_at s = None"
      using s live [of s] by (simp add: skey_def)
    show "x = s" if "x \<in> set (db_snapshots d) \<and> s_node_id x = n_id n \<and> s_superseded_at x = None" for x
      using that s live [of x] unique_byD [OF u, of x s] by (simp add: skey_def)
  qed
qed


definition sample_started :: db where
  "sample_started = snd (CreateNode sample_env sample_new_node empty_db)"


end
