(* ===== verification/Spec2Isabelle.thy ===== *)
theory Spec2Isabelle
  imports Prelude Calendar Base64 Go_Strings Traffic_Cycle Database Sample Secrets Desired_State
    Traffic Alerts Notifications Operations Users Agent_Registry Exit_Proxies Nodes Local_Store
    Delivery Auth_Cache Agent_Sync Fleet
begin

text \<open>
  \<^bold>\<open>PolyFleet: a fleet controller for proxy nodes and its agents.\<close>

  A controller (internal/server over internal/store, a SQLite database) keeps nodes, users, their
  assignments, credentials, quotas and alerts.  Every node runs an agent (internal/agent) that
  enrols with a one-time token, polls the node's desired state, applies it to the data plane,
  acknowledges it, executes node operations, and reports traffic, online users and heartbeats.
  Whatever changes what a node should serve publishes a new numbered snapshot of its desired
  state; traffic flows the other way as numbered batches which the controller books exactly once
  and turns into quota decisions, kicks and new snapshots.

  \<^bold>\<open>Conventions.\<close>  Times are integers (nanoseconds; database columns in milliseconds); Go's
  \<open>int64\<close> is \<open>int\<close> with \<open>add64\<close>/\<open>sub64\<close> where the code computes and explicit ranges where
  overflow matters; strings are byte strings; SQL tables are lists of rows and statements the
  list functions of \<open>Prelude\<close>; a transaction (\<open>transact\<close>) discards its working copy on any
  error.  Code outside the repository is an argument: the record \<open>env\<close> holds random bytes,
  identifiers, UUID parsing, SHA-256, the AEAD and message digests; the laws a theorem needs of
  it are hypotheses (\<open>crypto_ok\<close>, \<open>json_ok\<close>), and \<open>Sample\<close> instantiates them.  Failures of the
  database itself, context cancellation and logging are left out.  All functions are total:
  loops are recursions over lists (\<open>rfold\<close>) or have termination proofs, so no fuel is used.

  \<^bold>\<open>Theories.\<close>

  \<^item> \<open>Prelude\<close>, \<open>Calendar\<close>, \<open>Base64\<close>, \<open>Go_Strings\<close>: results, 64-bit arithmetic, SQL tables (locale
    \<open>row_update\<close>: updates that keep a key), Go's \<open>time.Date\<close>/\<open>AddDate\<close>, \<open>base64.RawURLEncoding\<close>,
    \<open>strings.TrimSpace\<close>, \<open>path.Clean\<close>, \<open>net.ParseIP\<close>.
  \<^item> \<open>Database\<close>, \<open>Sample\<close>: the rows and protocol messages, and a small concrete fleet for examples.
  \<^item> \<open>Secrets\<close> (internal/cryptoutil): tokens and sealed secrets; opening inverts sealing.
  \<^item> \<open>Traffic_Cycle\<close> (store/traffic\_budget.go): billing cycles; where they bracket the present and
    where month arithmetic breaks them.
  \<^item> \<open>Desired_State\<close> (store/user.go, reality.go, traffic.go: snapshots, bumps, kick requests):
    versions are handed out one by one and the latest snapshot is the only live one
    (\<open>versions_ok\<close>); a snapshot lists exactly the eligible users.
  \<^item> \<open>Traffic\<close> (store/traffic.go): ingestion of batches, online snapshots, kicks, expiry,
    calibration; the ledger invariant \<open>ledger_ok\<close> (every cached counter is the sum of the logged
    items, within 64 bits), idempotence, atomicity and conservation.
  \<^item> \<open>Alerts\<close> (store/alert.go), \<open>Operations\<close> (store/operation.go): exact reconciliation of alerts;
    the operation queue as a state machine with bounded length.
  \<^item> \<open>Notifications\<close> (store/notification.go, server/notification\_handlers.go): notifiers and the
    dispatcher; every queued notification is settled after at most six attempts.
  \<^item> \<open>Users\<close> (store/user.go), \<open>Agent_Registry\<close> (store/agent.go): assignments, credentials and their
    rotation, enrolment, heartbeats, acknowledgements; every operation keeps \<open>fleet_ok\<close>.
  \<^item> \<open>Exit_Proxies\<close> (store/exit\_proxy.go): the catalog of exit proxies, its well-formedness
    \<open>proxies_ok\<close>, sealed passwords, and which nodes use a proxy.
  \<^item> \<open>Nodes\<close> (store/node.go, store/reality.go): creating, changing and archiving nodes, and the
    Reality identity; a change publishes the next snapshot and keeps \<open>fleet_ok\<close>.
  \<^item> \<open>Local_Store\<close> (agent/local\_store.go): the sampler (each sample carries exactly the growth of
    the counters), the kick queue (no kick is lost) and the other outboxes.
  \<^item> \<open>Delivery\<close> (agent/agent.go, server/traffic\_handlers.go): the upload over a network that loses
    messages.  Locale \<open>reliable_outbox\<close> states the contract of at-most-once booking with retries;
    its interpretation on the endpoint makes agent and controller refine an abstract meter.
  \<^item> \<open>Auth_Cache\<close> (agent/auth\_cache.go, auth\_server.go): who is let in by the data plane is exactly
    what the controller's tables say.
  \<^item> \<open>Agent_Sync\<close> (agent/agent.go, state.go, server/agent\_handlers.go): polling, applying and
    acknowledging with losses and restarts, as a step relation.
  \<^item> \<open>Fleet\<close>: the store as a transition system with a step per operation; \<open>fleet_ok\<close> holds in
    every state reachable from an empty database.

  \<^bold>\<open>Not modelled.\<close>  The S-UI and sing-box adapters and the privileged helper (exchanges with
  third-party services and the operating system), rendering of subscriptions and guides,
  reminders and the wire format of notifications, telemetry collection, HTTP and JSON framing of the
  administration, schema migrations, backups, configuration and the web interface.  Go maps are
  visited in a fixed order; concurrent requests are serialised, as SQLite's single writer does.
\<close>

end
